(* ===== verification/Prelude.thy ===== *)
theory Prelude
  imports Main "HOL-Library.Word"
begin

text \<open>
  Shared ground of the development: the names of the machine types, the result type of a
  Rust computation, sequencing of computations over a state, and the generic facts about
  lists and results that the component theories use.
  The theory models the Rust language and its calling conventions, not a file of the
  repository; every component theory imports it.
\<close>

unbundle bit_operations_syntax

named_theorems codec_simps \<open>byte-level encoders and decoders\<close>
named_theorems layout_simps \<open>field layouts of the C structs\<close>
named_theorems res_simps \<open>sequencing of results\<close>
named_theorems text_simps \<open>strings as sequences of UTF-8 bytes\<close>

section \<open>Machine types\<close>

type_synonym u8 = "8 word"
type_synonym u16 = "16 word"
type_synonym u32 = "32 word"
type_synonym u64 = "64 word"
type_synonym i64 = "64 word" \<comment> \<open>two's complement, read with \<open>sint\<close>\<close>

text \<open>
  A byte buffer (\<open>Vec<u8>\<close>, \<open>&[u8]\<close>, \<open>[u8; N]\<close>) is a list of bytes. A \<open>String\<close> or
  \<open>&str\<close> is the list of the bytes of its UTF-8 encoding, as \<^typ>\<open>char\<close>s, so that
  \<open>len()\<close> is \<^const>\<open>length\<close>. Sizes and offsets (\<open>usize\<close>, 64 bits on the targets of the
  repository) are \<^typ>\<open>nat\<close>: every one of them is bounded by a buffer length plus a
  32-bit length field.
\<close>

type_synonym bytes = "u8 list"

section \<open>Results\<close>

text \<open>
  Errors: a message made by \<open>bail!\<close>, \<open>anyhow!\<close> or \<open>format!\<close>; an operating-system error
  number; the displayed text of an error of a library; a context put around an error.
\<close>

datatype error = Msg string | OsErrno "32 word" | Ext string | Ctx string error

text \<open>
  The outcome of a computation: a value, an error returned to the caller, a panic, or no
  outcome because the computation waits for input that never comes.
\<close>

datatype 'a res = Ok 'a | Err error | Panic | Blocked

fun res_bind :: "'a res \<Rightarrow> ('a \<Rightarrow> 'b res) \<Rightarrow> 'b res" where
  "res_bind (Ok x) f = f x"
| "res_bind (Err e) f = Err e"
| "res_bind Panic f = Panic"
| "res_bind Blocked f = Blocked"

declare res_bind.simps [res_simps]

text \<open>\<open>.context(..)\<close> and \<open>.with_context(..)\<close> of \<open>anyhow\<close>.\<close>

fun res_context :: "string \<Rightarrow> 'a res \<Rightarrow> 'a res" where
  "res_context s (Err e) = Err (Ctx s e)"
| "res_context s (Ok x) = Ok x"
| "res_context s Panic = Panic"
| "res_context s Blocked = Blocked"

definition is_ok :: "'a res \<Rightarrow> bool" where
  "is_ok r \<longleftrightarrow> (case r of Ok _ \<Rightarrow> True | _ \<Rightarrow> False)"

lemma is_ok_simps [simp, res_simps]:
  "is_ok (Ok x)" "\<not> is_ok (Err e)" "\<not> is_ok Panic" "\<not> is_ok Blocked"
  by (simp_all add: is_ok_def)

lemma is_ok_iff: "is_ok r \<longleftrightarrow> (\<exists>x. r = Ok x)"
  by (cases r) simp_all

lemma res_bind_Ok_iff [res_simps]:
  "res_bind r f = Ok y \<longleftrightarrow> (\<exists>x. r = Ok x \<and> f x = Ok y)"
  by (cases r) simp_all

lemma res_bind_assoc: "res_bind (res_bind r f) g = res_bind r (\<lambda>x. res_bind (f x) g)"
  by (cases r) simp_all

lemma res_bind_Ok_right [simp]: "res_bind r Ok = r"
  by (cases r) simp_all

lemma res_context_Ok_iff [simp, res_simps]: "res_context s r = Ok x \<longleftrightarrow> r = Ok x"
  by (cases r) simp_all

section \<open>Computations over a state\<close>

text \<open>
  \<open>then_do m f\<close> runs \<open>m\<close> and, when it returns a value, \<open>f\<close> on the value from the state
  \<open>m\<close> left: Rust's \<open>;\<close> with the \<open>?\<close> operator.
\<close>

type_synonym ('s, 'a) comp = "'s \<Rightarrow> 'a res \<times> 's"

definition ret :: "'a \<Rightarrow> ('s, 'a) comp" where
  "ret x = (\<lambda>s. (Ok x, s))"

definition fail :: "error \<Rightarrow> ('s, 'a) comp" where
  "fail e = (\<lambda>s. (Err e, s))"

definition then_do :: "('s, 'a) comp \<Rightarrow> ('a \<Rightarrow> ('s, 'b) comp) \<Rightarrow> ('s, 'b) comp" where
  "then_do m f = (\<lambda>s. case m s of
      (Ok x, s') \<Rightarrow> f x s'
    | (Err e, s') \<Rightarrow> (Err e, s')
    | (Panic, s') \<Rightarrow> (Panic, s')
    | (Blocked, s') \<Rightarrow> (Blocked, s'))"

text \<open>A result that does not depend on the state, as a computation.\<close>

definition lift_res :: "'a res \<Rightarrow> ('s, 'a) comp" where
  "lift_res r = (\<lambda>s. (r, s))"

text \<open>\<open>match\<close> on the result of a computation, and a context around its error.\<close>

definition try_do :: "('s, 'a) comp \<Rightarrow> ('a \<Rightarrow> ('s, 'b) comp) \<Rightarrow> (error \<Rightarrow> ('s, 'b) comp) \<Rightarrow> ('s, 'b) comp" where
  "try_do m f g s =
     (case m s of
        (Ok x, s) \<Rightarrow> f x s
      | (Err e, s) \<Rightarrow> g e s
      | (Panic, s) \<Rightarrow> (Panic, s)
      | (Blocked, s) \<Rightarrow> (Blocked, s))"

definition with_context :: "string \<Rightarrow> ('s, 'a) comp \<Rightarrow> ('s, 'a) comp" where
  "with_context c m s = (case m s of (r, s) \<Rightarrow> (res_context c r, s))"

lemma ret_apply [simp]: "ret x s = (Ok x, s)"
  by (simp add: ret_def)

lemma fail_apply [simp]: "fail e s = (Err e, s)"
  by (simp add: fail_def)

lemma lift_res_apply [simp]: "lift_res r s = (r, s)"
  by (simp add: lift_res_def)

lemma then_do_apply:
  "then_do m f s = (case m s of
      (Ok x, s') \<Rightarrow> f x s'
    | (Err e, s') \<Rightarrow> (Err e, s')
    | (Panic, s') \<Rightarrow> (Panic, s')
    | (Blocked, s') \<Rightarrow> (Blocked, s'))"
  by (simp add: then_do_def)

lemma then_do_Ok: "m s = (Ok x, s') \<Longrightarrow> then_do m f s = f x s'"
  by (simp add: then_do_def)

lemma then_do_Err: "m s = (Err e, s') \<Longrightarrow> then_do m f s = (Err e, s')"
  by (simp add: then_do_def)

lemma then_do_Panic: "m s = (Panic, s') \<Longrightarrow> then_do m f s = (Panic, s')"
  by (simp add: then_do_def)

lemma then_do_Blocked: "m s = (Blocked, s') \<Longrightarrow> then_do m f s = (Blocked, s')"
  by (simp add: then_do_def)

lemma then_do_ret [simp]: "then_do (ret x) f s = f x s"
  by (simp add: then_do_def)

lemma then_do_fail [simp]: "then_do (fail e) f s = (Err e, s)"
  by (simp add: then_do_def)

text \<open>The same as equations between computations.\<close>

lemma then_do_lift_Ok: "then_do (lift_res (Ok x)) f = f x"
  by (rule ext) (simp add: then_do_def)

lemma then_do_fail_comp: "then_do (fail e) f = fail e"
  by (rule ext) simp

lemma then_do_assoc: "then_do (then_do m f) g = then_do m (\<lambda>x. then_do (f x) g)"
  by (rule ext) (simp add: then_do_def split: prod.split res.split)

lemma then_do_if: "then_do (if b then m else m') f = (if b then then_do m f else then_do m' f)"
  by simp

lemmas then_do_comp = then_do_lift_Ok then_do_fail_comp then_do_assoc then_do_if

lemma then_do_Ok_iff:
  "then_do m f s = (Ok y, t) \<longleftrightarrow> (\<exists>x s'. m s = (Ok x, s') \<and> f x s' = (Ok y, t))"
  by (auto simp: then_do_def split: prod.splits res.splits)

section \<open>Lists\<close>

lemma take_drop_append_exact [simp]:
  "length xs = n \<Longrightarrow> take n (xs @ ys) = xs"
  "length xs = n \<Longrightarrow> drop n (xs @ ys) = ys"
  by simp_all

lemma drop_append_within: "n \<le> length xs \<Longrightarrow> drop n xs @ ys = drop n (xs @ ys)"
  by simp

lemma dropWhile_replicate_append:
  "P x \<Longrightarrow> dropWhile P (replicate n x @ ys) = dropWhile P ys"
  by (induction n) simp_all

end
