(* ===== verification/Bytes.thy ===== *)
theory Bytes
  imports Prelude
begin

text \<open>
  Integers as bytes, the way \<open>to_ne_bytes\<close>, \<open>to_be_bytes\<close>, \<open>from_ne_bytes\<close>,
  \<open>from_be_bytes\<close> and an unaligned read of a \<open>repr(C)\<close> struct see them. The targets of
  the repository (x86-64 and aarch64) are little endian, so native order is little endian.
  Also here: the 64-bit signed arithmetic of Rust under its two build profiles.
\<close>

section \<open>Little-endian and big-endian words\<close>

definition to_le :: "nat \<Rightarrow> 'a::len word \<Rightarrow> bytes" where
  "to_le n w = map (\<lambda>i. ucast (drop_bit (8 * i) w)) [0..<n]"

fun from_le :: "bytes \<Rightarrow> 'a::len word" where
  "from_le [] = 0"
| "from_le (b # bs) = ucast b OR push_bit 8 (from_le bs)"

definition to_be :: "nat \<Rightarrow> 'a::len word \<Rightarrow> bytes" where
  "to_be n w = rev (to_le n w)"

definition from_be :: "bytes \<Rightarrow> 'a::len word" where
  "from_be bs = from_le (rev bs)"

lemma unat_of_nat_small:
  "n < 2 ^ LENGTH('a) \<Longrightarrow> unat (of_nat n :: 'a::len word) = n"
  by (simp add: unat_of_nat)

lemma length_to_le [simp, codec_simps]: "length (to_le n w) = n"
  by (simp add: to_le_def)

lemma length_to_be [simp, codec_simps]: "length (to_be n w) = n"
  by (simp add: to_be_def)

lemma bit_from_le:
  "bit (from_le bs :: 'a::len word) k \<longleftrightarrow>
     k < LENGTH('a) \<and> k < 8 * length bs \<and> bit (bs ! (k div 8)) (k mod 8)"
proof (induction bs arbitrary: k)
  case Nil
  then show ?case by simp
next
  case (Cons b bs)
  show ?case
  proof (cases "k < 8")
    case True
    then show ?thesis
      by (auto simp: bit_or_iff bit_push_bit_iff bit_ucast_iff)
  next
    case False
    then have k: "k div 8 = Suc ((k - 8) div 8)" "k mod 8 = (k - 8) mod 8"
      by (simp_all add: le_div_geq le_mod_geq)
    have "\<not> bit b k"
      using False bit_imp_le_length [of b k] by auto
    with False k Cons.IH [of "k - 8"] show ?thesis
      by (auto simp: bit_or_iff bit_push_bit_iff bit_ucast_iff)
  qed
qed

lemma bit_to_le:
  "i < n \<Longrightarrow> bit (to_le n w ! i) k \<longleftrightarrow> k < 8 \<and> bit w (8 * i + k)"
  by (simp add: to_le_def bit_ucast_iff bit_drop_bit_eq)

lemma from_le_to_le:
  assumes "LENGTH('a) = 8 * n"
  shows "from_le (to_le n w) = (w :: 'a::len word)"
proof (rule bit_eqI)
  fix k
  assume "possible_bit TYPE('a word) k"
  then have k: "k < 8 * n" by (simp add: assms)
  then have "k div 8 < n" by auto
  then show "bit (from_le (to_le n w) :: 'a word) k = bit w k"
    using k by (simp add: bit_from_le bit_to_le assms)
qed

lemma to_le_from_le:
  assumes "LENGTH('a) = 8 * n" and "length bs = n"
  shows "to_le n (from_le bs :: 'a::len word) = bs"
proof (rule nth_equalityI)
  show "length (to_le n (from_le bs :: 'a word)) = length bs"
    by (simp add: assms)
next
  fix i
  assume i: "i < length (to_le n (from_le bs :: 'a word))"
  then have "i < n" by simp
  show "to_le n (from_le bs :: 'a word) ! i = bs ! i"
  proof (rule bit_eqI)
    fix k
    assume "possible_bit TYPE(8 word) k"
    then have "k < 8" by simp
    with \<open>i < n\<close> have "8 * i + k < 8 * n" by linarith
    with \<open>i < n\<close> \<open>k < 8\<close> show "bit (to_le n (from_le bs :: 'a word) ! i) k = bit (bs ! i) k"
      by (simp add: bit_to_le bit_from_le assms)
  qed
qed

lemma from_le_to_le_u16 [simp, codec_simps]: "from_le (to_le 2 w) = (w :: u16)"
  by (rule from_le_to_le) simp

lemma from_le_to_le_u32 [simp, codec_simps]: "from_le (to_le 4 w) = (w :: u32)"
  by (rule from_le_to_le) simp

lemma from_le_to_le_u64 [simp, codec_simps]: "from_le (to_le 8 w) = (w :: u64)"
  by (rule from_le_to_le) simp

lemma to_le_from_le_u16 [simp, codec_simps]:
  "length bs = 2 \<Longrightarrow> to_le 2 (from_le bs :: u16) = bs"
  by (rule to_le_from_le) simp_all

lemma to_le_from_le_u32 [simp, codec_simps]:
  "length bs = 4 \<Longrightarrow> to_le 4 (from_le bs :: u32) = bs"
  by (rule to_le_from_le) simp_all

lemma to_le_from_le_u64 [simp, codec_simps]:
  "length bs = 8 \<Longrightarrow> to_le 8 (from_le bs :: u64) = bs"
  by (rule to_le_from_le) simp_all

lemma from_be_to_be_u64 [simp, codec_simps]: "from_be (to_be 8 w) = (w :: u64)"
  by (simp add: from_be_def to_be_def)

lemma from_be_to_be_u16 [simp, codec_simps]: "from_be (to_be 2 w) = (w :: u16)"
  by (simp add: from_be_def to_be_def)

lemma to_be_from_be_u64 [simp, codec_simps]:
  "length bs = 8 \<Longrightarrow> to_be 8 (from_be bs :: u64) = bs"
  by (simp add: from_be_def to_be_def)

lemma to_be_inject_u64: "to_be 8 (a :: u64) = to_be 8 b \<longleftrightarrow> a = b"
  by (metis from_be_to_be_u64)

text \<open>A field of \<open>n\<close> bytes at an offset of a buffer.\<close>

definition field :: "nat \<Rightarrow> nat \<Rightarrow> bytes \<Rightarrow> bytes" where
  "field off n buf = take n (drop off buf)"

lemma length_field [codec_simps]: "off + n \<le> length buf \<Longrightarrow> length (field off n buf) = n"
  by (simp add: field_def)

lemma field_append_skip [codec_simps]:
  "length xs \<le> off \<Longrightarrow> field off n (xs @ ys) = field (off - length xs) n ys"
  by (simp add: field_def)

lemma field_append_here [codec_simps]: "length xs = n \<Longrightarrow> field 0 n (xs @ ys) = xs"
  by (simp add: field_def)

lemma field_append_here_all [codec_simps]: "length xs = n \<Longrightarrow> field 0 n xs = xs"
  by (simp add: field_def)

lemma field_append_within: "off + n \<le> length xs \<Longrightarrow> field off n (xs @ ys) = field off n xs"
  by (simp add: field_def)

lemma field_drop: "field off n (drop m buf) = field (m + off) n buf"
  by (simp add: field_def add.commute)

lemma field_append_field: "field off n buf @ field (off + n) m buf = field off (n + m) buf"
  by (simp only: field_def take_add drop_drop add.commute [of off n])

section \<open>Signed 64-bit arithmetic\<close>

text \<open>
  The repository builds with and without \<open>--release\<close> (\<open>Makefile\<close>, targets \<open>build\<close> and
  \<open>release\<close>): overflow of \<open>i64\<close> arithmetic panics in a debug build and wraps in a release
  build.
\<close>

datatype profile = Debug | Release

definition in_i64 :: "int \<Rightarrow> bool" where
  "in_i64 z \<longleftrightarrow> - (2 ^ 63) \<le> z \<and> z < 2 ^ 63"

definition i64_result :: "profile \<Rightarrow> int \<Rightarrow> i64 res" where
  "i64_result p z = (if p = Debug \<and> \<not> in_i64 z then Panic else Ok (word_of_int z))"

definition i64_add :: "profile \<Rightarrow> i64 \<Rightarrow> i64 \<Rightarrow> i64 res" where
  "i64_add p a b = i64_result p (sint a + sint b)"

definition i64_sub :: "profile \<Rightarrow> i64 \<Rightarrow> i64 \<Rightarrow> i64 res" where
  "i64_sub p a b = i64_result p (sint a - sint b)"

definition i64_abs :: "profile \<Rightarrow> i64 \<Rightarrow> i64 res" where
  "i64_abs p a = i64_result p \<bar>sint a\<bar>"

lemma sint_word_of_int64:
  "in_i64 z \<Longrightarrow> sint (word_of_int z :: i64) = z"
  by (simp add: in_i64_def sint_sbintrunc' signed_take_bit_int_eq_self)

lemma sint_i64_bounds: "in_i64 (sint (a :: i64))"
  using sint_greater_eq [of a] sint_less [of a] by (simp add: in_i64_def)

lemma i64_result_exact: "in_i64 z \<Longrightarrow> i64_result p z = Ok (word_of_int z)"
  by (simp add: i64_result_def)

lemma i64_result_Release: "i64_result Release z = Ok (word_of_int z)"
  by (simp add: i64_result_def)

text \<open>The C integer conversion \<open>u32 as i64\<close>.\<close>

definition i64_of_u32 :: "u32 \<Rightarrow> i64" where
  "i64_of_u32 w = ucast w"

lemma sint_i64_of_u32: "sint (i64_of_u32 w) = uint w"
proof -
  have "uint w < 2 ^ 32"
    using uint_lt2p [of w] by simp
  moreover have "- (2 ^ 63) \<le> uint w"
    by (rule order.trans [OF _ uint_ge_0]) simp
  ultimately have "in_i64 (uint w)"
    by (simp add: in_i64_def)
  moreover have "i64_of_u32 w = word_of_int (uint w)"
    unfolding i64_of_u32_def by (rule ucast_eq)
  ultimately show ?thesis
    by (simp only: sint_word_of_int64)
qed

end
