(* ===== verification/Rust_Std.thy ===== *)
theory Rust_Std
  imports Bytes
begin

text \<open>
  The parts of the Rust standard library that the control tools use on text: bytes and
  UTF-8 (\<open>as_bytes\<close>, \<open>String::from_utf8_lossy\<close>), decimal and hexadecimal integers
  (\<open>str::parse\<close>, \<open>from_str_radix\<close>, \<open>Display\<close>, \<open>{:x}\<close>), white space (\<open>trim\<close>,
  \<open>split_whitespace\<close>), \<open>split\<close> on a character and the \<open>lines()\<close> iterator of a
  buffered reader.
\<close>

section \<open>Characters and bytes\<close>

definition byte_of_char :: "char \<Rightarrow> u8" where
  "byte_of_char c = of_nat (of_char c)"

definition char_of_byte :: "u8 \<Rightarrow> char" where
  "char_of_byte b = char_of (unat b)"

definition as_bytes :: "string \<Rightarrow> bytes" where
  "as_bytes s = map byte_of_char s"

lemma char_of_byte_of_char [simp, text_simps]: "char_of_byte (byte_of_char c) = c"
proof -
  have "unat (of_nat (of_char c) :: u8) = (of_char c :: nat)"
    by (simp add: unat_of_nat)
  then show ?thesis
    by (simp add: byte_of_char_def char_of_byte_def)
qed

lemma byte_of_char_of_byte [simp, text_simps]: "byte_of_char (char_of_byte b) = b"
proof -
  have "unat b < 256"
    using unsigned_less [of b, where 'a = nat] by simp
  then have "(of_char (char_of (unat b)) :: nat) = unat b"
    by simp
  then show ?thesis
    by (simp add: byte_of_char_def char_of_byte_def)
qed

lemma byte_of_char_inject [simp]: "byte_of_char c = byte_of_char d \<longleftrightarrow> c = d"
  by (metis char_of_byte_of_char)

lemma char_of_byte_inject [simp]: "char_of_byte b = char_of_byte d \<longleftrightarrow> b = d"
  by (metis byte_of_char_of_byte)

lemma length_as_bytes [simp, text_simps]: "length (as_bytes s) = length s"
  by (simp add: as_bytes_def)

lemma map_char_of_as_bytes [simp, text_simps]: "map char_of_byte (as_bytes s) = s"
  by (simp add: as_bytes_def comp_def)

lemma as_bytes_map_char_of [simp, text_simps]: "as_bytes (map char_of_byte bs) = bs"
  by (simp add: as_bytes_def comp_def)

lemma as_bytes_append [simp, text_simps]: "as_bytes (s @ t) = as_bytes s @ as_bytes t"
  by (simp add: as_bytes_def)

lemma as_bytes_Nil_iff [simp]: "as_bytes s = [] \<longleftrightarrow> s = []"
  by (simp add: as_bytes_def)

lemma as_bytes_inject: "as_bytes s = as_bytes t \<longleftrightarrow> s = t"
  by (metis map_char_of_as_bytes)

section \<open>UTF-8\<close>

definition is_cont :: "u8 \<Rightarrow> bool" where
  "is_cont b \<longleftrightarrow> 0x80 \<le> b \<and> b \<le> 0xBF"

text \<open>
  One step of the decoder: does a well-formed character start with the byte \<open>b\<close>, the bytes
  \<open>r\<close> following, and how many bytes does it (or the ill-formed prefix) take.
\<close>

definition utf8_step :: "u8 \<Rightarrow> bytes \<Rightarrow> bool \<times> nat" where
  "utf8_step b r =
     (let get = (\<lambda>i. if i < length r then r ! i else 0) in
      if b < 0x80 then (True, 1)
      else if 0xC2 \<le> b \<and> b \<le> 0xDF then (if is_cont (get 0) then (True, 2) else (False, 1))
      else if 0xE0 \<le> b \<and> b \<le> 0xEF then
        (let s = get 0 in
         if (b = 0xE0 \<and> 0xA0 \<le> s \<and> s \<le> 0xBF)
            \<or> (b \<noteq> 0xE0 \<and> b \<noteq> 0xED \<and> is_cont s)
            \<or> (b = 0xED \<and> 0x80 \<le> s \<and> s \<le> 0x9F)
         then (if is_cont (get 1) then (True, 3) else (False, 2))
         else (False, 1))
      else if 0xF0 \<le> b \<and> b \<le> 0xF4 then
        (let s = get 0 in
         if (b = 0xF0 \<and> 0x90 \<le> s \<and> s \<le> 0xBF)
            \<or> (b \<noteq> 0xF0 \<and> b \<noteq> 0xF4 \<and> is_cont s)
            \<or> (b = 0xF4 \<and> 0x80 \<le> s \<and> s \<le> 0x8F)
         then (if is_cont (get 1)
               then (if is_cont (get 2) then (True, 4) else (False, 3))
               else (False, 2))
         else (False, 1))
      else (False, 1))"

lemma utf8_step_pos: "0 < snd (utf8_step b r)"
  by (simp add: utf8_step_def Let_def)

definition replacement :: string where
  "replacement = map char_of_byte [0xEF, 0xBF, 0xBD]"

function from_utf8_lossy :: "bytes \<Rightarrow> string" where
  "from_utf8_lossy [] = []"
| "from_utf8_lossy (b # r) =
     (case utf8_step b r of (ok, n) \<Rightarrow>
        (if ok then map char_of_byte (b # take (n - 1) r) else replacement)
        @ from_utf8_lossy (drop (n - 1) r))"
  by pat_completeness auto
termination
  by (relation "measure length") auto

function utf8_valid :: "bytes \<Rightarrow> bool" where
  "utf8_valid [] = True"
| "utf8_valid (b # r) =
     (case utf8_step b r of (ok, n) \<Rightarrow> ok \<and> utf8_valid (drop (n - 1) r))"
  by pat_completeness auto
termination
  by (relation "measure length") auto

lemma from_utf8_lossy_valid [text_simps]:
  "utf8_valid bs \<Longrightarrow> from_utf8_lossy bs = map char_of_byte bs"
proof (induction bs rule: from_utf8_lossy.induct)
  case 1
  then show ?case by simp
next
  case (2 b r)
  obtain ok n where st: "utf8_step b r = (ok, n)"
    by (cases "utf8_step b r")
  with "2.prems" have "ok" and "utf8_valid (drop (n - 1) r)"
    by auto
  with st "2.IH" have "from_utf8_lossy (drop (n - 1) r) = map char_of_byte (drop (n - 1) r)"
    by auto
  with st \<open>ok\<close> show ?case
    by (simp flip: map_append)
qed

definition is_ascii :: "string \<Rightarrow> bool" where
  "is_ascii s \<longleftrightarrow> (\<forall>c \<in> set s. byte_of_char c < 0x80)"

lemma utf8_step_ascii: "b < 0x80 \<Longrightarrow> utf8_step b r = (True, 1)"
  by (simp add: utf8_step_def)

lemma utf8_valid_ascii: "(\<And>b. b \<in> set bs \<Longrightarrow> b < 0x80) \<Longrightarrow> utf8_valid bs"
  by (induction bs) (simp_all add: utf8_step_ascii)

lemma utf8_valid_as_bytes_ascii: "is_ascii s \<Longrightarrow> utf8_valid (as_bytes s)"
  by (rule utf8_valid_ascii) (auto simp: is_ascii_def as_bytes_def)

section \<open>White space, \<open>trim\<close> and splitting\<close>

text \<open>The characters of a string, each as the bytes of its encoding.\<close>

function utf8_chars :: "string \<Rightarrow> string list" where
  "utf8_chars [] = []"
| "utf8_chars (c # s) =
     (c # takeWhile (\<lambda>d. is_cont (byte_of_char d)) s)
     # utf8_chars (dropWhile (\<lambda>d. is_cont (byte_of_char d)) s)"
  by pat_completeness auto
termination
  by (relation "measure length") (auto simp: less_Suc_eq_le length_dropWhile_le)

text \<open>The 25 characters with Unicode property \<open>White_Space\<close>, encoded.\<close>

definition ws_chars :: "string list" where
  "ws_chars = map (map char_of_byte)
     [[9], [10], [11], [12], [13], [32], [0xC2, 0x85], [0xC2, 0xA0], [0xE1, 0x9A, 0x80],
      [0xE2, 0x80, 0x80], [0xE2, 0x80, 0x81], [0xE2, 0x80, 0x82], [0xE2, 0x80, 0x83],
      [0xE2, 0x80, 0x84], [0xE2, 0x80, 0x85], [0xE2, 0x80, 0x86], [0xE2, 0x80, 0x87],
      [0xE2, 0x80, 0x88], [0xE2, 0x80, 0x89], [0xE2, 0x80, 0x8A], [0xE2, 0x80, 0xA8],
      [0xE2, 0x80, 0xA9], [0xE2, 0x80, 0xAF], [0xE2, 0x81, 0x9F], [0xE3, 0x80, 0x80]]"

definition is_ws :: "string \<Rightarrow> bool" where
  "is_ws g \<longleftrightarrow> g \<in> set ws_chars"

definition str_trim :: "string \<Rightarrow> string" where
  "str_trim s = concat (rev (dropWhile is_ws (rev (dropWhile is_ws (utf8_chars s)))))"

function split_ws :: "string list \<Rightarrow> string list" where
  "split_ws gs =
     (case dropWhile is_ws gs of
        [] \<Rightarrow> []
      | g # gs' \<Rightarrow>
          concat (g # takeWhile (\<lambda>h. \<not> is_ws h) gs') # split_ws (dropWhile (\<lambda>h. \<not> is_ws h) gs'))"
  by pat_completeness auto
termination
proof (relation "measure length", simp)
  fix gs g gs'
  assume "dropWhile is_ws gs = g # gs'"
  then have "length (g # gs') \<le> length gs"
    by (metis length_dropWhile_le)
  then show "(dropWhile (\<lambda>h. \<not> is_ws h) gs', gs) \<in> measure length"
    by (simp add: order.strict_trans1 [OF length_dropWhile_le])
qed

declare split_ws.simps [simp del]

definition split_whitespace :: "string \<Rightarrow> string list" where
  "split_whitespace s = split_ws (utf8_chars s)"

text \<open>\<open>str::split\<close> with an ASCII character: the separator never occurs inside a character.\<close>

function str_split :: "char \<Rightarrow> string \<Rightarrow> string list" where
  "str_split c s =
     takeWhile (\<lambda>d. d \<noteq> c) s
     # (case dropWhile (\<lambda>d. d \<noteq> c) s of [] \<Rightarrow> [] | _ # r \<Rightarrow> str_split c r)"
  by pat_completeness auto
termination
proof (relation "measure (\<lambda>(c, s). length s)", simp)
  fix c s d and r :: string
  assume "dropWhile (\<lambda>d. d \<noteq> c) s = d # r"
  then have "length (d # r) \<le> length s"
    by (metis length_dropWhile_le)
  then show "((c, r), c, s) \<in> measure (\<lambda>(c, s). length s)"
    by simp
qed

declare str_split.simps [simp del]

lemma concat_utf8_chars [simp, text_simps]: "concat (utf8_chars s) = s"
  by (induction s rule: utf8_chars.induct) simp_all

lemma not_is_cont_ascii: "b < 0x80 \<Longrightarrow> \<not> is_cont b"
  by (simp add: is_cont_def not_le)

lemma utf8_chars_ascii [text_simps]: "is_ascii s \<Longrightarrow> utf8_chars s = map (\<lambda>c. [c]) s"
proof (induction s)
  case Nil
  then show ?case by simp
next
  case (Cons c s)
  then have s: "is_ascii s" and c: "\<And>d. d \<in> set s \<Longrightarrow> \<not> is_cont (byte_of_char d)"
    by (auto simp: is_ascii_def not_is_cont_ascii)
  have "takeWhile (\<lambda>d. is_cont (byte_of_char d)) s = []"
    and "dropWhile (\<lambda>d. is_cont (byte_of_char d)) s = s"
    using c by (cases s; simp)+
  with Cons.IH [OF s] show ?case by simp
qed

lemma str_split_no_sep: "c \<notin> set s \<Longrightarrow> str_split c s = [s]"
proof -
  assume "c \<notin> set s"
  then have tw: "takeWhile (\<lambda>d. d \<noteq> c) s = s" and dw: "dropWhile (\<lambda>d. d \<noteq> c) s = []"
    by (auto simp: takeWhile_eq_all_conv dropWhile_eq_Nil_conv)
  show ?thesis
    by (simp only: str_split.simps [of c s] tw dw list.case)
qed

lemma str_split_sep:
  "c \<notin> set s \<Longrightarrow> str_split c (s @ c # t) = s # str_split c t"
proof -
  assume "c \<notin> set s"
  then have "takeWhile (\<lambda>d. d \<noteq> c) (s @ c # t) = s"
    and "dropWhile (\<lambda>d. d \<noteq> c) (s @ c # t) = c # t"
    by (auto simp: takeWhile_append dropWhile_append)
  then show ?thesis
    by (simp add: str_split.simps [of c "s @ c # t"])
qed

section \<open>The \<open>lines()\<close> iterator\<close>

text \<open>
  The bytes of a reader up to and without the next newline, a carriage return before the
  newline stripped too. A last line without newline is yielded when it is not empty.
\<close>

function raw_lines :: "bytes \<Rightarrow> bytes list" where
  "raw_lines bs =
     (if bs = [] then []
      else (let l = takeWhile (\<lambda>b. b \<noteq> 10) bs in
            case dropWhile (\<lambda>b. b \<noteq> 10) bs of
              [] \<Rightarrow> [l]
            | _ # r \<Rightarrow> (if l \<noteq> [] \<and> last l = 13 then butlast l else l) # raw_lines r))"
  by pat_completeness auto
termination
proof (relation "measure length", simp)
  fix bs :: bytes and x d r
  assume "dropWhile (\<lambda>b. b \<noteq> 10) bs = d # r"
  then have "length (d # r) \<le> length bs"
    by (metis length_dropWhile_le)
  then show "(r, bs) \<in> measure length"
    by simp
qed

declare raw_lines.simps [simp del]

definition reader_lines :: "bytes \<Rightarrow> string res list" where
  "reader_lines bs =
     map (\<lambda>l. if utf8_valid l then Ok (map char_of_byte l)
              else Err (Ext ''stream did not contain valid UTF-8'')) (raw_lines bs)"

section \<open>Integers as text\<close>

datatype int_error = IntEmpty | InvalidDigit | PosOverflow

fun int_error_display :: "int_error \<Rightarrow> string" where
  "int_error_display IntEmpty = ''cannot parse integer from empty string''"
| "int_error_display InvalidDigit = ''invalid digit found in string''"
| "int_error_display PosOverflow = ''number too large to fit in target type''"

text \<open>The value of a digit of a radix up to 16 (\<open>char::to_digit\<close>).\<close>

definition digit_val :: "char \<Rightarrow> nat option" where
  "digit_val c =
     (let n = (of_char c :: nat) in
      if 48 \<le> n \<and> n \<le> 57 then Some (n - 48)
      else if 97 \<le> n \<and> n \<le> 102 then Some (n - 87)
      else if 65 \<le> n \<and> n \<le> 70 then Some (n - 55)
      else None)"

definition to_digit :: "nat \<Rightarrow> char \<Rightarrow> nat option" where
  "to_digit radix c =
     (case digit_val c of None \<Rightarrow> None | Some d \<Rightarrow> if d < radix then Some d else None)"

text \<open>
  The digit loop of \<open>from_str_radix\<close> for an unsigned type with greatest value \<open>mx\<close>: the
  digit is read first, then the multiplication and the addition are checked.
\<close>

fun parse_digits :: "nat \<Rightarrow> nat \<Rightarrow> nat \<Rightarrow> string \<Rightarrow> int_error + nat" where
  "parse_digits radix mx acc [] = Inr acc"
| "parse_digits radix mx acc (c # cs) =
     (case to_digit radix c of
        None \<Rightarrow> Inl InvalidDigit
      | Some d \<Rightarrow>
          if acc * radix > mx \<or> acc * radix + d > mx then Inl PosOverflow
          else parse_digits radix mx (acc * radix + d) cs)"

definition from_str_radix :: "nat \<Rightarrow> nat \<Rightarrow> string \<Rightarrow> int_error + nat" where
  "from_str_radix radix mx s =
     (case s of
        [] \<Rightarrow> Inl IntEmpty
      | c # cs \<Rightarrow>
          if (c = CHR ''+'' \<or> c = CHR ''-'') \<and> cs = [] then Inl InvalidDigit
          else if c = CHR ''+'' then parse_digits radix mx 0 cs
          else parse_digits radix mx 0 s)"

definition parse_u8 :: "string \<Rightarrow> int_error + u8" where
  "parse_u8 s = map_sum id of_nat (from_str_radix 10 255 s)"

definition parse_u16 :: "string \<Rightarrow> int_error + u16" where
  "parse_u16 s = map_sum id of_nat (from_str_radix 10 65535 s)"

definition parse_u32 :: "string \<Rightarrow> int_error + u32" where
  "parse_u32 s = map_sum id of_nat (from_str_radix 10 4294967295 s)"

definition digit_char :: "nat \<Rightarrow> char" where
  "digit_char d = char_of (if d < 10 then 48 + d else 87 + d)"

function show_radix :: "nat \<Rightarrow> nat \<Rightarrow> string" where
  "show_radix radix n =
     (if n < radix \<or> radix < 2 then [digit_char n]
      else show_radix radix (n div radix) @ [digit_char (n mod radix)])"
  by pat_completeness auto
termination
  by (relation "measure snd") auto

declare show_radix.simps [simp del]

text \<open>\<open>Display\<close> and \<open>{:x}\<close> of an unsigned integer.\<close>

definition show_nat :: "nat \<Rightarrow> string" where
  "show_nat n = show_radix 10 n"

definition show_hex :: "nat \<Rightarrow> string" where
  "show_hex n = show_radix 16 n"

definition show_word :: "'a::len word \<Rightarrow> string" where
  "show_word w = show_nat (unat w)"

lemma digit_val_digit_char: "d < 16 \<Longrightarrow> digit_val (digit_char d) = Some d"
  by (simp add: digit_val_def digit_char_def Let_def)

lemma to_digit_digit_char [simp]:
  "d < radix \<Longrightarrow> radix \<le> 16 \<Longrightarrow> to_digit radix (digit_char d) = Some d"
  by (simp add: to_digit_def digit_val_digit_char)

lemma digit_val_sign [simp]: "digit_val (CHR ''+'') = None" "digit_val (CHR ''-'') = None"
  by (simp_all add: digit_val_def)

lemma parse_digits_append:
  "parse_digits radix mx acc (xs @ ys) =
     (case parse_digits radix mx acc xs of
        Inl e \<Rightarrow> Inl e | Inr a \<Rightarrow> parse_digits radix mx a ys)"
  by (induction xs arbitrary: acc) (simp_all split: option.split)

lemma parse_digits_show_radix:
  assumes "2 \<le> radix" "radix \<le> 16" "n \<le> mx"
  shows "parse_digits radix mx 0 (show_radix radix n) = Inr n"
  using assms(3)
proof (induction n rule: less_induct)
  case (less n)
  show ?case
  proof (cases "n < radix")
    case True
    with assms less.prems show ?thesis
      by (simp add: show_radix.simps [of radix n])
  next
    case False
    with assms have "n div radix < n" by simp
    moreover have "n div radix \<le> mx"
      using less.prems by (meson div_le_dividend le_trans)
    ultimately have IH: "parse_digits radix mx 0 (show_radix radix (n div radix)) = Inr (n div radix)"
      by (rule less.IH)
    have "n div radix * radix + n mod radix \<le> mx"
      using less.prems by simp
    moreover from this have "n div radix * radix \<le> mx" by linarith
    moreover have "n mod radix < radix"
      using assms by simp
    ultimately show ?thesis
      using False assms IH by (simp add: show_radix.simps [of radix n] parse_digits_append not_less)
  qed
qed

lemma set_show_radix:
  assumes "2 \<le> radix"
  shows "set (show_radix radix n) \<subseteq> digit_char ` {..<radix} \<and> show_radix radix n \<noteq> []"
proof (induction n rule: less_induct)
  case (less n)
  show ?case
  proof (cases "n < radix")
    case True
    with assms show ?thesis
      by (simp add: show_radix.simps [of radix n])
  next
    case False
    with assms have "n div radix < n" by simp
    from less.IH [OF this] False assms show ?thesis
      by (auto simp: show_radix.simps [of radix n])
  qed
qed

lemma from_str_radix_show_radix:
  assumes "2 \<le> radix" "radix \<le> 16" "n \<le> mx"
  shows "from_str_radix radix mx (show_radix radix n) = Inr n"
proof (cases "show_radix radix n")
  case Nil
  with set_show_radix [OF assms(1)] show ?thesis by blast
next
  case (Cons c cs)
  have "c \<in> digit_char ` {..<radix}"
    using set_show_radix [OF assms(1), of n] Cons by auto
  then obtain d where "d < radix" "c = digit_char d" by auto
  with assms(2) have "digit_val c = Some d"
    by (simp add: digit_val_digit_char)
  then have "c \<noteq> CHR ''+''" "c \<noteq> CHR ''-''" by auto
  with Cons parse_digits_show_radix [OF assms] show ?thesis
    by (simp add: from_str_radix_def)
qed

lemma parse_u8_show [simp, text_simps]: "parse_u8 (show_word (w :: u8)) = Inr w"
  using unsigned_less [of w, where 'a = nat]
  by (simp add: parse_u8_def show_word_def show_nat_def from_str_radix_show_radix)

lemma parse_u16_show [simp, text_simps]: "parse_u16 (show_word (w :: u16)) = Inr w"
  using unsigned_less [of w, where 'a = nat]
  by (simp add: parse_u16_def show_word_def show_nat_def from_str_radix_show_radix)

lemma parse_u32_show [simp, text_simps]: "parse_u32 (show_word (w :: u32)) = Inr w"
  using unsigned_less [of w, where 'a = nat]
  by (simp add: parse_u32_def show_word_def show_nat_def from_str_radix_show_radix)

text \<open>Every number that parses is within its type: the overflow checks work.\<close>

lemma parse_digits_bound:
  "parse_digits radix mx acc s = Inr n \<Longrightarrow> acc \<le> mx \<Longrightarrow> n \<le> mx"
  by (induction s arbitrary: acc) (auto split: option.splits if_splits)

lemma from_str_radix_bound: "from_str_radix radix mx s = Inr n \<Longrightarrow> n \<le> mx"
  by (auto simp: from_str_radix_def simp del: parse_digits.simps dest: parse_digits_bound split: list.splits if_splits)

section \<open>Pieces of format strings\<close>

text \<open>A text in single quotes, and a newline.\<close>

definition quoted :: "string \<Rightarrow> string" where
  "quoted s = CHR 0x27 # s @ [CHR 0x27]"

abbreviation nl :: string where
  "nl \<equiv> [CHR 0x0A]"

section \<open>Errors as text\<close>

text \<open>
  \<open>{}\<close> of an error: the outermost text. An error number of the operating system only occurs
  inside a context, so its own text is never shown.
\<close>

fun error_display :: "error \<Rightarrow> string" where
  "error_display (Msg s) = s"
| "error_display (Ext s) = s"
| "error_display (Ctx s _) = s"
| "error_display (OsErrno n) = ''os error '' @ show_nat (unat n)"

end
