(* ===== verification/Config.thy ===== *)
theory Config
  imports Rust_Std
begin

text \<open>
  \<open>ktuctl-rs/src/config.rs\<close>: the numbers of the generic netlink protocol and the
  \<open>repr(C)\<close> structs exchanged with the kernel module, as records with their byte layout.
  A fixed array \<open>[u8; N]\<close> is a byte list whose length is part of the struct's \<open>valid_\<close>
  predicate. The locale \<open>wire_struct\<close> is the contract of \<open>IntoBytes\<close> and \<open>FromBytes\<close> that
  the netlink functions rely on; every struct interprets it.
\<close>

section \<open>Constants\<close>

definition PROJECT_NAME :: string where "PROJECT_NAME = ''ktuctl-rs''"
definition TUTU_GENL_FAMILY_NAME :: string where "TUTU_GENL_FAMILY_NAME = ''tutuicmptunnel''"
definition TUTU_GENL_VERSION :: u8 where [simp]: "TUTU_GENL_VERSION = 0x1"
definition UID_CONFIG_PATH :: string where "UID_CONFIG_PATH = ''/etc/tutuicmptunnel/uids''"

definition TUTU_ATTR_CONFIG :: u16 where [simp]: "TUTU_ATTR_CONFIG = 1"
definition TUTU_ATTR_STATS :: u16 where [simp]: "TUTU_ATTR_STATS = 2"
definition TUTU_ATTR_EGRESS :: u16 where [simp]: "TUTU_ATTR_EGRESS = 3"
definition TUTU_ATTR_INGRESS :: u16 where [simp]: "TUTU_ATTR_INGRESS = 4"
definition TUTU_ATTR_SESSION :: u16 where [simp]: "TUTU_ATTR_SESSION = 5"
definition TUTU_ATTR_USER_INFO :: u16 where [simp]: "TUTU_ATTR_USER_INFO = 6"
definition TUTU_ATTR_IFNAME_NAME :: u16 where [simp]: "TUTU_ATTR_IFNAME_NAME = 7"

definition TUTU_CMD_GET_CONFIG :: u8 where [simp]: "TUTU_CMD_GET_CONFIG = 1"
definition TUTU_CMD_SET_CONFIG :: u8 where [simp]: "TUTU_CMD_SET_CONFIG = 2"
definition TUTU_CMD_GET_STATS :: u8 where [simp]: "TUTU_CMD_GET_STATS = 3"
definition TUTU_CMD_GET_EGRESS :: u8 where [simp]: "TUTU_CMD_GET_EGRESS = 5"
definition TUTU_CMD_DELETE_EGRESS :: u8 where [simp]: "TUTU_CMD_DELETE_EGRESS = 6"
definition TUTU_CMD_UPDATE_EGRESS :: u8 where [simp]: "TUTU_CMD_UPDATE_EGRESS = 7"
definition TUTU_CMD_GET_INGRESS :: u8 where [simp]: "TUTU_CMD_GET_INGRESS = 8"
definition TUTU_CMD_DELETE_INGRESS :: u8 where [simp]: "TUTU_CMD_DELETE_INGRESS = 9"
definition TUTU_CMD_UPDATE_INGRESS :: u8 where [simp]: "TUTU_CMD_UPDATE_INGRESS = 10"
definition TUTU_CMD_GET_SESSION :: u8 where [simp]: "TUTU_CMD_GET_SESSION = 11"
definition TUTU_CMD_GET_USER_INFO :: u8 where [simp]: "TUTU_CMD_GET_USER_INFO = 14"
definition TUTU_CMD_DELETE_USER_INFO :: u8 where [simp]: "TUTU_CMD_DELETE_USER_INFO = 15"
definition TUTU_CMD_UPDATE_USER_INFO :: u8 where [simp]: "TUTU_CMD_UPDATE_USER_INFO = 16"
definition TUTU_CMD_IFNAME_GET :: u8 where [simp]: "TUTU_CMD_IFNAME_GET = 17"
definition TUTU_CMD_IFNAME_ADD :: u8 where [simp]: "TUTU_CMD_IFNAME_ADD = 18"
definition TUTU_CMD_IFNAME_DEL :: u8 where [simp]: "TUTU_CMD_IFNAME_DEL = 19"

definition TUTU_ANY :: u64 where [simp]: "TUTU_ANY = 0"
definition TUTU_NOEXIST :: u64 where [simp]: "TUTU_NOEXIST = 1"
definition TUTU_EXIST :: u64 where [simp]: "TUTU_EXIST = 2"
definition TUTU_F_LOCK :: u64 where [simp]: "TUTU_F_LOCK = 4"

definition TUTU_XOR_KEY_MAX :: nat where [simp]: "TUTU_XOR_KEY_MAX = 64"

definition NLMSG_ALIGNTO :: nat where [simp]: "NLMSG_ALIGNTO = 4"
definition NLA_ALIGNTO :: nat where [simp]: "NLA_ALIGNTO = 4"
definition GENL_ID_CTRL :: u16 where [simp]: "GENL_ID_CTRL = 0x10"
definition CTRL_CMD_GETFAMILY :: u8 where [simp]: "CTRL_CMD_GETFAMILY = 3"
definition CTRL_ATTR_FAMILY_ID :: u16 where [simp]: "CTRL_ATTR_FAMILY_ID = 1"
definition CTRL_ATTR_FAMILY_NAME :: u16 where [simp]: "CTRL_ATTR_FAMILY_NAME = 2"

definition NLM_F_REQUEST :: u16 where [simp]: "NLM_F_REQUEST = 0x0001"
definition NLM_F_ACK :: u16 where [simp]: "NLM_F_ACK = 0x0004"
definition NLM_F_DUMP :: u16 where [simp]: "NLM_F_DUMP = 0x0300"

definition NLMSG_ERROR :: u16 where [simp]: "NLMSG_ERROR = 0x2"
definition NLMSG_DONE :: u16 where [simp]: "NLMSG_DONE = 0x3"

section \<open>Protocol structs\<close>

datatype In6Addr = In6Addr (octets: bytes)

record TutuConfig =
  session_max_age :: u32
  cfg_reserved0 :: u8
  is_server :: u8
  cfg_reserved1 :: bytes

record TutuStats =
  packets_processed :: u64
  packets_dropped :: u64
  checksum_errors :: u64
  fragmented :: u64
  gso :: u64

record UserInfoValue =
  ui_address :: In6Addr
  icmp_id :: u16
  ui_dport :: u16
  ui_comment :: bytes
  ui_xor_key :: bytes
  ui_xor_key_len :: u8
  ui_reserved2 :: bytes
  ui_pad1 :: bytes

record TutuUserInfo =
  tui_uid :: u8
  tui_pad0 :: bytes
  tui_value :: UserInfoValue
  tui_map_flags :: u64

record EgressPeerKey =
  ek_address :: In6Addr
  ek_port :: u16
  ek_pad0 :: bytes

record EgressPeerValue =
  ev_xor_key :: bytes
  ev_comment :: bytes
  ev_xor_key_len :: u8
  ev_uid :: u8

record TutuEgress =
  e_key :: EgressPeerKey
  e_value :: EgressPeerValue
  e_pad0 :: bytes
  e_map_flags :: u64

record IngressPeerKey =
  ik_address :: In6Addr
  ik_uid :: u8
  ik_pad0 :: bytes

record IngressPeerValue =
  iv_xor_key :: bytes
  iv_xor_key_len :: u8
  iv_reserved0 :: u8
  iv_port :: u16
  iv_reserved1 :: bytes

record TutuIngress =
  i_key :: IngressPeerKey
  i_value :: IngressPeerValue
  i_pad0 :: bytes
  i_map_flags :: u64

record SessionKey =
  sk_address :: In6Addr
  sk_sport :: u16
  sk_dport :: u16

record SessionValue =
  sv_age :: u64
  sv_uid :: u8
  sv_pad0 :: u8
  sv_client_sport :: u16
  sv_pad1 :: bytes

record TutuSession =
  s_key :: SessionKey
  s_pad0 :: bytes
  s_value :: SessionValue
  s_map_flags :: u64

subsection \<open>The arrays have their declared lengths\<close>

definition valid_In6Addr :: "In6Addr \<Rightarrow> bool" where
  "valid_In6Addr a \<longleftrightarrow> length (octets a) = 16"

definition valid_TutuConfig :: "TutuConfig \<Rightarrow> bool" where
  "valid_TutuConfig c \<longleftrightarrow> length (cfg_reserved1 c) = 2"

definition valid_TutuStats :: "TutuStats \<Rightarrow> bool" where
  "valid_TutuStats s \<longleftrightarrow> True"

definition valid_UserInfoValue :: "UserInfoValue \<Rightarrow> bool" where
  "valid_UserInfoValue v \<longleftrightarrow>
     valid_In6Addr (ui_address v) \<and> length (ui_comment v) = 22 \<and>
     length (ui_xor_key v) = TUTU_XOR_KEY_MAX \<and> length (ui_reserved2 v) = 7 \<and>
     length (ui_pad1 v) = 2"

definition valid_TutuUserInfo :: "TutuUserInfo \<Rightarrow> bool" where
  "valid_TutuUserInfo u \<longleftrightarrow> length (tui_pad0 u) = 3 \<and> valid_UserInfoValue (tui_value u)"

definition valid_EgressPeerKey :: "EgressPeerKey \<Rightarrow> bool" where
  "valid_EgressPeerKey k \<longleftrightarrow> valid_In6Addr (ek_address k) \<and> length (ek_pad0 k) = 2"

definition valid_EgressPeerValue :: "EgressPeerValue \<Rightarrow> bool" where
  "valid_EgressPeerValue v \<longleftrightarrow>
     length (ev_xor_key v) = TUTU_XOR_KEY_MAX \<and> length (ev_comment v) = 22"

definition valid_TutuEgress :: "TutuEgress \<Rightarrow> bool" where
  "valid_TutuEgress e \<longleftrightarrow>
     valid_EgressPeerKey (e_key e) \<and> valid_EgressPeerValue (e_value e) \<and> length (e_pad0 e) = 4"

definition valid_IngressPeerKey :: "IngressPeerKey \<Rightarrow> bool" where
  "valid_IngressPeerKey k \<longleftrightarrow> valid_In6Addr (ik_address k) \<and> length (ik_pad0 k) = 3"

definition valid_IngressPeerValue :: "IngressPeerValue \<Rightarrow> bool" where
  "valid_IngressPeerValue v \<longleftrightarrow>
     length (iv_xor_key v) = TUTU_XOR_KEY_MAX \<and> length (iv_reserved1 v) = 4"

definition valid_TutuIngress :: "TutuIngress \<Rightarrow> bool" where
  "valid_TutuIngress i \<longleftrightarrow>
     valid_IngressPeerKey (i_key i) \<and> valid_IngressPeerValue (i_value i) \<and> length (i_pad0 i) = 4"

definition valid_SessionKey :: "SessionKey \<Rightarrow> bool" where
  "valid_SessionKey k \<longleftrightarrow> valid_In6Addr (sk_address k)"

definition valid_SessionValue :: "SessionValue \<Rightarrow> bool" where
  "valid_SessionValue v \<longleftrightarrow> length (sv_pad1 v) = 4"

definition valid_TutuSession :: "TutuSession \<Rightarrow> bool" where
  "valid_TutuSession s \<longleftrightarrow>
     valid_SessionKey (s_key s) \<and> length (s_pad0 s) = 4 \<and> valid_SessionValue (s_value s)"

lemmas valid_defs =
  valid_In6Addr_def valid_TutuConfig_def valid_TutuStats_def valid_UserInfoValue_def
  valid_TutuUserInfo_def valid_EgressPeerKey_def valid_EgressPeerValue_def valid_TutuEgress_def
  valid_IngressPeerKey_def valid_IngressPeerValue_def valid_TutuIngress_def
  valid_SessionKey_def valid_SessionValue_def valid_TutuSession_def

end
