(* ===== verification/Layout.thy ===== *)
theory Layout
  imports Config
begin

text \<open>
  The bytes of the protocol structs. \<open>enc_T\<close> is \<open>as_bytes\<close> of the derived \<open>IntoBytes\<close>,
  \<open>dec_T\<close> the unaligned read of \<open>FromBytes\<close> (\<open>read_from_prefix\<close> after its length check),
  \<open>layout_T\<close> the size and alignment of each field in declaration order. The C layout
  rule of \<open>repr(C)\<close> is \<open>c_offsets\<close> and \<open>c_size\<close>; that it leaves no padding is proved for
  every struct, so the concatenation of the fields is the struct's memory.
\<close>

section \<open>The C layout rule\<close>

definition align_up :: "nat \<Rightarrow> nat \<Rightarrow> nat" where
  "align_up off a = (off + a - 1) div a * a"

text \<open>Each field goes to the next multiple of its alignment.\<close>

fun c_offsets :: "nat \<Rightarrow> (nat \<times> nat) list \<Rightarrow> nat list" where
  "c_offsets off [] = []"
| "c_offsets off ((sz, al) # fs) = align_up off al # c_offsets (align_up off al + sz) fs"

fun c_end :: "nat \<Rightarrow> (nat \<times> nat) list \<Rightarrow> nat" where
  "c_end off [] = off"
| "c_end off ((sz, al) # fs) = c_end (align_up off al + sz) fs"

definition c_align :: "(nat \<times> nat) list \<Rightarrow> nat" where
  "c_align fs = foldr (\<lambda>(sz, al) m. max al m) fs 1"

definition c_size :: "(nat \<times> nat) list \<Rightarrow> nat" where
  "c_size fs = align_up (c_end 0 fs) (c_align fs)"

text \<open>A struct as a field of another.\<close>

definition c_field :: "(nat \<times> nat) list \<Rightarrow> nat \<times> nat" where
  "c_field fs = (c_size fs, c_align fs)"

text \<open>Fields one after the other, nothing between them.\<close>

fun packed_offsets :: "nat \<Rightarrow> (nat \<times> nat) list \<Rightarrow> nat list" where
  "packed_offsets off [] = []"
| "packed_offsets off ((sz, al) # fs) = off # packed_offsets (off + sz) fs"

definition no_padding :: "(nat \<times> nat) list \<Rightarrow> bool" where
  "no_padding fs \<longleftrightarrow>
     c_offsets 0 fs = packed_offsets 0 fs \<and> c_size fs = sum_list (map fst fs)"

section \<open>The struct codecs\<close>

definition enc_In6Addr :: "In6Addr \<Rightarrow> bytes" where
  "enc_In6Addr a = octets a"

definition dec_In6Addr :: "bytes \<Rightarrow> In6Addr" where
  "dec_In6Addr buf = In6Addr (field 0 16 buf)"

definition enc_TutuConfig :: "TutuConfig \<Rightarrow> bytes" where
  "enc_TutuConfig x =
     to_le 4 (session_max_age x) @
     [cfg_reserved0 x] @
     [is_server x] @
     cfg_reserved1 x"

definition dec_TutuConfig :: "bytes \<Rightarrow> TutuConfig" where
  "dec_TutuConfig buf =
     \<lparr>session_max_age = from_le (field 0 4 buf),
      cfg_reserved0 = from_le (field 4 1 buf),
      is_server = from_le (field 5 1 buf),
      cfg_reserved1 = field 6 2 buf\<rparr>"

definition layout_TutuConfig :: "(nat \<times> nat) list" where
  "layout_TutuConfig = [(4, 4), (1, 1), (1, 1), (2, 1)]"

definition enc_TutuStats :: "TutuStats \<Rightarrow> bytes" where
  "enc_TutuStats x =
     to_le 8 (packets_processed x) @
     to_le 8 (packets_dropped x) @
     to_le 8 (checksum_errors x) @
     to_le 8 (fragmented x) @
     to_le 8 (gso x)"

definition dec_TutuStats :: "bytes \<Rightarrow> TutuStats" where
  "dec_TutuStats buf =
     \<lparr>packets_processed = from_le (field 0 8 buf),
      packets_dropped = from_le (field 8 8 buf),
      checksum_errors = from_le (field 16 8 buf),
      fragmented = from_le (field 24 8 buf),
      gso = from_le (field 32 8 buf)\<rparr>"

definition layout_TutuStats :: "(nat \<times> nat) list" where
  "layout_TutuStats = [(8, 8), (8, 8), (8, 8), (8, 8), (8, 8)]"

definition enc_UserInfoValue :: "UserInfoValue \<Rightarrow> bytes" where
  "enc_UserInfoValue x =
     enc_In6Addr (ui_address x) @
     to_le 2 (icmp_id x) @
     to_le 2 (ui_dport x) @
     ui_comment x @
     ui_xor_key x @
     [ui_xor_key_len x] @
     ui_reserved2 x @
     ui_pad1 x"

definition dec_UserInfoValue :: "bytes \<Rightarrow> UserInfoValue" where
  "dec_UserInfoValue buf =
     \<lparr>ui_address = dec_In6Addr (field 0 16 buf),
      icmp_id = from_le (field 16 2 buf),
      ui_dport = from_le (field 18 2 buf),
      ui_comment = field 20 22 buf,
      ui_xor_key = field 42 64 buf,
      ui_xor_key_len = from_le (field 106 1 buf),
      ui_reserved2 = field 107 7 buf,
      ui_pad1 = field 114 2 buf\<rparr>"

definition layout_UserInfoValue :: "(nat \<times> nat) list" where
  "layout_UserInfoValue = [(16, 4), (2, 2), (2, 2), (22, 1), (64, 1), (1, 1), (7, 1), (2, 1)]"

definition enc_TutuUserInfo :: "TutuUserInfo \<Rightarrow> bytes" where
  "enc_TutuUserInfo x =
     [tui_uid x] @
     tui_pad0 x @
     enc_UserInfoValue (tui_value x) @
     to_le 8 (tui_map_flags x)"

definition dec_TutuUserInfo :: "bytes \<Rightarrow> TutuUserInfo" where
  "dec_TutuUserInfo buf =
     \<lparr>tui_uid = from_le (field 0 1 buf),
      tui_pad0 = field 1 3 buf,
      tui_value = dec_UserInfoValue (field 4 116 buf),
      tui_map_flags = from_le (field 120 8 buf)\<rparr>"

definition layout_TutuUserInfo :: "(nat \<times> nat) list" where
  "layout_TutuUserInfo = [(1, 1), (3, 1), c_field layout_UserInfoValue, (8, 8)]"

definition enc_EgressPeerKey :: "EgressPeerKey \<Rightarrow> bytes" where
  "enc_EgressPeerKey x =
     enc_In6Addr (ek_address x) @
     to_le 2 (ek_port x) @
     ek_pad0 x"

definition dec_EgressPeerKey :: "bytes \<Rightarrow> EgressPeerKey" where
  "dec_EgressPeerKey buf =
     \<lparr>ek_address = dec_In6Addr (field 0 16 buf),
      ek_port = from_le (field 16 2 buf),
      ek_pad0 = field 18 2 buf\<rparr>"

definition layout_EgressPeerKey :: "(nat \<times> nat) list" where
  "layout_EgressPeerKey = [(16, 4), (2, 2), (2, 1)]"

definition enc_EgressPeerValue :: "EgressPeerValue \<Rightarrow> bytes" where
  "enc_EgressPeerValue x =
     ev_xor_key x @
     ev_comment x @
     [ev_xor_key_len x] @
     [ev_uid x]"

definition dec_EgressPeerValue :: "bytes \<Rightarrow> EgressPeerValue" where
  "dec_EgressPeerValue buf =
     \<lparr>ev_xor_key = field 0 64 buf,
      ev_comment = field 64 22 buf,
      ev_xor_key_len = from_le (field 86 1 buf),
      ev_uid = from_le (field 87 1 buf)\<rparr>"

definition layout_EgressPeerValue :: "(nat \<times> nat) list" where
  "layout_EgressPeerValue = [(64, 1), (22, 1), (1, 1), (1, 1)]"

definition enc_TutuEgress :: "TutuEgress \<Rightarrow> bytes" where
  "enc_TutuEgress x =
     enc_EgressPeerKey (e_key x) @
     enc_EgressPeerValue (e_value x) @
     e_pad0 x @
     to_le 8 (e_map_flags x)"

definition dec_TutuEgress :: "bytes \<Rightarrow> TutuEgress" where
  "dec_TutuEgress buf =
     \<lparr>e_key = dec_EgressPeerKey (field 0 20 buf),
      e_value = dec_EgressPeerValue (field 20 88 buf),
      e_pad0 = field 108 4 buf,
      e_map_flags = from_le (field 112 8 buf)\<rparr>"

definition layout_TutuEgress :: "(nat \<times> nat) list" where
  "layout_TutuEgress = [c_field layout_EgressPeerKey, c_field layout_EgressPeerValue, (4, 1), (8, 8)]"

definition enc_IngressPeerKey :: "IngressPeerKey \<Rightarrow> bytes" where
  "enc_IngressPeerKey x =
     enc_In6Addr (ik_address x) @
     [ik_uid x] @
     ik_pad0 x"

definition dec_IngressPeerKey :: "bytes \<Rightarrow> IngressPeerKey" where
  "dec_IngressPeerKey buf =
     \<lparr>ik_address = dec_In6Addr (field 0 16 buf),
      ik_uid = from_le (field 16 1 buf),
      ik_pad0 = field 17 3 buf\<rparr>"

definition layout_IngressPeerKey :: "(nat \<times> nat) list" where
  "layout_IngressPeerKey = [(16, 4), (1, 1), (3, 1)]"

definition enc_IngressPeerValue :: "IngressPeerValue \<Rightarrow> bytes" where
  "enc_IngressPeerValue x =
     iv_xor_key x @
     [iv_xor_key_len x] @
     [iv_reserved0 x] @
     to_le 2 (iv_port x) @
     iv_reserved1 x"

definition dec_IngressPeerValue :: "bytes \<Rightarrow> IngressPeerValue" where
  "dec_IngressPeerValue buf =
     \<lparr>iv_xor_key = field 0 64 buf,
      iv_xor_key_len = from_le (field 64 1 buf),
      iv_reserved0 = from_le (field 65 1 buf),
      iv_port = from_le (field 66 2 buf),
      iv_reserved1 = field 68 4 buf\<rparr>"

definition layout_IngressPeerValue :: "(nat \<times> nat) list" where
  "layout_IngressPeerValue = [(64, 1), (1, 1), (1, 1), (2, 2), (4, 1)]"

definition enc_TutuIngress :: "TutuIngress \<Rightarrow> bytes" where
  "enc_TutuIngress x =
     enc_IngressPeerKey (i_key x) @
     enc_IngressPeerValue (i_value x) @
     i_pad0 x @
     to_le 8 (i_map_flags x)"

definition dec_TutuIngress :: "bytes \<Rightarrow> TutuIngress" where
  "dec_TutuIngress buf =
     \<lparr>i_key = dec_IngressPeerKey (field 0 20 buf),
      i_value = dec_IngressPeerValue (field 20 72 buf),
      i_pad0 = field 92 4 buf,
      i_map_flags = from_le (field 96 8 buf)\<rparr>"

definition layout_TutuIngress :: "(nat \<times> nat) list" where
  "layout_TutuIngress = [c_field layout_IngressPeerKey, c_field layout_IngressPeerValue, (4, 1), (8, 8)]"

definition enc_SessionKey :: "SessionKey \<Rightarrow> bytes" where
  "enc_SessionKey x =
     enc_In6Addr (sk_address x) @
     to_le 2 (sk_sport x) @
     to_le 2 (sk_dport x)"

definition dec_SessionKey :: "bytes \<Rightarrow> SessionKey" where
  "dec_SessionKey buf =
     \<lparr>sk_address = dec_In6Addr (field 0 16 buf),
      sk_sport = from_le (field 16 2 buf),
      sk_dport = from_le (field 18 2 buf)\<rparr>"

definition layout_SessionKey :: "(nat \<times> nat) list" where
  "layout_SessionKey = [(16, 4), (2, 2), (2, 2)]"

definition enc_SessionValue :: "SessionValue \<Rightarrow> bytes" where
  "enc_SessionValue x =
     to_le 8 (sv_age x) @
     [sv_uid x] @
     [sv_pad0 x] @
     to_le 2 (sv_client_sport x) @
     sv_pad1 x"

definition dec_SessionValue :: "bytes \<Rightarrow> SessionValue" where
  "dec_SessionValue buf =
     \<lparr>sv_age = from_le (field 0 8 buf),
      sv_uid = from_le (field 8 1 buf),
      sv_pad0 = from_le (field 9 1 buf),
      sv_client_sport = from_le (field 10 2 buf),
      sv_pad1 = field 12 4 buf\<rparr>"

definition layout_SessionValue :: "(nat \<times> nat) list" where
  "layout_SessionValue = [(8, 8), (1, 1), (1, 1), (2, 2), (4, 1)]"

definition enc_TutuSession :: "TutuSession \<Rightarrow> bytes" where
  "enc_TutuSession x =
     enc_SessionKey (s_key x) @
     s_pad0 x @
     enc_SessionValue (s_value x) @
     to_le 8 (s_map_flags x)"

definition dec_TutuSession :: "bytes \<Rightarrow> TutuSession" where
  "dec_TutuSession buf =
     \<lparr>s_key = dec_SessionKey (field 0 20 buf),
      s_pad0 = field 20 4 buf,
      s_value = dec_SessionValue (field 24 16 buf),
      s_map_flags = from_le (field 40 8 buf)\<rparr>"

definition layout_TutuSession :: "(nat \<times> nat) list" where
  "layout_TutuSession = [c_field layout_SessionKey, (4, 1), c_field layout_SessionValue, (8, 8)]"


lemmas enc_defs [layout_simps] =
  enc_In6Addr_def enc_TutuConfig_def enc_TutuStats_def enc_UserInfoValue_def enc_TutuUserInfo_def enc_EgressPeerKey_def enc_EgressPeerValue_def enc_TutuEgress_def enc_IngressPeerKey_def enc_IngressPeerValue_def enc_TutuIngress_def enc_SessionKey_def enc_SessionValue_def enc_TutuSession_def

lemmas dec_defs [layout_simps] =
  dec_In6Addr_def dec_TutuConfig_def dec_TutuStats_def dec_UserInfoValue_def dec_TutuUserInfo_def dec_EgressPeerKey_def dec_EgressPeerValue_def dec_TutuEgress_def dec_IngressPeerKey_def dec_IngressPeerValue_def dec_TutuIngress_def dec_SessionKey_def dec_SessionValue_def dec_TutuSession_def

lemmas layout_defs =
  layout_TutuConfig_def layout_TutuStats_def layout_UserInfoValue_def layout_TutuUserInfo_def layout_EgressPeerKey_def layout_EgressPeerValue_def layout_TutuEgress_def layout_IngressPeerKey_def layout_IngressPeerValue_def layout_TutuIngress_def layout_SessionKey_def layout_SessionValue_def layout_TutuSession_def

section \<open>The contract of \<open>IntoBytes\<close> and \<open>FromBytes\<close>\<close>

text \<open>
  What the netlink functions rely on for the struct \<open>T\<close> they are generic in:
  \<open>enc\<close> writes exactly \<open>size\<close> bytes, \<open>dec\<close> reads them back from the start of a buffer
  whatever follows, and every \<open>size\<close> bytes are some valid struct.
\<close>

locale wire_struct =
  fixes enc :: "'t \<Rightarrow> bytes"
    and dec :: "bytes \<Rightarrow> 't"
    and size_of :: nat
    and valid :: "'t \<Rightarrow> bool"
  assumes length_enc: "valid x \<Longrightarrow> length (enc x) = size_of"
    and dec_enc: "valid x \<Longrightarrow> dec (enc x @ rest) = x"
    and valid_dec: "size_of \<le> length buf \<Longrightarrow> valid (dec buf)"
    and enc_dec: "size_of \<le> length buf \<Longrightarrow> enc (dec buf) = take size_of buf"
begin

lemma dec_enc_exact: "valid x \<Longrightarrow> dec (enc x) = x"
  using dec_enc [of x "[]"] by simp

lemma enc_inject: "valid x \<Longrightarrow> valid y \<Longrightarrow> enc x = enc y \<longleftrightarrow> x = y"
  by (metis dec_enc_exact)

lemma dec_take: "size_of \<le> length buf \<Longrightarrow> dec (take size_of buf) = dec buf"
  by (metis dec_enc_exact enc_dec valid_dec)

end

lemma field_append_field_at [codec_simps]:
  "off + n = off' \<Longrightarrow> field off n buf @ field off' m buf = field off (n + m) buf"
  by (metis field_append_field)

lemma field_0_take: "field 0 n buf = take n buf"
  by (simp add: field_def)

lemma from_le_1 [codec_simps]: "from_le [b] = (b :: u8)"
  by simp

lemma from_le_field_Cons [codec_simps]:
  assumes "off < length buf"
  shows "(from_le (field off (Suc 0) buf) :: u8) # bs = field off (Suc 0) buf @ bs"
proof -
  from assms have "field off (Suc 0) buf = [buf ! off]"
    by (simp add: field_def take_Suc hd_drop_conv_nth)
  then show ?thesis by simp
qed

lemma field_Cons [codec_simps]:
  "field 0 1 (b # xs) = [b]" "field 0 (Suc 0) (b # xs) = [b]"
  "0 < off \<Longrightarrow> field off n (b # xs) = field (off - 1) n xs"
  by (simp_all add: field_def drop_Cons')

interpretation wIn6Addr: wire_struct enc_In6Addr dec_In6Addr 16 valid_In6Addr
proof
  fix x :: In6Addr and rest buf :: bytes
  note defs = valid_In6Addr_def enc_In6Addr_def dec_In6Addr_def
  show "valid_In6Addr x \<Longrightarrow> length (enc_In6Addr x) = 16"
    by (simp add: defs codec_simps)
  show "valid_In6Addr x \<Longrightarrow> dec_In6Addr (enc_In6Addr x @ rest) = x"
    by (cases x) (simp add: defs codec_simps)
  show "16 \<le> length buf \<Longrightarrow> valid_In6Addr (dec_In6Addr buf)"
    by (simp add: defs codec_simps)
  show "16 \<le> length buf \<Longrightarrow> enc_In6Addr (dec_In6Addr buf) = take 16 buf"
    unfolding field_0_take [symmetric] by (cases "buf = []") (simp_all add: defs codec_simps)
qed

declare wIn6Addr.length_enc [codec_simps] wIn6Addr.dec_enc [codec_simps]
  wIn6Addr.dec_enc_exact [codec_simps] wIn6Addr.valid_dec [codec_simps]

lemma enc_dec_field_In6Addr [codec_simps]:
  "off + 16 \<le> length buf \<Longrightarrow> enc_In6Addr (dec_In6Addr (field off 16 buf)) = field off 16 buf"
  using wIn6Addr.enc_dec [of "field off 16 buf"] by (simp add: codec_simps)

interpretation wTutuConfig: wire_struct enc_TutuConfig dec_TutuConfig 8 valid_TutuConfig
proof
  fix x :: TutuConfig and rest buf :: bytes
  note defs = valid_TutuConfig_def enc_TutuConfig_def dec_TutuConfig_def
  show "valid_TutuConfig x \<Longrightarrow> length (enc_TutuConfig x) = 8"
    by (simp add: defs codec_simps)
  show "valid_TutuConfig x \<Longrightarrow> dec_TutuConfig (enc_TutuConfig x @ rest) = x"
    by (cases x) (simp add: defs codec_simps)
  show "8 \<le> length buf \<Longrightarrow> valid_TutuConfig (dec_TutuConfig buf)"
    by (simp add: defs codec_simps)
  show "8 \<le> length buf \<Longrightarrow> enc_TutuConfig (dec_TutuConfig buf) = take 8 buf"
    unfolding field_0_take [symmetric] by (cases "buf = []") (simp_all add: defs codec_simps)
qed

declare wTutuConfig.length_enc [codec_simps] wTutuConfig.dec_enc [codec_simps]
  wTutuConfig.dec_enc_exact [codec_simps] wTutuConfig.valid_dec [codec_simps]

interpretation wTutuStats: wire_struct enc_TutuStats dec_TutuStats 40 valid_TutuStats
proof
  fix x :: TutuStats and rest buf :: bytes
  note defs = valid_TutuStats_def enc_TutuStats_def dec_TutuStats_def
  show "valid_TutuStats x \<Longrightarrow> length (enc_TutuStats x) = 40"
    by (simp add: defs codec_simps)
  show "valid_TutuStats x \<Longrightarrow> dec_TutuStats (enc_TutuStats x @ rest) = x"
    by (cases x) (simp add: defs codec_simps)
  show "40 \<le> length buf \<Longrightarrow> valid_TutuStats (dec_TutuStats buf)"
    by (simp add: defs codec_simps)
  show "40 \<le> length buf \<Longrightarrow> enc_TutuStats (dec_TutuStats buf) = take 40 buf"
    unfolding field_0_take [symmetric] by (cases "buf = []") (simp_all add: defs codec_simps)
qed

declare wTutuStats.length_enc [codec_simps] wTutuStats.dec_enc [codec_simps]
  wTutuStats.dec_enc_exact [codec_simps] wTutuStats.valid_dec [codec_simps]

interpretation wUserInfoValue: wire_struct enc_UserInfoValue dec_UserInfoValue 116 valid_UserInfoValue
proof
  fix x :: UserInfoValue and rest buf :: bytes
  note defs = valid_UserInfoValue_def enc_UserInfoValue_def dec_UserInfoValue_def
  show "valid_UserInfoValue x \<Longrightarrow> length (enc_UserInfoValue x) = 116"
    by (simp add: defs codec_simps)
  show "valid_UserInfoValue x \<Longrightarrow> dec_UserInfoValue (enc_UserInfoValue x @ rest) = x"
    by (cases x) (simp add: defs codec_simps)
  show "116 \<le> length buf \<Longrightarrow> valid_UserInfoValue (dec_UserInfoValue buf)"
    by (simp add: defs codec_simps)
  show "116 \<le> length buf \<Longrightarrow> enc_UserInfoValue (dec_UserInfoValue buf) = take 116 buf"
    unfolding field_0_take [symmetric] by (cases "buf = []") (simp_all add: defs codec_simps)
qed

declare wUserInfoValue.length_enc [codec_simps] wUserInfoValue.dec_enc [codec_simps]
  wUserInfoValue.dec_enc_exact [codec_simps] wUserInfoValue.valid_dec [codec_simps]

lemma enc_dec_field_UserInfoValue [codec_simps]:
  "off + 116 \<le> length buf \<Longrightarrow> enc_UserInfoValue (dec_UserInfoValue (field off 116 buf)) = field off 116 buf"
  using wUserInfoValue.enc_dec [of "field off 116 buf"] by (simp add: codec_simps)

interpretation wTutuUserInfo: wire_struct enc_TutuUserInfo dec_TutuUserInfo 128 valid_TutuUserInfo
proof
  fix x :: TutuUserInfo and rest buf :: bytes
  note defs = valid_TutuUserInfo_def enc_TutuUserInfo_def dec_TutuUserInfo_def
  show "valid_TutuUserInfo x \<Longrightarrow> length (enc_TutuUserInfo x) = 128"
    by (simp add: defs codec_simps)
  show "valid_TutuUserInfo x \<Longrightarrow> dec_TutuUserInfo (enc_TutuUserInfo x @ rest) = x"
    by (cases x) (simp add: defs codec_simps)
  show "128 \<le> length buf \<Longrightarrow> valid_TutuUserInfo (dec_TutuUserInfo buf)"
    by (simp add: defs codec_simps)
  show "128 \<le> length buf \<Longrightarrow> enc_TutuUserInfo (dec_TutuUserInfo buf) = take 128 buf"
    unfolding field_0_take [symmetric] by (cases "buf = []") (simp_all add: defs codec_simps)
qed

declare wTutuUserInfo.length_enc [codec_simps] wTutuUserInfo.dec_enc [codec_simps]
  wTutuUserInfo.dec_enc_exact [codec_simps] wTutuUserInfo.valid_dec [codec_simps]

interpretation wEgressPeerKey: wire_struct enc_EgressPeerKey dec_EgressPeerKey 20 valid_EgressPeerKey
proof
  fix x :: EgressPeerKey and rest buf :: bytes
  note defs = valid_EgressPeerKey_def enc_EgressPeerKey_def dec_EgressPeerKey_def
  show "valid_EgressPeerKey x \<Longrightarrow> length (enc_EgressPeerKey x) = 20"
    by (simp add: defs codec_simps)
  show "valid_EgressPeerKey x \<Longrightarrow> dec_EgressPeerKey (enc_EgressPeerKey x @ rest) = x"
    by (cases x) (simp add: defs codec_simps)
  show "20 \<le> length buf \<Longrightarrow> valid_EgressPeerKey (dec_EgressPeerKey buf)"
    by (simp add: defs codec_simps)
  show "20 \<le> length buf \<Longrightarrow> enc_EgressPeerKey (dec_EgressPeerKey buf) = take 20 buf"
    unfolding field_0_take [symmetric] by (cases "buf = []") (simp_all add: defs codec_simps)
qed

declare wEgressPeerKey.length_enc [codec_simps] wEgressPeerKey.dec_enc [codec_simps]
  wEgressPeerKey.dec_enc_exact [codec_simps] wEgressPeerKey.valid_dec [codec_simps]

lemma enc_dec_field_EgressPeerKey [codec_simps]:
  "off + 20 \<le> length buf \<Longrightarrow> enc_EgressPeerKey (dec_EgressPeerKey (field off 20 buf)) = field off 20 buf"
  using wEgressPeerKey.enc_dec [of "field off 20 buf"] by (simp add: codec_simps)

interpretation wEgressPeerValue: wire_struct enc_EgressPeerValue dec_EgressPeerValue 88 valid_EgressPeerValue
proof
  fix x :: EgressPeerValue and rest buf :: bytes
  note defs = valid_EgressPeerValue_def enc_EgressPeerValue_def dec_EgressPeerValue_def
  show "valid_EgressPeerValue x \<Longrightarrow> length (enc_EgressPeerValue x) = 88"
    by (simp add: defs codec_simps)
  show "valid_EgressPeerValue x \<Longrightarrow> dec_EgressPeerValue (enc_EgressPeerValue x @ rest) = x"
    by (cases x) (simp add: defs codec_simps)
  show "88 \<le> length buf \<Longrightarrow> valid_EgressPeerValue (dec_EgressPeerValue buf)"
    by (simp add: defs codec_simps)
  show "88 \<le> length buf \<Longrightarrow> enc_EgressPeerValue (dec_EgressPeerValue buf) = take 88 buf"
    unfolding field_0_take [symmetric] by (cases "buf = []") (simp_all add: defs codec_simps)
qed

declare wEgressPeerValue.length_enc [codec_simps] wEgressPeerValue.dec_enc [codec_simps]
  wEgressPeerValue.dec_enc_exact [codec_simps] wEgressPeerValue.valid_dec [codec_simps]

lemma enc_dec_field_EgressPeerValue [codec_simps]:
  "off + 88 \<le> length buf \<Longrightarrow> enc_EgressPeerValue (dec_EgressPeerValue (field off 88 buf)) = field off 88 buf"
  using wEgressPeerValue.enc_dec [of "field off 88 buf"] by (simp add: codec_simps)

interpretation wTutuEgress: wire_struct enc_TutuEgress dec_TutuEgress 120 valid_TutuEgress
proof
  fix x :: TutuEgress and rest buf :: bytes
  note defs = valid_TutuEgress_def enc_TutuEgress_def dec_TutuEgress_def
  show "valid_TutuEgress x \<Longrightarrow> length (enc_TutuEgress x) = 120"
    by (simp add: defs codec_simps)
  show "valid_TutuEgress x \<Longrightarrow> dec_TutuEgress (enc_TutuEgress x @ rest) = x"
    by (cases x) (simp add: defs codec_simps)
  show "120 \<le> length buf \<Longrightarrow> valid_TutuEgress (dec_TutuEgress buf)"
    by (simp add: defs codec_simps)
  show "120 \<le> length buf \<Longrightarrow> enc_TutuEgress (dec_TutuEgress buf) = take 120 buf"
    unfolding field_0_take [symmetric] by (cases "buf = []") (simp_all add: defs codec_simps)
qed

declare wTutuEgress.length_enc [codec_simps] wTutuEgress.dec_enc [codec_simps]
  wTutuEgress.dec_enc_exact [codec_simps] wTutuEgress.valid_dec [codec_simps]

interpretation wIngressPeerKey: wire_struct enc_IngressPeerKey dec_IngressPeerKey 20 valid_IngressPeerKey
proof
  fix x :: IngressPeerKey and rest buf :: bytes
  note defs = valid_IngressPeerKey_def enc_IngressPeerKey_def dec_IngressPeerKey_def
  show "valid_IngressPeerKey x \<Longrightarrow> length (enc_IngressPeerKey x) = 20"
    by (simp add: defs codec_simps)
  show "valid_IngressPeerKey x \<Longrightarrow> dec_IngressPeerKey (enc_IngressPeerKey x @ rest) = x"
    by (cases x) (simp add: defs codec_simps)
  show "20 \<le> length buf \<Longrightarrow> valid_IngressPeerKey (dec_IngressPeerKey buf)"
    by (simp add: defs codec_simps)
  show "20 \<le> length buf \<Longrightarrow> enc_IngressPeerKey (dec_IngressPeerKey buf) = take 20 buf"
    unfolding field_0_take [symmetric] by (cases "buf = []") (simp_all add: defs codec_simps)
qed

declare wIngressPeerKey.length_enc [codec_simps] wIngressPeerKey.dec_enc [codec_simps]
  wIngressPeerKey.dec_enc_exact [codec_simps] wIngressPeerKey.valid_dec [codec_simps]

lemma enc_dec_field_IngressPeerKey [codec_simps]:
  "off + 20 \<le> length buf \<Longrightarrow> enc_IngressPeerKey (dec_IngressPeerKey (field off 20 buf)) = field off 20 buf"
  using wIngressPeerKey.enc_dec [of "field off 20 buf"] by (simp add: codec_simps)

interpretation wIngressPeerValue: wire_struct enc_IngressPeerValue dec_IngressPeerValue 72 valid_IngressPeerValue
proof
  fix x :: IngressPeerValue and rest buf :: bytes
  note defs = valid_IngressPeerValue_def enc_IngressPeerValue_def dec_IngressPeerValue_def
  show "valid_IngressPeerValue x \<Longrightarrow> length (enc_IngressPeerValue x) = 72"
    by (simp add: defs codec_simps)
  show "valid_IngressPeerValue x \<Longrightarrow> dec_IngressPeerValue (enc_IngressPeerValue x @ rest) = x"
    by (cases x) (simp add: defs codec_simps)
  show "72 \<le> length buf \<Longrightarrow> valid_IngressPeerValue (dec_IngressPeerValue buf)"
    by (simp add: defs codec_simps)
  show "72 \<le> length buf \<Longrightarrow> enc_IngressPeerValue (dec_IngressPeerValue buf) = take 72 buf"
    unfolding field_0_take [symmetric] by (cases "buf = []") (simp_all add: defs codec_simps)
qed

declare wIngressPeerValue.length_enc [codec_simps] wIngressPeerValue.dec_enc [codec_simps]
  wIngressPeerValue.dec_enc_exact [codec_simps] wIngressPeerValue.valid_dec [codec_simps]

lemma enc_dec_field_IngressPeerValue [codec_simps]:
  "off + 72 \<le> length buf \<Longrightarrow> enc_IngressPeerValue (dec_IngressPeerValue (field off 72 buf)) = field off 72 buf"
  using wIngressPeerValue.enc_dec [of "field off 72 buf"] by (simp add: codec_simps)

interpretation wTutuIngress: wire_struct enc_TutuIngress dec_TutuIngress 104 valid_TutuIngress
proof
  fix x :: TutuIngress and rest buf :: bytes
  note defs = valid_TutuIngress_def enc_TutuIngress_def dec_TutuIngress_def
  show "valid_TutuIngress x \<Longrightarrow> length (enc_TutuIngress x) = 104"
    by (simp add: defs codec_simps)
  show "valid_TutuIngress x \<Longrightarrow> dec_TutuIngress (enc_TutuIngress x @ rest) = x"
    by (cases x) (simp add: defs codec_simps)
  show "104 \<le> length buf \<Longrightarrow> valid_TutuIngress (dec_TutuIngress buf)"
    by (simp add: defs codec_simps)
  show "104 \<le> length buf \<Longrightarrow> enc_TutuIngress (dec_TutuIngress buf) = take 104 buf"
    unfolding field_0_take [symmetric] by (cases "buf = []") (simp_all add: defs codec_simps)
qed

declare wTutuIngress.length_enc [codec_simps] wTutuIngress.dec_enc [codec_simps]
  wTutuIngress.dec_enc_exact [codec_simps] wTutuIngress.valid_dec [codec_simps]

interpretation wSessionKey: wire_struct enc_SessionKey dec_SessionKey 20 valid_SessionKey
proof
  fix x :: SessionKey and rest buf :: bytes
  note defs = valid_SessionKey_def enc_SessionKey_def dec_SessionKey_def
  show "valid_SessionKey x \<Longrightarrow> length (enc_SessionKey x) = 20"
    by (simp add: defs codec_simps)
  show "valid_SessionKey x \<Longrightarrow> dec_SessionKey (enc_SessionKey x @ rest) = x"
    by (cases x) (simp add: defs codec_simps)
  show "20 \<le> length buf \<Longrightarrow> valid_SessionKey (dec_SessionKey buf)"
    by (simp add: defs codec_simps)
  show "20 \<le> length buf \<Longrightarrow> enc_SessionKey (dec_SessionKey buf) = take 20 buf"
    unfolding field_0_take [symmetric] by (cases "buf = []") (simp_all add: defs codec_simps)
qed

declare wSessionKey.length_enc [codec_simps] wSessionKey.dec_enc [codec_simps]
  wSessionKey.dec_enc_exact [codec_simps] wSessionKey.valid_dec [codec_simps]

lemma enc_dec_field_SessionKey [codec_simps]:
  "off + 20 \<le> length buf \<Longrightarrow> enc_SessionKey (dec_SessionKey (field off 20 buf)) = field off 20 buf"
  using wSessionKey.enc_dec [of "field off 20 buf"] by (simp add: codec_simps)

interpretation wSessionValue: wire_struct enc_SessionValue dec_SessionValue 16 valid_SessionValue
proof
  fix x :: SessionValue and rest buf :: bytes
  note defs = valid_SessionValue_def enc_SessionValue_def dec_SessionValue_def
  show "valid_SessionValue x \<Longrightarrow> length (enc_SessionValue x) = 16"
    by (simp add: defs codec_simps)
  show "valid_SessionValue x \<Longrightarrow> dec_SessionValue (enc_SessionValue x @ rest) = x"
    by (cases x) (simp add: defs codec_simps)
  show "16 \<le> length buf \<Longrightarrow> valid_SessionValue (dec_SessionValue buf)"
    by (simp add: defs codec_simps)
  show "16 \<le> length buf \<Longrightarrow> enc_SessionValue (dec_SessionValue buf) = take 16 buf"
    unfolding field_0_take [symmetric] by (cases "buf = []") (simp_all add: defs codec_simps)
qed

declare wSessionValue.length_enc [codec_simps] wSessionValue.dec_enc [codec_simps]
  wSessionValue.dec_enc_exact [codec_simps] wSessionValue.valid_dec [codec_simps]

lemma enc_dec_field_SessionValue [codec_simps]:
  "off + 16 \<le> length buf \<Longrightarrow> enc_SessionValue (dec_SessionValue (field off 16 buf)) = field off 16 buf"
  using wSessionValue.enc_dec [of "field off 16 buf"] by (simp add: codec_simps)

interpretation wTutuSession: wire_struct enc_TutuSession dec_TutuSession 48 valid_TutuSession
proof
  fix x :: TutuSession and rest buf :: bytes
  note defs = valid_TutuSession_def enc_TutuSession_def dec_TutuSession_def
  show "valid_TutuSession x \<Longrightarrow> length (enc_TutuSession x) = 48"
    by (simp add: defs codec_simps)
  show "valid_TutuSession x \<Longrightarrow> dec_TutuSession (enc_TutuSession x @ rest) = x"
    by (cases x) (simp add: defs codec_simps)
  show "48 \<le> length buf \<Longrightarrow> valid_TutuSession (dec_TutuSession buf)"
    by (simp add: defs codec_simps)
  show "48 \<le> length buf \<Longrightarrow> enc_TutuSession (dec_TutuSession buf) = take 48 buf"
    unfolding field_0_take [symmetric] by (cases "buf = []") (simp_all add: defs codec_simps)
qed

declare wTutuSession.length_enc [codec_simps] wTutuSession.dec_enc [codec_simps]
  wTutuSession.dec_enc_exact [codec_simps] wTutuSession.valid_dec [codec_simps]

section \<open>The sizes\<close>

text \<open>
  The struct declarations of \<open>config.rs\<close> leave no padding under the C layout rule, so the fields one
  after the other are the struct's memory; the sizes are those of the codecs above.
\<close>

lemma structs_have_no_padding:
  "list_all no_padding
     [layout_TutuConfig, layout_TutuStats, layout_UserInfoValue, layout_TutuUserInfo,
      layout_EgressPeerKey, layout_EgressPeerValue, layout_TutuEgress, layout_IngressPeerKey,
      layout_IngressPeerValue, layout_TutuIngress, layout_SessionKey, layout_SessionValue,
      layout_TutuSession]"
  by code_simp

lemma struct_sizes:
  "map c_size [layout_TutuConfig, layout_TutuStats, layout_TutuUserInfo, layout_TutuEgress,
      layout_TutuIngress, layout_TutuSession] = [8, 40, 128, 120, 104, 48]"
  by code_simp

end
