(* ===== verification/Netlink_Codec.thy ===== *)
theory Netlink_Codec
  imports Layout
begin

text \<open>
  The byte level of \<open>ktuctl-rs/src/netlink.rs\<close>: the raw headers, the builder of a generic
  netlink request and the parsers of a reply. The lemmas show that the parsers invert the
  builder, that no parser reads outside its buffer, and what an error message yields.
\<close>

section \<open>Raw headers\<close>

record NlmsghdrRaw =
  nlmsg_len :: u32
  nlmsg_type :: u16
  nlmsg_flags :: u16
  nlmsg_seq :: u32
  nlmsg_pid :: u32

record GenlmsghdrRaw =
  genl_cmd :: u8
  genl_version :: u8
  genl_reserved :: u16

record NlattrRaw =
  nla_len :: u16
  nla_type :: u16

record NlmsgerrRaw =
  nlmsgerr_error :: "32 word" \<comment> \<open>\<open>i32\<close>\<close>
  nlmsgerr_msg :: NlmsghdrRaw

definition enc_NlmsghdrRaw :: "NlmsghdrRaw \<Rightarrow> bytes" where
  "enc_NlmsghdrRaw h =
     to_le 4 (nlmsg_len h) @ to_le 2 (nlmsg_type h) @ to_le 2 (nlmsg_flags h) @
     to_le 4 (nlmsg_seq h) @ to_le 4 (nlmsg_pid h)"

definition dec_NlmsghdrRaw :: "bytes \<Rightarrow> NlmsghdrRaw" where
  "dec_NlmsghdrRaw buf =
     \<lparr>nlmsg_len = from_le (field 0 4 buf), nlmsg_type = from_le (field 4 2 buf),
      nlmsg_flags = from_le (field 6 2 buf), nlmsg_seq = from_le (field 8 4 buf),
      nlmsg_pid = from_le (field 12 4 buf)\<rparr>"

definition enc_GenlmsghdrRaw :: "GenlmsghdrRaw \<Rightarrow> bytes" where
  "enc_GenlmsghdrRaw h = [genl_cmd h, genl_version h] @ to_le 2 (genl_reserved h)"

definition dec_GenlmsghdrRaw :: "bytes \<Rightarrow> GenlmsghdrRaw" where
  "dec_GenlmsghdrRaw buf =
     \<lparr>genl_cmd = from_le (field 0 1 buf), genl_version = from_le (field 1 1 buf),
      genl_reserved = from_le (field 2 2 buf)\<rparr>"

definition enc_NlattrRaw :: "NlattrRaw \<Rightarrow> bytes" where
  "enc_NlattrRaw h = to_le 2 (nla_len h) @ to_le 2 (nla_type h)"

definition dec_NlattrRaw :: "bytes \<Rightarrow> NlattrRaw" where
  "dec_NlattrRaw buf =
     \<lparr>nla_len = from_le (field 0 2 buf), nla_type = from_le (field 2 2 buf)\<rparr>"

definition enc_NlmsgerrRaw :: "NlmsgerrRaw \<Rightarrow> bytes" where
  "enc_NlmsgerrRaw e = to_le 4 (nlmsgerr_error e) @ enc_NlmsghdrRaw (nlmsgerr_msg e)"

definition dec_NlmsgerrRaw :: "bytes \<Rightarrow> NlmsgerrRaw" where
  "dec_NlmsgerrRaw buf =
     \<lparr>nlmsgerr_error = from_le (field 0 4 buf),
      nlmsgerr_msg = dec_NlmsghdrRaw (field 4 16 buf)\<rparr>"

text \<open>\<open>size_of\<close> of the four headers.\<close>

definition NLMSGHDR_SIZE :: nat where [simp]: "NLMSGHDR_SIZE = 16"
definition GENLMSGHDR_SIZE :: nat where [simp]: "GENLMSGHDR_SIZE = 4"
definition NLATTR_SIZE :: nat where [simp]: "NLATTR_SIZE = 4"
definition NLMSGERR_SIZE :: nat where [simp]: "NLMSGERR_SIZE = 20"

interpretation wNlmsghdrRaw: wire_struct enc_NlmsghdrRaw dec_NlmsghdrRaw 16 "\<lambda>_. True"
proof
  fix x :: NlmsghdrRaw and rest buf :: bytes
  note defs = enc_NlmsghdrRaw_def dec_NlmsghdrRaw_def
  show "length (enc_NlmsghdrRaw x) = 16"
    by (simp add: defs codec_simps)
  show "dec_NlmsghdrRaw (enc_NlmsghdrRaw x @ rest) = x"
    by (cases x) (simp add: defs codec_simps)
  show "16 \<le> length buf \<Longrightarrow> enc_NlmsghdrRaw (dec_NlmsghdrRaw buf) = take 16 buf"
    unfolding field_0_take [symmetric] by (simp add: defs codec_simps)
qed simp

declare wNlmsghdrRaw.length_enc [codec_simps] wNlmsghdrRaw.dec_enc [codec_simps]
  wNlmsghdrRaw.dec_enc_exact [codec_simps]

lemma enc_dec_field_NlmsghdrRaw [codec_simps]:
  "off + 16 \<le> length buf \<Longrightarrow> enc_NlmsghdrRaw (dec_NlmsghdrRaw (field off 16 buf)) = field off 16 buf"
  using wNlmsghdrRaw.enc_dec [of "field off 16 buf"] by (simp add: codec_simps)

interpretation wGenlmsghdrRaw: wire_struct enc_GenlmsghdrRaw dec_GenlmsghdrRaw 4 "\<lambda>_. True"
proof
  fix x :: GenlmsghdrRaw and rest buf :: bytes
  note defs = enc_GenlmsghdrRaw_def dec_GenlmsghdrRaw_def
  show "length (enc_GenlmsghdrRaw x) = 4"
    by (simp add: defs codec_simps)
  show "dec_GenlmsghdrRaw (enc_GenlmsghdrRaw x @ rest) = x"
    by (cases x) (simp add: defs codec_simps)
  show "4 \<le> length buf \<Longrightarrow> enc_GenlmsghdrRaw (dec_GenlmsghdrRaw buf) = take 4 buf"
    unfolding field_0_take [symmetric]
    by (cases "buf = []") (simp_all add: defs codec_simps, simp add: eval_nat_numeral)
qed simp

interpretation wNlattrRaw: wire_struct enc_NlattrRaw dec_NlattrRaw 4 "\<lambda>_. True"
proof
  fix x :: NlattrRaw and rest buf :: bytes
  note defs = enc_NlattrRaw_def dec_NlattrRaw_def
  show "length (enc_NlattrRaw x) = 4"
    by (simp add: defs codec_simps)
  show "dec_NlattrRaw (enc_NlattrRaw x @ rest) = x"
    by (cases x) (simp add: defs codec_simps)
  show "4 \<le> length buf \<Longrightarrow> enc_NlattrRaw (dec_NlattrRaw buf) = take 4 buf"
    unfolding field_0_take [symmetric] by (simp add: defs codec_simps)
qed simp

interpretation wNlmsgerrRaw: wire_struct enc_NlmsgerrRaw dec_NlmsgerrRaw 20 "\<lambda>_. True"
proof
  fix x :: NlmsgerrRaw and rest buf :: bytes
  note defs = enc_NlmsgerrRaw_def dec_NlmsgerrRaw_def
  show "length (enc_NlmsgerrRaw x) = 20"
    by (simp add: defs codec_simps)
  show "dec_NlmsgerrRaw (enc_NlmsgerrRaw x @ rest) = x"
    by (cases x) (simp add: defs codec_simps)
  show "20 \<le> length buf \<Longrightarrow> enc_NlmsgerrRaw (dec_NlmsgerrRaw buf) = take 20 buf"
    unfolding field_0_take [symmetric] by (simp add: defs codec_simps)
qed simp

declare wGenlmsghdrRaw.length_enc [codec_simps] wGenlmsghdrRaw.dec_enc [codec_simps]
  wNlattrRaw.length_enc [codec_simps] wNlattrRaw.dec_enc [codec_simps]
  wNlmsgerrRaw.length_enc [codec_simps] wNlmsgerrRaw.dec_enc [codec_simps]

section \<open>Alignment\<close>

text \<open>
  \<open>(len + ALIGNTO - 1) & !(ALIGNTO - 1)\<close>. The sum stays far below the word size for the
  lengths that occur, so the mask is taken on integers.
\<close>

definition nlmsg_align :: "nat \<Rightarrow> nat" where
  "nlmsg_align len = nat (int (len + NLMSG_ALIGNTO - 1) AND NOT (int NLMSG_ALIGNTO - 1))"

definition nla_align :: "nat \<Rightarrow> nat" where
  "nla_align len = nat (int (len + NLA_ALIGNTO - 1) AND NOT (int NLA_ALIGNTO - 1))"

lemma and_minus_4: "(x :: int) AND - 4 = 4 * (x div 4)"
proof -
  have *: "2 \<le> n \<Longrightarrow> Suc (Suc (n - 2)) = n" for n by simp
  have "x AND NOT (mask 2) = push_bit 2 (drop_bit 2 x)"
    by (rule bit_eqI) (auto simp: bit_simps * not_less)
  then show ?thesis
    by (simp add: mask_eq_exp_minus_1 push_bit_eq_mult drop_bit_eq_div mult.commute)
qed

lemma nla_align_eq: "nla_align len = 4 * ((len + 3) div 4)"
proof -
  have e: "int (len + NLA_ALIGNTO - 1) AND NOT (int NLA_ALIGNTO - 1) = int (4 * ((len + 3) div 4))"
    by (simp add: and_minus_4 zdiv_int)
  show ?thesis
    by (simp only: nla_align_def e nat_int)
qed

lemma nlmsg_align_eq: "nlmsg_align len = nla_align len"
  by (simp add: nlmsg_align_def nla_align_def)

lemma nla_align_ge: "len \<le> nla_align len"
  unfolding nla_align_eq by linarith

lemma nla_align_less: "nla_align len < len + 4"
  unfolding nla_align_eq by linarith

lemma nla_align_dvd [simp]: "4 dvd nla_align len"
  by (simp add: nla_align_eq)

lemma nla_align_id: "4 dvd len \<Longrightarrow> nla_align len = len"
  by (auto simp: nla_align_eq)

lemma nla_align_pos: "0 < len \<Longrightarrow> 0 < nla_align len"
  using nla_align_ge [of len] by linarith

section \<open>Building a request\<close>

definition push_bytes :: "bytes \<Rightarrow> bytes \<Rightarrow> bytes" where
  "push_bytes buf bs = buf @ bs"

definition push_nlattr :: "bytes \<Rightarrow> u16 \<Rightarrow> bytes \<Rightarrow> bytes" where
  "push_nlattr buf attr_type payload =
     (let start = length buf;
          hdr = \<lparr>nla_len = of_nat (NLATTR_SIZE + length payload), nla_type = attr_type\<rparr>;
          buf = push_bytes buf (enc_NlattrRaw hdr);
          buf = push_bytes buf payload;
          aligned = nla_align (length buf - start);
          pad = aligned - (length buf - start)
      in if 0 < pad then buf @ replicate pad 0 else buf)"

fun push_attrs :: "bytes \<Rightarrow> (u16 \<times> bytes) list \<Rightarrow> bytes" where
  "push_attrs buf [] = buf"
| "push_attrs buf ((t, p) # attrs) = push_attrs (push_nlattr buf t p) attrs"

definition build_packet_genl_msg ::
  "u16 \<Rightarrow> u16 \<Rightarrow> u32 \<Rightarrow> u32 \<Rightarrow> u8 \<Rightarrow> u8 \<Rightarrow> (u16 \<times> bytes) list \<Rightarrow> bytes" where
  "build_packet_genl_msg ty flags seq pid cmd version attrs =
     (let attrs_buf = push_attrs [] attrs;
          total_len = NLMSGHDR_SIZE + GENLMSGHDR_SIZE + length attrs_buf
      in to_le 4 (of_nat total_len :: u32) @ to_le 2 ty @ to_le 2 flags @ to_le 4 seq @ to_le 4 pid @
         [cmd] @ [version] @ to_le 2 (0 :: u16) @
         attrs_buf)"

section \<open>Parsing a reply\<close>

definition parse_nlmsghdr :: "bytes \<Rightarrow> nat \<Rightarrow> NlmsghdrRaw option" where
  "parse_nlmsghdr buf offset =
     (if offset + NLMSGHDR_SIZE > length buf then None
      else Some (dec_NlmsghdrRaw (drop offset buf)))"

definition parse_genlhdr :: "bytes \<Rightarrow> nat \<Rightarrow> GenlmsghdrRaw option" where
  "parse_genlhdr buf offset =
     (if offset + GENLMSGHDR_SIZE > length buf then None
      else Some (dec_GenlmsghdrRaw (drop offset buf)))"

function parse_attrs :: "bytes \<Rightarrow> (u16 \<times> bytes) list" where
  "parse_attrs data =
     (if NLATTR_SIZE \<le> length data then
        (let hdr = dec_NlattrRaw data;
             len = unat (nla_len hdr)
         in if len < NLATTR_SIZE \<or> len > length data then []
            else (let payload = drop NLATTR_SIZE (take len data);
                      step = nla_align len
                  in (nla_type hdr, payload)
                     # (if step > length data then [] else parse_attrs (drop step data))))
      else [])"
  by pat_completeness auto
termination
proof (relation "measure length", simp)
  fix data hdr len payload step
  assume "NLATTR_SIZE \<le> length data" "len = unat (nla_len hdr)"
    "\<not> (len < NLATTR_SIZE \<or> len > length data)" "step = nla_align len" "\<not> step > length data"
  then have "0 < len" "len \<le> step" "step \<le> length data"
    by (simp_all add: nla_align_ge)
  then have "0 < step" "step \<le> length data"
    by linarith+
  then show "(drop step data, data) \<in> measure length"
    by simp
qed

declare parse_attrs.simps [simp del]

text \<open>
  Negating the kernel's error code overflows for the least \<open>i32\<close>: a debug build panics, a
  release build wraps.
\<close>

definition check_nlmsg_error :: "profile \<Rightarrow> bytes \<Rightarrow> unit res" where
  "check_nlmsg_error p payload =
     (if length payload < NLMSGERR_SIZE then Err (Msg ''short NLMSG_ERROR payload'')
      else (let err = nlmsgerr_error (dec_NlmsgerrRaw payload) in
            if err = 0 then Ok ()
            else if p = Debug \<and> sint err = - (2 ^ 31) then Panic
            else Err (Ctx ''netlink error'' (OsErrno (- err)))))"

section \<open>The builder\<close>

lemma push_nlattr_eq:
  "push_nlattr buf t p =
     buf @ enc_NlattrRaw \<lparr>nla_len = of_nat (4 + length p), nla_type = t\<rparr> @ p
     @ replicate (nla_align (4 + length p) - (4 + length p)) 0"
  by (simp add: push_nlattr_def push_bytes_def Let_def codec_simps)

lemma push_attrs_append: "push_attrs buf attrs = buf @ push_attrs [] attrs"
proof (induction attrs arbitrary: buf)
  case Nil
  then show ?case by simp
next
  case (Cons a attrs)
  obtain t p where a: "a = (t, p)" by (cases a)
  have "push_attrs buf (a # attrs) = push_nlattr buf t p @ push_attrs [] attrs"
    using Cons.IH [of "push_nlattr buf t p"] by (simp add: a)
  also have "\<dots> = buf @ push_nlattr [] t p @ push_attrs [] attrs"
    by (simp add: push_nlattr_eq)
  also have "push_nlattr [] t p @ push_attrs [] attrs = push_attrs [] (a # attrs)"
    using Cons.IH [of "push_nlattr [] t p"] by (simp add: a)
  finally show ?case .
qed

lemma push_attrs_Cons: "push_attrs [] ((t, p) # attrs) = push_nlattr [] t p @ push_attrs [] attrs"
  using push_attrs_append [of "push_nlattr [] t p" attrs] by simp

lemma length_push_nlattr: "length (push_nlattr [] t p) = nla_align (4 + length p)"
proof -
  have "4 + length p \<le> nla_align (4 + length p)" by (rule nla_align_ge)
  then show ?thesis
    by (simp add: push_nlattr_eq codec_simps)
qed

lemma length_push_attrs:
  "length (push_attrs [] attrs) = (\<Sum>(t, p) \<leftarrow> attrs. nla_align (4 + length p))"
proof (induction attrs)
  case Nil
  then show ?case by simp
next
  case (Cons a attrs)
  then show ?case
    by (cases a) (simp add: push_attrs_Cons length_push_nlattr del: push_attrs.simps(2))
qed

text \<open>An attribute whose length fits the 16-bit field.\<close>

definition small_attr :: "u16 \<times> bytes \<Rightarrow> bool" where
  "small_attr a \<longleftrightarrow> NLATTR_SIZE + length (snd a) < 2 ^ 16"

lemma parse_attrs_push_nlattr:
  assumes "small_attr (t, p)"
  shows "parse_attrs (push_nlattr [] t p @ rest) = (t, p) # parse_attrs rest"
proof -
  let ?n = "4 + length p"
  let ?pad = "replicate (nla_align ?n - ?n) 0 :: bytes"
  let ?hdr = "\<lparr>nla_len = of_nat ?n, nla_type = t\<rparr>"
  let ?data = "push_nlattr [] t p @ rest"
  have data: "?data = enc_NlattrRaw ?hdr @ p @ ?pad @ rest"
    by (simp add: push_nlattr_eq)
  have len: "unat (of_nat ?n :: u16) = ?n"
    using assms by (intro unat_of_nat_small) (simp add: small_attr_def)
  have hdr: "dec_NlattrRaw ?data = ?hdr"
    unfolding data by (simp add: codec_simps)
  have n: "?n \<le> nla_align ?n" by (rule nla_align_ge)
  have l: "length ?data = nla_align ?n + length rest"
    by (simp only: length_append length_push_nlattr)
  have take: "drop 4 (take ?n ?data) = p"
    unfolding data by (simp add: codec_simps)
  have rest: "drop (nla_align ?n) ?data = rest"
    using length_push_nlattr [of t p] by simp
  have c: "4 \<le> length ?data" "\<not> (?n < 4 \<or> ?n > length ?data)" "\<not> nla_align ?n > length ?data"
    using n unfolding l by simp_all
  show ?thesis
    by (subst parse_attrs.simps)
      (simp only: NLATTR_SIZE_def hdr NlattrRaw.simps len Let_def c take rest if_True if_False)
qed

lemma parse_attrs_push_attrs:
  "list_all small_attr attrs \<Longrightarrow> parse_attrs (push_attrs [] attrs) = attrs"
proof (induction attrs)
  case Nil
  then show ?case
    by (simp add: parse_attrs.simps [of "[]"])
next
  case (Cons a attrs)
  then show ?case
    by (cases a) (simp add: push_attrs_Cons parse_attrs_push_nlattr del: push_attrs.simps(2))
qed

section \<open>A request and its parts\<close>

lemma length_build_packet:
  "length (build_packet_genl_msg ty flags seq pid cmd version attrs)
     = 20 + length (push_attrs [] attrs)"
  by (simp add: build_packet_genl_msg_def Let_def codec_simps)

lemma build_packet_split:
  "build_packet_genl_msg ty flags seq pid cmd version attrs =
     enc_NlmsghdrRaw
       \<lparr>nlmsg_len = of_nat (20 + length (push_attrs [] attrs)), nlmsg_type = ty,
        nlmsg_flags = flags, nlmsg_seq = seq, nlmsg_pid = pid\<rparr>
     @ enc_GenlmsghdrRaw \<lparr>genl_cmd = cmd, genl_version = version, genl_reserved = 0\<rparr>
     @ push_attrs [] attrs"
  by (simp add: build_packet_genl_msg_def Let_def enc_NlmsghdrRaw_def enc_GenlmsghdrRaw_def)

lemma parse_nlmsghdr_build:
  "parse_nlmsghdr (build_packet_genl_msg ty flags seq pid cmd version attrs @ rest) 0 =
     Some \<lparr>nlmsg_len = of_nat (20 + length (push_attrs [] attrs)), nlmsg_type = ty,
        nlmsg_flags = flags, nlmsg_seq = seq, nlmsg_pid = pid\<rparr>"
  by (simp add: parse_nlmsghdr_def build_packet_split codec_simps)

lemma parse_genlhdr_build:
  "parse_genlhdr (build_packet_genl_msg ty flags seq pid cmd version attrs @ rest) 16 =
     Some \<lparr>genl_cmd = cmd, genl_version = version, genl_reserved = 0\<rparr>"
  by (simp add: parse_genlhdr_def build_packet_split codec_simps)

lemma drop_build_packet:
  "drop 20 (build_packet_genl_msg ty flags seq pid cmd version attrs) = push_attrs [] attrs"
  by (simp add: build_packet_split codec_simps)

section \<open>What the parsers read\<close>

lemma parse_nlmsghdr_Some_iff:
  "parse_nlmsghdr buf off = Some h \<longleftrightarrow> off + 16 \<le> length buf \<and> h = dec_NlmsghdrRaw (drop off buf)"
  by (auto simp: parse_nlmsghdr_def not_less)

text \<open>Every attribute found is a piece of the data, after a header of its own.\<close>

lemma parse_attrs_inside:
  "(t, p) \<in> set (parse_attrs data) \<Longrightarrow>
     \<exists>off. off + 4 + length p \<le> length data \<and> p = field (off + 4) (length p) data"
proof (induction data rule: parse_attrs.induct)
  case (1 data)
  let ?hdr = "dec_NlattrRaw data"
  let ?len = "unat (nla_len ?hdr)"
  have data: "4 \<le> length data" "4 \<le> ?len" "?len \<le> length data"
    using "1.prems" by (subst (asm) parse_attrs.simps; auto simp: Let_def split: if_splits)+
  consider "p = drop 4 (take ?len data)"
    | "nla_align ?len \<le> length data" "(t, p) \<in> set (parse_attrs (drop (nla_align ?len) data))"
    using "1.prems" data
    by (subst (asm) parse_attrs.simps) (auto simp: Let_def not_less split: if_splits)
  then show ?case
  proof cases
    case 1
    then have "p = field (0 + 4) (length p) data" "0 + 4 + length p \<le> length data"
      using data by (auto simp: field_def drop_take)
    then show ?thesis by blast
  next
    case 2
    have "\<exists>off. off + 4 + length p \<le> length (drop (nla_align ?len) data) \<and>
        p = field (off + 4) (length p) (drop (nla_align ?len) data)"
      using "1.IH" [OF _ refl refl _ refl refl _ 2(2)] data 2(1) by auto
    then obtain off where "off + 4 + length p \<le> length (drop (nla_align ?len) data)"
      and "p = field (off + 4) (length p) (drop (nla_align ?len) data)"
      by blast
    then have "(nla_align ?len + off) + 4 + length p \<le> length data \<and>
        p = field ((nla_align ?len + off) + 4) (length p) data"
      using 2(1) by (simp add: field_drop add.assoc)
    then show ?thesis by blast
  qed
qed

text \<open>The pieces do not overlap: the attributes with their headers fit the data.\<close>

lemma parse_attrs_total:
  "(\<Sum>(t, p) \<leftarrow> parse_attrs data. 4 + length p) \<le> length data"
proof (induction data rule: parse_attrs.induct)
  case (1 data)
  let ?hdr = "dec_NlattrRaw data"
  let ?len = "unat (nla_len ?hdr)"
  show ?case
  proof (cases "4 \<le> length data \<and> 4 \<le> ?len \<and> ?len \<le> length data")
    case False
    then have "parse_attrs data = []"
      by (subst parse_attrs.simps) (auto simp: Let_def not_le)
    then show ?thesis by simp
  next
    case True
    then have eq: "parse_attrs data = (nla_type ?hdr, drop 4 (take ?len data))
        # (if nla_align ?len > length data then [] else parse_attrs (drop (nla_align ?len) data))"
      by (subst parse_attrs.simps) (simp add: Let_def not_less)
    have len: "4 + length (drop 4 (take ?len data)) = ?len"
      using True by simp
    show ?thesis
    proof (cases "nla_align ?len > length data")
      case True
      with len \<open>4 \<le> length data \<and> _\<close> show ?thesis
        by (simp add: eq)
    next
      case False
      then have "(\<Sum>(t, p) \<leftarrow> parse_attrs (drop (nla_align ?len) data). 4 + length p)
          \<le> length (drop (nla_align ?len) data)"
        using "1.IH" [OF _ refl refl _ refl refl] True by auto
      with False len nla_align_ge [of ?len] show ?thesis
        by (simp add: eq)
    qed
  qed
qed

section \<open>Properties\<close>

text \<open>
  C28. Building and parsing a request are inverse: the parsers of \<open>netlink.rs\<close>, run on the bytes
  that \<open>build_packet_genl_msg\<close> makes, give back the header fields, a length field equal to
  the packet's length, and the attributes in order, whatever follows the packet.
\<close>

theorem request_round_trip:
  assumes "list_all small_attr attrs"
    and "length (build_packet_genl_msg ty flags seq pid cmd version attrs) < 2 ^ 32"
  shows "let packet = build_packet_genl_msg ty flags seq pid cmd version attrs in
    (\<exists>nlh. parse_nlmsghdr (packet @ rest) 0 = Some nlh \<and> unat (nlmsg_len nlh) = length packet \<and>
       nlmsg_type nlh = ty \<and> nlmsg_flags nlh = flags \<and> nlmsg_seq nlh = seq \<and> nlmsg_pid nlh = pid) \<and>
    parse_genlhdr (packet @ rest) NLMSGHDR_SIZE =
      Some \<lparr>genl_cmd = cmd, genl_version = version, genl_reserved = 0\<rparr> \<and>
    parse_attrs (drop (NLMSGHDR_SIZE + GENLMSGHDR_SIZE) packet) = attrs \<and>
    4 dvd length packet"
proof -
  have "length (push_attrs [] attrs) = (\<Sum>(t, p) \<leftarrow> attrs. nla_align (4 + length p))"
    by (rule length_push_attrs)
  moreover have "4 dvd (\<Sum>(t, p) \<leftarrow> attrs. nla_align (4 + length p))"
    by (induction attrs) auto
  moreover have "unat (of_nat (20 + length (push_attrs [] attrs)) :: u32) = 20 + length (push_attrs [] attrs)"
    using assms(2) by (intro unat_of_nat_small) (simp add: length_build_packet)
  ultimately show ?thesis
    by (simp add: Let_def parse_nlmsghdr_build parse_genlhdr_build drop_build_packet
        parse_attrs_push_attrs [OF assms(1)] length_build_packet)
qed

theorem request_round_trip_witness:
  "parse_attrs (drop 20 (build_packet_genl_msg 29 5 2 0 18 1 [(7, [101, 116, 104, 48, 0]), (3, [])])) =
     [(7, [101, 116, 104, 48, 0]), (3, [])]"
proof -
  have "list_all small_attr [(7, [101, 116, 104, 48, 0]), (3, [])]"
    by (simp add: small_attr_def)
  moreover have "length (build_packet_genl_msg 29 5 2 0 18 1 [(7, [101, 116, 104, 48, 0]), (3, [])]) < 2 ^ 32"
    by (simp add: length_build_packet length_push_attrs nla_align_eq del: push_attrs.simps)
  ultimately show ?thesis
    using request_round_trip [of "[(7, [101, 116, 104, 48, 0]), (3, [])]" 29 5 2 0 18 1 "[]"]
    by (simp add: Let_def)
qed

text \<open>
  Whatever bytes the kernel sends, the attributes found in them are pieces of those bytes,
  each behind a header of its own, and together they take no more room than there is.
\<close>

theorem parse_attrs_in_bounds:
  "(\<forall>(t, p) \<in> set (parse_attrs data).
      \<exists>off. off + NLATTR_SIZE + length p \<le> length data \<and> p = field (off + NLATTR_SIZE) (length p) data) \<and>
   (\<Sum>(t, p) \<leftarrow> parse_attrs data. NLATTR_SIZE + length p) \<le> length data"
  using parse_attrs_inside parse_attrs_total [of data] by fastforce

theorem parse_attrs_in_bounds_witness:
  "(\<Sum>(t, p) \<leftarrow> parse_attrs [6, 0, 1, 0, 28, 0, 0, 0, 9]. 4 + length p) \<le> 9"
  using parse_attrs_in_bounds [of "[6, 0, 1, 0, 28, 0, 0, 0, 9]"] by simp

text \<open>
  The limit of the 16-bit attribute length, which \<open>push_nlattr\<close> does not check: of a payload
  of 65532 to 65535 bytes the receiver finds no attribute at all.
\<close>

theorem oversize_attribute_is_lost:
  assumes "2 ^ 16 \<le> NLATTR_SIZE + length p" "length p < 2 ^ 16"
  shows "parse_attrs (push_nlattr [] t p @ rest) = []"
proof -
  let ?n = "4 + length p"
  have "unat (of_nat ?n :: u16) = ?n mod 2 ^ 16"
    by (simp only: unat_of_nat) simp
  also have "\<dots> = ?n - 2 ^ 16"
    using assms by (simp add: mod_if)
  finally have len: "unat (of_nat ?n :: u16) < 4"
    using assms by simp
  have "dec_NlattrRaw (push_nlattr [] t p @ rest) = \<lparr>nla_len = of_nat ?n, nla_type = t\<rparr>"
    by (simp add: push_nlattr_eq codec_simps)
  with len show ?thesis
    by (subst parse_attrs.simps) (simp add: Let_def)
qed

theorem oversize_attribute_is_lost_witness:
  "parse_attrs (push_nlattr [] 7 (replicate 65533 97) @ []) = []"
  by (rule oversize_attribute_is_lost) simp_all

end
