(* ===== verification/World.thy ===== *)
theory World
  imports Netlink_Codec
begin

text \<open>
  What a run of \<open>ktuctl-rs\<close> sees and does. The kernel side of every netlink connection is a
  script: how \<open>socket\<close>, \<open>bind\<close> and each \<open>send_to\<close> end, and what each \<open>recv_from\<close> yields, in
  order. A connection that has no datagram left blocks in \<open>recv_from\<close>. Scripts range over
  everything a kernel can answer, so a statement for all scripts is a statement for all
  kernels. The effects of the run are a trace of events.
\<close>

datatype event =
    EvConnect             \<comment> \<open>a netlink socket was opened and bound\<close>
  | EvSend bytes          \<comment> \<open>a datagram was sent to the kernel\<close>
  | EvOut string          \<comment> \<open>\<open>print!\<close> or \<open>println!\<close>\<close>
  | EvInfo string         \<comment> \<open>\<open>info!\<close>\<close>
  | EvError string        \<comment> \<open>\<open>error!\<close> or \<open>eprintln!\<close>\<close>

record conn =
  c_socket :: "error option"
  c_bind :: "error option"
  c_tx :: "error option list"
  c_rx :: "(error + bytes) list"

record world =
  w_conns :: "nat \<Rightarrow> conn"
  w_next :: nat
  w_trace :: "event list"

definition emit :: "event \<Rightarrow> world \<Rightarrow> world" where
  "emit e w = w\<lparr>w_trace := w_trace w @ [e]\<rparr>"

text \<open>Effects as computations.\<close>

definition out :: "string \<Rightarrow> (world, unit) comp" where
  "out s = (\<lambda>w. (Ok (), emit (EvOut s) w))"

definition outln :: "string \<Rightarrow> (world, unit) comp" where
  "outln s = out (s @ [CHR 0x0A])"

definition log_info :: "string \<Rightarrow> (world, unit) comp" where
  "log_info s = (\<lambda>w. (Ok (), emit (EvInfo s) w))"

definition log_error :: "string \<Rightarrow> (world, unit) comp" where
  "log_error s = (\<lambda>w. (Ok (), emit (EvError s) w))"

lemma emit_simps [simp]:
  "w_conns (emit e w) = w_conns w" "w_next (emit e w) = w_next w"
  "w_trace (emit e w) = w_trace w @ [e]"
  by (simp_all add: emit_def)

lemma effect_simps [simp]:
  "out s w = (Ok (), emit (EvOut s) w)"
  "log_info s w = (Ok (), emit (EvInfo s) w)"
  "log_error s w = (Ok (), emit (EvError s) w)"
  by (simp_all add: out_def log_info_def log_error_def)

text \<open>The datagrams a trace sent to the kernel, in order.\<close>

fun sent :: "event list \<Rightarrow> bytes list" where
  "sent [] = []"
| "sent (EvSend b # es) = b # sent es"
| "sent (e # es) = sent es"

lemma sent_append [simp]: "sent (es @ fs) = sent es @ sent fs"
  by (induction es rule: sent.induct) simp_all

section \<open>The socket wrapper\<close>

text \<open>
  \<open>struct NetlinkSocket\<close>: the sequence counter, the port id, and the rest of the script of
  its connection.
\<close>

record NetlinkSocket =
  ns_seq :: u32
  ns_pid :: u32
  ns_tx :: "error option list"
  ns_rx :: "(error + bytes) list"

definition connect :: "(world, NetlinkSocket) comp" where
  "connect w =
     (let c = w_conns w (w_next w);
          w = w\<lparr>w_next := Suc (w_next w)\<rparr>
      in case c_socket c of
           Some e \<Rightarrow> (Err (Ctx ''socket(NETLINK_GENERIC) failed'' e), w)
         | None \<Rightarrow>
             (case c_bind c of
                Some e \<Rightarrow> (Err (Ctx ''bind_auto() failed'' e), w)
              | None \<Rightarrow>
                  (Ok \<lparr>ns_seq = 1, ns_pid = 0, ns_tx = c_tx c, ns_rx = c_rx c\<rparr>, emit EvConnect w)))"

definition next_seq :: "NetlinkSocket \<Rightarrow> u32 \<times> NetlinkSocket" where
  "next_seq sock = (ns_seq sock, sock\<lparr>ns_seq := ns_seq sock + 1\<rparr>)"

definition sock_send :: "NetlinkSocket \<Rightarrow> bytes \<Rightarrow> (world, NetlinkSocket) comp" where
  "sock_send sock buf w =
     (case ns_tx sock of
        Some e # tx \<Rightarrow> (Err (Ctx ''netlink send_to failed'' e), w)
      | _ \<Rightarrow> (Ok (sock\<lparr>ns_tx := tl (ns_tx sock)\<rparr>), emit (EvSend buf) w))"

text \<open>The receive buffer holds \<open>65536\<close> bytes; the socket cuts a longer datagram.\<close>

definition RECV_CAP :: nat where "RECV_CAP = 65536"

definition sock_recv :: "NetlinkSocket \<Rightarrow> (bytes \<times> NetlinkSocket) res" where
  "sock_recv sock =
     (case ns_rx sock of
        [] \<Rightarrow> Blocked
      | Inl e # rx \<Rightarrow> Err (Ctx ''netlink recv_from failed'' e)
      | Inr d # rx \<Rightarrow> Ok (take RECV_CAP d, sock\<lparr>ns_rx := rx\<rparr>))"

end
