(* ===== verification/Net_Addr.thy ===== *)
theory Net_Addr
  imports Rust_Std
begin

text \<open>
  The parts of \<open>std::net\<close> that the programs use: IP addresses, socket addresses, their
  display and the parser behind \<open>IpAddr::from_str\<close>; and \<open>addr_to_str\<close> of
  \<open>tuctl-server/src/main.rs\<close> and \<open>tuctl-client/src/main.rs\<close>. An address is its octets.
\<close>

section \<open>Addresses\<close>

datatype IpAddr = V4 bytes | V6 bytes

fun valid_ip :: "IpAddr \<Rightarrow> bool" where
  "valid_ip (V4 bs) \<longleftrightarrow> length bs = 4"
| "valid_ip (V6 bs) \<longleftrightarrow> length bs = 16"

fun is_ipv4 :: "IpAddr \<Rightarrow> bool" where
  "is_ipv4 (V4 _) = True"
| "is_ipv4 (V6 _) = False"

fun is_ipv6 :: "IpAddr \<Rightarrow> bool" where
  "is_ipv6 (V4 _) = False"
| "is_ipv6 (V6 _) = True"

text \<open>A socket address: octets and port, with flow label and scope for IPv6.\<close>

datatype SocketAddr = SockV4 bytes u16 | SockV6 bytes u16 u32 u32

fun sock_ip :: "SocketAddr \<Rightarrow> IpAddr" where
  "sock_ip (SockV4 bs _) = V4 bs"
| "sock_ip (SockV6 bs _ _ _) = V6 bs"

text \<open>\<open>SocketAddr::new(ip, port)\<close>.\<close>

fun sock_new :: "IpAddr \<Rightarrow> u16 \<Rightarrow> SocketAddr" where
  "sock_new (V4 bs) port = SockV4 bs port"
| "sock_new (V6 bs) port = SockV6 bs port 0 0"

section \<open>Display\<close>

fun join :: "string \<Rightarrow> string list \<Rightarrow> string" where
  "join sep [] = []"
| "join sep [s] = s"
| "join sep (s # t # ss) = s @ sep @ join sep (t # ss)"

definition ipv4_display :: "bytes \<Rightarrow> string" where
  "ipv4_display bs = join ''.'' (map show_word bs)"

text \<open>The eight 16-bit groups of the octets.\<close>

fun segments :: "bytes \<Rightarrow> u16 list" where
  "segments (a # b # bs) = from_be [a, b] # segments bs"
| "segments _ = []"

text \<open>
  Start and length of the first longest run of zero groups: \<open>best\<close> and the run that is open,
  with the index of the next group.
\<close>

fun zero_run :: "nat \<times> nat \<Rightarrow> nat \<times> nat \<Rightarrow> nat \<Rightarrow> u16 list \<Rightarrow> nat \<times> nat" where
  "zero_run best cur i [] = best"
| "zero_run (bs, bl) (cs, cl) i (s # ss) =
     (if s = 0 then
        (let cs = (if cl = 0 then i else cs); cl = cl + 1
         in zero_run (if bl < cl then (cs, cl) else (bs, bl)) (cs, cl) (i + 1) ss)
      else zero_run (bs, bl) (0, 0) (i + 1) ss)"

definition groups_display :: "u16 list \<Rightarrow> string" where
  "groups_display gs = join '':'' (map (\<lambda>g. show_hex (unat g)) gs)"

definition ipv6_display :: "bytes \<Rightarrow> string" where
  "ipv6_display bs =
     (if take 12 bs = replicate 10 0 @ [0xFF, 0xFF] then ''::ffff:'' @ ipv4_display (drop 12 bs)
      else (let gs = segments bs; (start, len) = zero_run (0, 0) (0, 0) 0 gs in
            if 1 < len then groups_display (take start gs) @ ''::'' @ groups_display (drop (start + len) gs)
            else groups_display gs))"

fun ip_display :: "IpAddr \<Rightarrow> string" where
  "ip_display (V4 bs) = ipv4_display bs"
| "ip_display (V6 bs) = ipv6_display bs"

text \<open>\<open>Ipv6Addr::to_ipv4\<close>: mapped and compatible addresses.\<close>

definition to_ipv4 :: "bytes \<Rightarrow> bytes option" where
  "to_ipv4 bs =
     (if take 10 bs = replicate 10 0 \<and> (take 2 (drop 10 bs) = [0, 0] \<or> take 2 (drop 10 bs) = [0xFF, 0xFF])
      then Some (drop 12 bs) else None)"

section \<open>\<open>addr_to_str\<close>\<close>

fun addr_to_str :: "SocketAddr \<Rightarrow> string" where
  "addr_to_str (SockV4 ip port) = ''['' @ ipv4_display ip @ '']:'' @ show_word port"
| "addr_to_str (SockV6 ip port _ _) = ''['' @ ipv6_display ip @ '']:'' @ show_word port"

fun client_addr_to_str :: "SocketAddr \<Rightarrow> string" where
  "client_addr_to_str (SockV4 ip port) = ''['' @ ipv4_display ip @ '']:'' @ show_word port"
| "client_addr_to_str (SockV6 ip port _ _) = ''['' @ ipv6_display ip @ '']:'' @ show_word port"

section \<open>The address parser\<close>

text \<open>A parser consumes a prefix or fails without consuming.\<close>

type_synonym 'a parser = "string \<Rightarrow> ('a \<times> string) option"

definition given_char :: "char \<Rightarrow> unit parser" where
  "given_char c s = (case s of [] \<Rightarrow> None | d # r \<Rightarrow> if d = c then Some ((), r) else None)"

text \<open>\<open>read_separator(sep, index, inner)\<close>: the separator comes before every element but the first.\<close>

definition read_separator :: "char \<Rightarrow> nat \<Rightarrow> 'a parser \<Rightarrow> 'a parser" where
  "read_separator sep i inner s =
     (if 0 < i then (case given_char sep s of None \<Rightarrow> None | Some (_, r) \<Rightarrow> inner r)
      else inner s)"

text \<open>
  \<open>read_number(radix, Some(max_digits), allow_zero_prefix)\<close> into a type with greatest value
  \<open>mx\<close>.
\<close>

definition read_number :: "nat \<Rightarrow> nat \<Rightarrow> bool \<Rightarrow> nat \<Rightarrow> nat parser" where
  "read_number radix max_digits allow_zero_prefix mx s =
     (let ds = takeWhile (\<lambda>c. to_digit radix c \<noteq> None) s;
          n = foldl (\<lambda>acc c. acc * radix + the (to_digit radix c)) 0 ds
      in if ds = [] \<or> max_digits < length ds \<or> mx < n \<or>
            (\<not> allow_zero_prefix \<and> hd ds = CHR ''0'' \<and> 1 < length ds)
         then None else Some (n, drop (length ds) s))"

fun read_octets :: "nat \<Rightarrow> nat \<Rightarrow> bytes parser" where
  "read_octets i 0 s = Some ([], s)"
| "read_octets i (Suc k) s =
     (case read_separator (CHR ''.'') i (read_number 10 3 False 255) s of
        None \<Rightarrow> None
      | Some (n, r) \<Rightarrow>
          (case read_octets (i + 1) k r of
             None \<Rightarrow> None
           | Some (bs, r) \<Rightarrow> Some (of_nat n # bs, r)))"

definition read_ipv4_addr :: "bytes parser" where
  "read_ipv4_addr = read_octets 0 4"

text \<open>
  \<open>read_groups\<close> with room for \<open>limit\<close> groups: the octets of the groups read, whether they end
  with an IPv4 address, and the rest.
\<close>

fun read_groups :: "nat \<Rightarrow> nat \<Rightarrow> string \<Rightarrow> bytes \<times> bool \<times> string" where
  "read_groups i 0 s = ([], False, s)"
| "read_groups i (Suc room) s =
     (case (if 0 < room then read_separator (CHR '':'') i read_ipv4_addr s else None) of
        Some (v4, r) \<Rightarrow> (v4, True, r)
      | None \<Rightarrow>
          (case read_separator (CHR '':'') i (read_number 16 4 True 65535) s of
             None \<Rightarrow> ([], False, s)
           | Some (n, r) \<Rightarrow>
               (case read_groups (i + 1) room r of
                  (bs, v4, r) \<Rightarrow> (to_be 2 (of_nat n :: u16) @ bs, v4, r))))"

definition read_ipv6_addr :: "bytes parser" where
  "read_ipv6_addr s =
     (case read_groups 0 8 s of (head, head_ipv4, r) \<Rightarrow>
        if length head = 16 then Some (head, r)
        else if head_ipv4 then None
        else (case given_char (CHR '':'') r of
                None \<Rightarrow> None
              | Some (_, r) \<Rightarrow>
                  (case given_char (CHR '':'') r of
                     None \<Rightarrow> None
                   | Some (_, r) \<Rightarrow>
                       (case read_groups 0 (8 - (length head div 2 + 1)) r of
                          (tail, _, r) \<Rightarrow>
                            Some (head @ replicate (16 - length head - length tail) 0 @ tail, r)))))"

text \<open>\<open>IpAddr::from_str\<close>: all of the text must be consumed.\<close>

definition ip_from_str :: "string \<Rightarrow> IpAddr option" where
  "ip_from_str s =
     (case read_ipv4_addr s of
        Some (bs, r) \<Rightarrow> if r = [] then Some (V4 bs) else None
      | None \<Rightarrow>
          (case read_ipv6_addr s of
             Some (bs, r) \<Rightarrow> if r = [] then Some (V6 bs) else None
           | None \<Rightarrow> None))"

section \<open>Facts\<close>

lemma client_addr_to_str_eq [simp]: "client_addr_to_str a = addr_to_str a"
  by (cases a) simp_all

lemma parse_digits_foldl:
  "parse_digits radix mx acc cs = Inr n \<Longrightarrow>
     (\<forall>c \<in> set cs. to_digit radix c \<noteq> None) \<and>
     foldl (\<lambda>acc c. acc * radix + the (to_digit radix c)) acc cs = n"
  by (induction cs arbitrary: acc) (auto split: option.splits if_splits)

lemma digit_char_0: "d < 10 \<Longrightarrow> digit_char d = CHR ''0'' \<longleftrightarrow> d = 0"
  by (auto simp: digit_char_def char_of_eq_iff take_bit_nat_eq_self)

lemma show_octet:
  assumes "n < 256"
  shows "length (show_nat n) \<le> 3 \<and> (hd (show_nat n) = CHR ''0'' \<longrightarrow> length (show_nat n) \<le> 1)"
proof -
  consider "n < 10" | "10 \<le> n" "n div 10 < 10" | "10 \<le> n div 10" "n div 10 div 10 < 10"
    using assms by linarith
  then show ?thesis
  proof cases
    case 1
    then show ?thesis
      by (simp add: show_nat_def show_radix.simps [of 10 n])
  next
    case 2
    then have "n div 10 \<noteq> 0" by simp
    with 2 show ?thesis
      by (simp add: show_nat_def show_radix.simps [of 10 n] show_radix.simps [of 10 "n div 10"] digit_char_0)
  next
    case 3
    then have "n div 10 div 10 \<noteq> 0" by simp
    with 3 show ?thesis
      by (simp add: show_nat_def show_radix.simps [of 10 n] show_radix.simps [of 10 "n div 10"]
          show_radix.simps [of 10 "n div 10 div 10"] digit_char_0)
  qed
qed

lemma read_number_show:
  assumes "r = [] \<or> to_digit 10 (hd r) = None"
  shows "read_number 10 3 False 255 (show_word (b :: u8) @ r) = Some (unat b, r)"
proof -
  let ?s = "show_nat (unat b)"
  have b: "unat b < 256"
    using unsigned_less [of b, where 'a = nat] by simp
  then have "parse_digits 10 255 0 ?s = Inr (unat b)"
    unfolding show_nat_def by (intro parse_digits_show_radix) simp_all
  from parse_digits_foldl [OF this]
  have d: "\<forall>c \<in> set ?s. to_digit 10 c \<noteq> None"
    and v: "foldl (\<lambda>acc c. acc * 10 + the (to_digit 10 c)) 0 ?s = unat b"
    by auto
  have "takeWhile (\<lambda>c. to_digit 10 c \<noteq> None) (?s @ r) = ?s"
    using d assms by (cases r) auto
  moreover have "?s \<noteq> []"
    using set_show_radix [of 10 "unat b"] by (simp add: show_nat_def)
  ultimately show ?thesis
    using b show_octet [OF b] v by (auto simp: read_number_def Let_def show_word_def)
qed

lemma to_digit_dot [simp]: "to_digit 10 CHR ''.'' = None"
  by (simp add: to_digit_def digit_val_def)

lemma ip_from_str_ipv4_display:
  assumes "length bs = 4"
  shows "ip_from_str (ipv4_display bs) = Some (V4 bs)"
proof -
  obtain a b c d where bs: "bs = [a, b, c, d]"
    using assms by (auto simp: length_Suc_conv numeral_eq_Suc)
  have n: "read_number 10 3 False 255 (show_word (x :: u8) @ CHR ''.'' # r) = Some (unat x, CHR ''.'' # r)"
    for x r by (rule read_number_show) simp
  have e: "read_number 10 3 False 255 (show_word (x :: u8)) = Some (unat x, [])" for x
    using read_number_show [of "[]" x] by simp
  have four: "4 = Suc (Suc (Suc (Suc 0)))" by simp
  have "read_ipv4_addr (ipv4_display bs) = Some (bs, [])"
    by (simp only: read_ipv4_addr_def ipv4_display_def bs four)
      (simp add: read_separator_def given_char_def n e)
  then show ?thesis
    by (simp add: ip_from_str_def)
qed

end
