(* ===== verification/Text_Facts.thy ===== *)
theory Text_Facts
  imports Net_Addr
begin

text \<open>
  Facts about trimming, splitting and joining of ASCII text, for the readers of text files and
  scripts. A word is a non-empty string of graphic ASCII characters.
\<close>

definition word_char :: "char \<Rightarrow> bool" where
  "word_char c \<longleftrightarrow> (let n = (of_char c :: nat) in 33 \<le> n \<and> n < 127)"

definition is_word :: "string \<Rightarrow> bool" where
  "is_word s \<longleftrightarrow> s \<noteq> [] \<and> list_all word_char s"

lemma of_char_char_of_byte: "(of_char (char_of_byte b) :: nat) = unat b"
  using unsigned_less [of b, where 'a = nat] by (simp add: char_of_byte_def)

lemma is_ws_single: "is_ws [c] \<longleftrightarrow> c \<in> char_of_byte ` {9, 10, 11, 12, 13, 32}"
  by (auto simp: is_ws_def ws_chars_def)

lemma not_ws_word: "word_char c \<Longrightarrow> \<not> is_ws [c]"
  by (auto simp: is_ws_single word_char_def of_char_char_of_byte)

lemma is_ws_space: "is_ws '' ''"
  by code_simp

lemma is_ascii_append [simp]: "is_ascii (s @ t) \<longleftrightarrow> is_ascii s \<and> is_ascii t"
  by (auto simp: is_ascii_def)

lemma byte_less_128: "(byte_of_char c < 0x80) = ((of_char c :: nat) < 128)"
proof -
  have "unat (byte_of_char c) = (of_char c :: nat)"
    using of_char_char_of_byte [of "byte_of_char c"] by simp
  then show ?thesis
    by (simp add: word_less_nat_alt)
qed

lemma is_ascii_chars: "is_ascii s \<longleftrightarrow> (\<forall>c \<in> set s. (of_char c :: nat) < 128)"
  by (simp add: is_ascii_def byte_less_128)

lemma word_char_ascii: "list_all word_char s \<Longrightarrow> is_ascii s"
  by (auto simp: is_ascii_chars list_all_iff word_char_def Let_def)

lemma is_word_ascii: "is_word s \<Longrightarrow> is_ascii s"
  by (simp add: is_word_def word_char_ascii)

section \<open>Trimming\<close>

lemma dropWhile_ws_word:
  "s \<noteq> [] \<Longrightarrow> word_char (hd s) \<Longrightarrow> dropWhile is_ws (map (\<lambda>c. [c]) s @ gs) = map (\<lambda>c. [c]) s @ gs"
  by (cases s) (simp_all add: not_ws_word)

lemma concat_singletons: "concat (map (\<lambda>c. [c]) s) = s"
  by (induction s) simp_all

lemma str_trim_word:
  assumes "is_ascii s" and "s \<noteq> []" and "word_char (hd s)" and "word_char (last s)"
  shows "str_trim s = s" and "str_trim (s @ '' '') = s"
proof -
  let ?g = "map (\<lambda>c. [c])"
  have u: "utf8_chars s = ?g s" "utf8_chars (s @ '' '') = ?g s @ ['' '']"
    using assms(1) utf8_chars_ascii [of "s @ '' ''"] by (simp_all add: utf8_chars_ascii is_ascii_chars)
  have l: "dropWhile is_ws (?g s) = ?g s" "dropWhile is_ws (?g s @ ['' '']) = ?g s @ ['' '']"
    using dropWhile_ws_word [OF assms(2,3), of "[]"] dropWhile_ws_word [OF assms(2,3), of "['' '']"] by simp_all
  have "dropWhile is_ws (?g (rev s)) = ?g (rev s)"
    using dropWhile_ws_word [of "rev s" "[]"] assms(2,4) by (simp add: hd_rev)
  then have r: "dropWhile is_ws (rev (?g s)) = rev (?g s)"
    by (simp add: rev_map)
  show "str_trim s = s"
    by (simp add: str_trim_def u l r concat_singletons)
  show "str_trim (s @ '' '') = s"
    by (simp add: str_trim_def u l r is_ws_space concat_singletons)
qed

lemma str_trim_Nil: "str_trim [] = []"
  by (simp add: str_trim_def)

section \<open>Splitting at white space\<close>

lemma takeWhile_word: "list_all word_char s \<Longrightarrow> takeWhile (\<lambda>h. \<not> is_ws h) (map (\<lambda>c. [c]) s @ gs) =
    map (\<lambda>c. [c]) s @ takeWhile (\<lambda>h. \<not> is_ws h) gs"
  by (induction s) (simp_all add: not_ws_word)

lemma dropWhile_word: "list_all word_char s \<Longrightarrow> dropWhile (\<lambda>h. \<not> is_ws h) (map (\<lambda>c. [c]) s @ gs) =
    dropWhile (\<lambda>h. \<not> is_ws h) gs"
  by (induction s) (simp_all add: not_ws_word)

lemma split_ws_word:
  assumes "is_word s"
  shows "split_ws (map (\<lambda>c. [c]) s) = [s]" and "split_ws (map (\<lambda>c. [c]) s @ '' '' # gs) = s # split_ws gs"
proof -
  obtain c t where s: "s = c # t" and c: "word_char c" and t: "list_all word_char t"
    using assms by (cases s) (auto simp: is_word_def)
  have d: "dropWhile is_ws (map (\<lambda>c. [c]) s) = [c] # map (\<lambda>c. [c]) t"
    "dropWhile is_ws (map (\<lambda>c. [c]) s @ gs) = [c] # map (\<lambda>c. [c]) t @ gs" for gs
    by (simp_all add: s not_ws_word [OF c])
  have tw: "takeWhile (\<lambda>h. \<not> is_ws h) (map (\<lambda>c. [c]) t) = map (\<lambda>c. [c]) t"
    and dw: "dropWhile (\<lambda>h. \<not> is_ws h) (map (\<lambda>c. [c]) t) = []"
    using takeWhile_word [OF t, of "[]"] dropWhile_word [OF t, of "[]"]
    by (simp_all only: append_Nil2 takeWhile.simps dropWhile.simps)
  have e: "split_ws [] = []"
    by (subst split_ws.simps) simp
  have sp: "split_ws ('' '' # gs) = split_ws gs"
    by (subst (1 2) split_ws.simps) (simp add: is_ws_space)
  show "split_ws (map (\<lambda>c. [c]) s) = [s]"
    unfolding split_ws.simps [of "map (\<lambda>c. [c]) s"] d(1) list.case tw dw e
    by (simp add: s concat_singletons)
  show "split_ws (map (\<lambda>c. [c]) s @ '' '' # gs) = s # split_ws gs"
    using takeWhile_word [OF t, of "'' '' # gs"] dropWhile_word [OF t, of "'' '' # gs"]
    unfolding split_ws.simps [of "map (\<lambda>c. [c]) s @ '' '' # gs"] d(2)
    by (simp add: s concat_singletons is_ws_space sp)
qed

lemma is_ascii_space: "is_ascii []" "is_ascii (CHR '' '' # s) \<longleftrightarrow> is_ascii s"
  by (simp_all add: is_ascii_chars)

lemma is_ascii_join: "list_all is_word ws \<Longrightarrow> is_ascii (join '' '' ws)"
  by (induction "'' '' :: string" ws rule: join.induct) (simp_all add: is_word_ascii is_ascii_space)

lemma split_whitespace_words: "list_all is_word ws \<Longrightarrow> split_whitespace (join '' '' ws) = ws"
proof (induction "'' '' :: string" ws rule: join.induct)
  case 1
  show ?case
    by (simp add: split_whitespace_def) (subst split_ws.simps, simp)
next
  case (2 s)
  then show ?case
    by (simp add: split_whitespace_def utf8_chars_ascii is_word_ascii split_ws_word(1))
next
  case (3 s t ss)
  have a: "is_ascii (s @ '' '' @ join '' '' (t # ss))"
    using is_ascii_join [OF 3(2)] by simp
  have b: "is_ascii (join '' '' (t # ss))"
    using is_ascii_join [of "t # ss"] 3(2) by simp
  show ?case
    using 3 utf8_chars_ascii [OF a] utf8_chars_ascii [OF b] split_ws_word(2) [of s]
    by (simp add: split_whitespace_def)
qed

section \<open>Words\<close>

lemma word_char_digit: "d < 16 \<Longrightarrow> word_char (digit_char d)"
  by (auto simp: word_char_def digit_char_def Let_def)

lemma show_radix_word:
  assumes "1 < radix" and "radix \<le> 16"
  shows "is_word (show_radix radix n)"
proof -
  have "word_char c" if "c \<in> set (show_radix radix n)" for c
    using that set_show_radix [of radix n] assms word_char_digit by fastforce
  then show ?thesis
    using set_show_radix [of radix n] assms by (simp add: is_word_def list_all_iff)
qed

lemma show_word_word: "is_word (show_word w)" "is_word (show_nat n)"
  by (simp_all add: show_word_def show_nat_def show_radix_word)

text \<open>The characters of a number.\<close>

lemma show_word_digits: "c \<in> set (show_word w) \<Longrightarrow> 48 \<le> (of_char c :: nat) \<and> (of_char c :: nat) < 58"
proof -
  have "(of_char (digit_char d) :: nat) = 48 + d" if "d < 10" for d
    using that by (simp add: digit_char_def)
  moreover assume "c \<in> set (show_word w)"
  ultimately show ?thesis
    using set_show_radix [of 10 "unat w"] by (auto simp: show_word_def show_nat_def)
qed

section \<open>Blanks\<close>

text \<open>Spaces and tabs between the words of a line.\<close>

definition is_gap :: "string \<Rightarrow> bool" where
  "is_gap s \<longleftrightarrow> list_all (\<lambda>c. c = CHR '' '' \<or> c = CHR 0x09) s"

text \<open>A line of words, each with the blanks before it.\<close>

definition spaced :: "(string \<times> string) list \<Rightarrow> string" where
  "spaced ws = concat (map (\<lambda>(g, w). g @ w) ws)"

definition spaced_ok :: "(string \<times> string) list \<Rightarrow> bool" where
  "spaced_ok ws \<longleftrightarrow> list_all (\<lambda>(g, w). is_gap g \<and> is_word w) ws \<and> list_all (\<lambda>(g, w). g \<noteq> []) (tl ws)"

lemma is_ws_gap: "is_gap g \<Longrightarrow> list_all is_ws (map (\<lambda>c. [c]) g)"
proof -
  have "is_ws '' ''" "is_ws [CHR 0x09]"
    by code_simp+
  then show "is_gap g \<Longrightarrow> list_all is_ws (map (\<lambda>c. [c]) g)"
    by (induction g) (auto simp: is_gap_def)
qed

lemma is_ascii_gap: "is_gap g \<Longrightarrow> is_ascii g"
  by (induction g) (auto simp: is_gap_def is_ascii_chars)

lemma is_gap_rev: "is_gap (rev g) = is_gap g"
  by (simp add: is_gap_def)

lemma dropWhile_gap:
  assumes "is_gap g"
  shows "dropWhile is_ws (map (\<lambda>c. [c]) g @ gs) = dropWhile is_ws gs"
  using is_ws_gap [OF assms] by (induction g) (simp_all add: dropWhile_append2 list_all_iff)

lemma str_trim_gaps:
  assumes "is_gap g" and "is_gap h" and "is_ascii s" and "s \<noteq> []" and "word_char (hd s)" and "word_char (last s)"
  shows "str_trim (g @ s @ h) = s"
proof -
  let ?g = "map (\<lambda>c. [c])"
  have "is_ascii (g @ s @ h)"
    using assms(1-3) by (simp add: is_ascii_gap)
  from utf8_chars_ascii [OF this] have "dropWhile is_ws (utf8_chars (g @ s @ h)) = ?g (s @ h)"
    using dropWhile_ws_word [OF assms(4,5), of "?g h"] by (simp add: dropWhile_gap [OF assms(1)])
  moreover have "dropWhile is_ws (rev (?g (s @ h))) = rev (?g s)"
    using dropWhile_ws_word [of "rev s" "[]"] assms(4,6) dropWhile_gap [of "rev h" "?g (rev s)"]
    by (simp add: hd_rev is_gap_rev assms(2) rev_map)
  ultimately show ?thesis
    by (simp add: str_trim_def concat_singletons)
qed

lemma str_trim_gap:
  assumes "is_gap g"
  shows "str_trim g = []"
proof -
  have "dropWhile is_ws (map (\<lambda>c. [c]) g) = []"
    using dropWhile_gap [OF assms, of "[]"] by (simp only: append_Nil2 dropWhile.simps)
  then show ?thesis
    by (simp only: str_trim_def utf8_chars_ascii [OF is_ascii_gap [OF assms]]) simp
qed

lemma split_ws_gap: "is_gap g \<Longrightarrow> split_ws (map (\<lambda>c. [c]) g @ gs) = split_ws gs"
  by (simp add: split_ws.simps [of "map (\<lambda>c. [c]) g @ gs"] split_ws.simps [of gs] dropWhile_gap)

lemma split_ws_word_gap:
  assumes "is_word s" and "is_gap g" and "g \<noteq> []"
  shows "split_ws (map (\<lambda>c. [c]) s @ map (\<lambda>c. [c]) g @ gs) = s # split_ws gs"
proof -
  obtain c t where s: "s = c # t" and c: "word_char c" and t: "list_all word_char t"
    using assms(1) by (cases s) (auto simp: is_word_def)
  let ?r = "map (\<lambda>c. [c]) g @ gs"
  have r: "takeWhile (\<lambda>h. \<not> is_ws h) ?r = []" "dropWhile (\<lambda>h. \<not> is_ws h) ?r = ?r"
    using is_ws_gap [OF assms(2)] assms(3) by (cases g; simp)+
  have d: "dropWhile is_ws (map (\<lambda>c. [c]) s @ ?r) = [c] # map (\<lambda>c. [c]) t @ ?r"
    by (simp add: s not_ws_word [OF c])
  show ?thesis
    using takeWhile_word [OF t, of ?r] dropWhile_word [OF t, of ?r]
    unfolding split_ws.simps [of "map (\<lambda>c. [c]) s @ ?r"] d list.case r
    by (simp add: s concat_singletons split_ws_gap [OF assms(2)])
qed

lemma spaced_simps: "spaced [] = []" "spaced ((g, w) # ws) = g @ w @ spaced ws"
  by (simp_all add: spaced_def)

lemma is_ascii_spaced: "spaced_ok ws \<Longrightarrow> is_ascii (spaced ws)"
proof -
  have "list_all (\<lambda>(g, w). is_gap g \<and> is_word w) ws \<Longrightarrow> is_ascii (spaced ws)"
    by (induction ws) (auto simp: spaced_def is_ascii_gap is_word_ascii is_ascii_space)
  then show "spaced_ok ws \<Longrightarrow> is_ascii (spaced ws)"
    by (simp add: spaced_ok_def)
qed

lemma last_spaced:
  "list_all (\<lambda>(g, w). is_word w) ws \<Longrightarrow> ws \<noteq> [] \<Longrightarrow> spaced ws \<noteq> [] \<and> word_char (last (spaced ws))"
proof (induction ws)
  case (Cons x ws)
  obtain g w where x: "x = (g, w)" by (cases x)
  have "w \<noteq> []" "word_char (last w)"
    using Cons.prems(1) by (auto simp: x is_word_def list_all_iff)
  with Cons show ?case
    by (cases "ws = []") (auto simp: x spaced_simps)
qed simp

lemma split_ws_spaced:
  "list_all (\<lambda>(g, w). is_gap g \<and> g \<noteq> [] \<and> is_word w) ws \<Longrightarrow> is_word w \<Longrightarrow>
     split_ws (map (\<lambda>c. [c]) (w @ spaced ws)) = w # map snd ws"
proof (induction ws arbitrary: w)
  case Nil
  then show ?case by (simp add: spaced_simps split_ws_word(1))
next
  case (Cons x ws)
  obtain g v where x: "x = (g, v)" by (cases x)
  have "is_gap g" "g \<noteq> []" "is_word v" "list_all (\<lambda>(g, w). is_gap g \<and> g \<noteq> [] \<and> is_word w) ws"
    using Cons.prems(1) by (simp_all add: x)
  with Cons.IH [of v] Cons.prems(2) show ?case
    by (simp add: x spaced_simps split_ws_word_gap)
qed

text \<open>What trimming and splitting make of such a line.\<close>

lemma spaced_line:
  assumes "spaced_ok ws" and "is_gap h"
  shows "str_trim (spaced ws @ h) = [] \<longleftrightarrow> ws = []"
    and "split_whitespace (str_trim (spaced ws @ h)) = map snd ws"
proof -
  have "(str_trim (spaced ws @ h) = [] \<longleftrightarrow> ws = []) \<and> split_whitespace (str_trim (spaced ws @ h)) = map snd ws"
  proof (cases ws)
    case Nil
    then show ?thesis
      using str_trim_gap [OF assms(2)] by (simp add: spaced_simps split_whitespace_def split_ws.simps)
  next
    case (Cons x vs)
    obtain g w where x: "x = (g, w)" by (cases x)
    let ?s = "w @ spaced vs"
    have ok: "is_gap g" "is_word w" "list_all (\<lambda>(g, w). is_gap g \<and> g \<noteq> [] \<and> is_word w) vs"
      using assms(1) by (auto simp: spaced_ok_def Cons x list_all_iff)
    have s: "?s = spaced (([], w) # vs)" "spaced_ok (([], w) # vs)"
      using assms(1) by (auto simp: spaced_simps spaced_ok_def Cons x is_gap_def)
    have a: "is_ascii ?s"
      using is_ascii_spaced [OF s(2)] by (simp only: s(1))
    have w: "w \<noteq> []" "word_char (hd w)"
      using ok(2) by (auto simp: is_word_def list_all_iff)
    have "list_all (\<lambda>(g, w). is_word w) (([], w) # vs)"
      using ok by (auto simp: list_all_iff)
    from last_spaced [OF this] have "word_char (last ?s)"
      by (simp add: spaced_simps)
    with w have t: "str_trim (spaced ws @ h) = ?s"
      using str_trim_gaps [OF ok(1) assms(2) a] by (simp add: Cons x spaced_simps)
    show ?thesis
      using split_ws_spaced [OF ok(3,2)] w(1) unfolding t by (simp add: split_whitespace_def utf8_chars_ascii [OF a] Cons x)
  qed
  then show "str_trim (spaced ws @ h) = [] \<longleftrightarrow> ws = []"
    "split_whitespace (str_trim (spaced ws @ h)) = map snd ws"
    by blast+
qed

section \<open>Lines\<close>

lemma raw_lines_join:
  assumes "list_all (\<lambda>l. 10 \<notin> set l \<and> (l = [] \<or> last l \<noteq> 13)) ls"
  shows "raw_lines (concat (map (\<lambda>l. l @ [10]) ls)) = ls"
  using assms
proof (induction ls)
  case Nil
  show ?case by (simp add: raw_lines.simps)
next
  case (Cons l ls)
  let ?r = "concat (map (\<lambda>l. l @ [10]) ls)"
  have t: "takeWhile (\<lambda>b. b \<noteq> 10) (l @ 10 # ?r) = l" and d: "dropWhile (\<lambda>b. b \<noteq> 10) (l @ 10 # ?r) = 10 # ?r"
    using Cons.prems by (auto simp: takeWhile_append dropWhile_append)
  have "raw_lines (l @ 10 # ?r) = l # raw_lines ?r"
    unfolding raw_lines.simps [of "l @ 10 # ?r"] t d using Cons.prems by (auto simp: Let_def)
  with Cons show ?case by simp
qed

definition text_line :: "string \<Rightarrow> bool" where
  "text_line l \<longleftrightarrow> is_ascii l \<and> CHR 0x0A \<notin> set l \<and> (l = [] \<or> last l \<noteq> CHR 0x0D)"

lemma byte_of_char_eq_iff: "byte_of_char c = byte_of_char d \<longleftrightarrow> c = d"
  by (metis char_of_byte_of_char)

lemma byte_newline: "byte_of_char (CHR 0x0A) = 10" "byte_of_char (CHR 0x0D) = 13"
  by code_simp+

lemma reader_lines_text:
  assumes "list_all text_line ls"
  shows "reader_lines (as_bytes (concat (map (\<lambda>l. l @ nl) ls))) = map Ok ls"
proof -
  have b: "10 \<notin> set (as_bytes l)" "as_bytes l = [] \<or> last (as_bytes l) \<noteq> 13" "utf8_valid (as_bytes l)" if "text_line l" for l
    using that by (auto simp: text_line_def as_bytes_def last_map image_iff utf8_valid_as_bytes_ascii [unfolded as_bytes_def]
        byte_of_char_eq_iff simp flip: byte_newline)
  have "as_bytes (concat (map (\<lambda>l. l @ nl) ls)) = concat (map (\<lambda>l. l @ [10]) (map as_bytes ls))"
    by (simp add: as_bytes_def map_concat comp_def byte_newline)
  moreover have "raw_lines (concat (map (\<lambda>l. l @ [10]) (map as_bytes ls))) = map as_bytes ls"
    using assms b by (intro raw_lines_join) (auto simp: list_all_iff)
  ultimately show ?thesis
    using assms b by (simp add: reader_lines_def list_all_iff as_bytes_def comp_def)
qed

end
