(* ===== verification/Uid_Map.thy ===== *)
theory Uid_Map
  imports World Text_Facts
begin

text \<open>
  \<open>ktuctl-rs/src/uid_map.rs\<close>: the map from user ids to host names and the reader of its file.
  The iteration order of a \<open>HashMap\<close> is not specified; it is the parameter \<open>iter\<close>, which lists
  the keys of a map in some order (\<open>lists_keys\<close>).
\<close>

section \<open>Files\<close>

text \<open>What a run sees of the file system: which paths exist and what opening and reading one yields.\<close>

record fs =
  fs_exists :: "string \<Rightarrow> bool"
  fs_open :: "string \<Rightarrow> error + bytes"

text \<open>A run begins without any output.\<close>

definition world_start :: world where
  "world_start = \<lparr>w_conns = (\<lambda>_. \<lparr>c_socket = None, c_bind = None, c_tx = [], c_rx = []\<rparr>), w_next = 0, w_trace = []\<rparr>"

section \<open>The map\<close>

record UidMap =
  hostnames :: "u8 \<rightharpoonup> string"

definition uid_map_new :: UidMap where
  "uid_map_new = \<lparr>hostnames = Map.empty\<rparr>"

text \<open>The body of the loop for line number \<open>line_no\<close>.\<close>

definition load_line :: "nat \<Rightarrow> string \<Rightarrow> UidMap \<times> world \<Rightarrow> UidMap \<times> world" where
  "load_line line_no line s =
     (let (m, w) = s;
          line = str_trim (hd (str_split (CHR ''#'') line))
      in if line = [] then (m, w)
         else (case split_whitespace line of
             uid # hostname # _ \<Rightarrow>
               (case parse_u8 uid of
                  Inl e \<Rightarrow>
                    (m, emit (EvError (''UID Map Warning: Invalid UID '' @ quoted uid @ '' at line '' @
                       show_nat (line_no + 1) @ '': '' @ int_error_display e)) w)
                | Inr u \<Rightarrow>
                    (m\<lparr>hostnames := (hostnames m)(u \<mapsto> hostname)\<rparr>,
                     case hostnames m u of
                       Some old \<Rightarrow>
                         emit (EvError (''UID Map Warning: Duplicated UID '' @ show_word u @ '' at line '' @
                           show_nat (line_no + 1) @ '', overwriting '' @ quoted old @ '' with '' @
                           quoted hostname)) w
                     | None \<Rightarrow> w))
           | _ \<Rightarrow>
               (m, emit (EvError (''UID Map Warning: Malformed line '' @ show_nat (line_no + 1) @
                  '': needs '' @ quoted ''UID HOSTNAME'')) w)))"

fun load_lines :: "nat \<Rightarrow> string res list \<Rightarrow> (UidMap \<times> world, unit) comp" where
  "load_lines line_no [] s = (Ok (), s)"
| "load_lines line_no (l # ls) s =
     (case l of
        Ok line \<Rightarrow> load_lines (line_no + 1) ls (load_line line_no line s)
      | Err e \<Rightarrow> (Err e, s)
      | Panic \<Rightarrow> (Panic, s)
      | Blocked \<Rightarrow> (Blocked, s))"

definition load :: "fs \<Rightarrow> string \<Rightarrow> (UidMap \<times> world, unit) comp" where
  "load files path s =
     (if \<not> fs_exists files path then (Ok (), s)
      else (case fs_open files path of
              Inl e \<Rightarrow> (Err e, s)
            | Inr content \<Rightarrow> load_lines 0 (reader_lines content) (uid_map_new, snd s)))"

definition get_host :: "UidMap \<Rightarrow> u8 \<Rightarrow> string option" where
  "get_host m uid = hostnames m uid"

fun first_uid :: "(u8 \<rightharpoonup> string) \<Rightarrow> string \<Rightarrow> u8 list \<Rightarrow> u8 option" where
  "first_uid m name [] = None"
| "first_uid m name (u # us) = (if m u = Some name then Some u else first_uid m name us)"

definition get_uid :: "((u8 \<rightharpoonup> string) \<Rightarrow> u8 list) \<Rightarrow> UidMap \<Rightarrow> string \<Rightarrow> u8 option" where
  "get_uid iter m name = first_uid (hostnames m) name (iter (hostnames m))"

section \<open>Lookup by name\<close>

definition lists_keys :: "((u8 \<rightharpoonup> string) \<Rightarrow> u8 list) \<Rightarrow> bool" where
  "lists_keys iter \<longleftrightarrow> (\<forall>m. set (iter m) = dom m)"

lemma first_uid_Some: "first_uid m name us = Some u \<Longrightarrow> u \<in> set us \<and> m u = Some name"
  by (induction us) (auto split: if_splits)

lemma first_uid_None: "first_uid m name us = None \<longleftrightarrow> (\<forall>u \<in> set us. m u \<noteq> Some name)"
  by (induction us) auto

lemma get_uid_Some: "get_uid iter m name = Some u \<Longrightarrow> get_host m u = Some name"
  by (auto simp: get_uid_def get_host_def dest: first_uid_Some)

lemma get_uid_None: "lists_keys iter \<Longrightarrow> get_uid iter m name = None \<longleftrightarrow> (\<forall>u. get_host m u \<noteq> Some name)"
  by (auto simp: get_uid_def get_host_def lists_keys_def first_uid_None)

text \<open>A name that belongs to one id only is found, whatever the iteration order.\<close>

lemma get_uid_unique:
  assumes "lists_keys iter" and "get_host m u = Some name" and "\<And>v. get_host m v = Some name \<Longrightarrow> v = u"
  shows "get_uid iter m name = Some u"
proof (cases "get_uid iter m name")
  case None
  with assms(1,2) show ?thesis by (simp add: get_uid_None)
next
  case (Some v)
  with assms(3) show ?thesis by (simp add: get_uid_Some)
qed

section \<open>Files of words\<close>

text \<open>
  A line of the file: words with the blanks before each, blanks at the end, and a comment if there
  is one. A line \<open>UID HOSTNAME\<close> has two words; blank lines and lines with only a comment have none.
\<close>

type_synonym uid_text = "(string \<times> string) list \<times> string \<times> string option"

definition uid_line :: "uid_text \<Rightarrow> string" where
  "uid_line l = (case l of (ws, h, c) \<Rightarrow>
     spaced ws @ h @ (case c of None \<Rightarrow> [] | Some t \<Rightarrow> CHR ''#'' # t))"

definition uid_line_ok :: "uid_text \<Rightarrow> bool" where
  "uid_line_ok l \<longleftrightarrow> (case l of (ws, h, c) \<Rightarrow>
     spaced_ok ws \<and> is_gap h \<and> list_all (\<lambda>(g, w). CHR ''#'' \<notin> set w) ws \<and>
     (case c of None \<Rightarrow> True | Some t \<Rightarrow> text_line t))"

definition uid_file :: "uid_text list \<Rightarrow> bytes" where
  "uid_file ls = as_bytes (concat (map (\<lambda>l. l @ nl) (map uid_line ls)))"

text \<open>What a line says: its first word is the id, its second the name; other lines say nothing.\<close>

definition uid_entry :: "uid_text \<Rightarrow> (u8 \<times> string) option" where
  "uid_entry l =
     (case map snd (fst l) of
        uid # name # _ \<Rightarrow> (case parse_u8 uid of Inr u \<Rightarrow> Some (u, name) | Inl _ \<Rightarrow> None)
      | _ \<Rightarrow> None)"

lemma uid_line_text:
  assumes "uid_line_ok l"
  shows "text_line (uid_line l)"
proof -
  obtain ws h c where l: "l = (ws, h, c)" by (cases l)
  have ok: "spaced_ok ws" "is_gap h" "\<And>t. c = Some t \<Longrightarrow> text_line t"
    using assms by (auto simp: uid_line_ok_def l)
  have nc: "d \<noteq> CHR 0x0A \<and> d \<noteq> CHR 0x0D" if "d \<in> set (spaced ws @ h)" for d
  proof -
    have "is_gap g \<Longrightarrow> d \<in> set g \<Longrightarrow> d \<noteq> CHR 0x0A \<and> d \<noteq> CHR 0x0D" for g
      by (induction g) (auto simp: is_gap_def)
    moreover have "is_word w \<Longrightarrow> d \<in> set w \<Longrightarrow> d \<noteq> CHR 0x0A \<and> d \<noteq> CHR 0x0D" for w
      by (auto simp: is_word_def list_all_iff word_char_def)
    ultimately show ?thesis
      using that ok(1,2) unfolding spaced_def spaced_ok_def list_all_iff by fastforce
  qed
  have "text_line (spaced ws @ h)"
    unfolding text_line_def using nc [of "CHR 0x0A"] nc [of "last (spaced ws @ h)"] last_in_set [of "spaced ws @ h"] ok(1,2)
    by (simp add: is_ascii_spaced is_ascii_gap) blast
  moreover have "is_ascii (spaced ws @ h)"
    using ok(1,2) by (simp add: is_ascii_spaced is_ascii_gap)
  moreover have "is_ascii (CHR ''#'' # t) \<longleftrightarrow> is_ascii t" for t
    by (simp add: is_ascii_chars)
  ultimately show ?thesis
    using ok(3) by (cases c) (auto simp: uid_line_def l text_line_def split: if_splits dest: last_in_set)
qed

lemma load_line_entry:
  assumes "uid_line_ok l"
  shows "fst (load_line n (uid_line l) (m, w)) =
    (case uid_entry l of None \<Rightarrow> m | Some (u, name) \<Rightarrow> m\<lparr>hostnames := (hostnames m)(u \<mapsto> name)\<rparr>)"
proof -
  obtain ws h c where l: "l = (ws, h, c)" by (cases l)
  have ok: "spaced_ok ws" "is_gap h" "list_all (\<lambda>(g, w). CHR ''#'' \<notin> set w) ws"
    using assms by (simp_all add: uid_line_ok_def l)
  have "is_gap g \<Longrightarrow> CHR ''#'' \<notin> set g" for g
    by (induction g) (auto simp: is_gap_def)
  then have "CHR ''#'' \<notin> set (spaced ws @ h)"
    using ok by (auto simp: spaced_def spaced_ok_def list_all_iff)
  then have hd: "hd (str_split (CHR ''#'') (uid_line l)) = spaced ws @ h"
    using str_split_sep [of "CHR ''#''" "spaced ws @ h"] str_split_no_sep [of "CHR ''#''" "spaced ws @ h"]
    by (cases c) (simp_all add: uid_line_def l)
  have e: "uid_entry l = (case map snd ws of
        uid # name # _ \<Rightarrow> (case parse_u8 uid of Inr u \<Rightarrow> Some (u, name) | Inl _ \<Rightarrow> None)
      | _ \<Rightarrow> None)"
    by (simp only: uid_entry_def l fst_conv)
  have "ws = [] \<Longrightarrow> map snd ws = []"
    by simp
  then show ?thesis
    unfolding load_line_def Let_def prod.case hd spaced_line [OF ok(1,2)] e
    by (auto split: list.split sum.split)
qed

lemma load_lines_entries:
  "list_all uid_line_ok ls \<Longrightarrow>
     \<exists>w'. load_lines n (map Ok (map uid_line ls)) (m, w) =
       (Ok (), m\<lparr>hostnames := hostnames m ++ map_of (rev (List.map_filter uid_entry ls))\<rparr>, w')"
proof (induction ls arbitrary: n m w)
  case Nil
  then show ?case by (simp add: map_filter_simps)
next
  case (Cons l ls)
  let ?m = "case uid_entry l of None \<Rightarrow> m | Some (u, name) \<Rightarrow> m\<lparr>hostnames := (hostnames m)(u \<mapsto> name)\<rparr>"
  obtain w1 where l: "load_line n (uid_line l) (m, w) = (?m, w1)"
    using load_line_entry [of l n m w] Cons.prems by (cases "load_line n (uid_line l) (m, w)") simp
  let ?M = "map_of (rev (List.map_filter uid_entry ls))"
  have ls: "list_all uid_line_ok ls"
    using Cons.prems by simp
  obtain w' where "load_lines (n + 1) (map Ok (map uid_line ls)) (?m, w1) =
      (Ok (), ?m\<lparr>hostnames := hostnames ?m ++ ?M\<rparr>, w')"
    using Cons.IH [OF ls] by blast
  then have "load_lines n (map Ok (map uid_line (l # ls))) (m, w) = (Ok (), ?m\<lparr>hostnames := hostnames ?m ++ ?M\<rparr>, w')"
    by (simp only: list.map load_lines.simps res.case l)
  moreover have "?m\<lparr>hostnames := hostnames ?m ++ ?M\<rparr> =
      m\<lparr>hostnames := hostnames m ++ map_of (rev (List.map_filter uid_entry (l # ls)))\<rparr>"
    by (auto simp: map_filter_simps split: option.split)
  ultimately show ?case
    by (intro exI [of _ w']) (simp only:)
qed

text \<open>The ids in ascending order: one of the orders a hash map may have.\<close>

definition ascending :: "(u8 \<rightharpoonup> string) \<Rightarrow> u8 list" where
  "ascending m = filter (\<lambda>u. m u \<noteq> None) (map of_nat [0..<256])"

lemma lists_keys_ascending: "lists_keys ascending"
proof -
  have "u \<in> of_nat ` {0..<256}" for u :: u8
    using unsigned_less [of u, where 'a = nat] by (intro image_eqI [of _ _ "unat u"]) simp_all
  then show ?thesis
    by (auto simp: lists_keys_def ascending_def)
qed

section \<open>Properties\<close>

text \<open>
  C30. The uid file: for every file of ASCII lines with words between blanks, with or without a
  comment, reading succeeds and gives, whatever was in the map before, the map of the lines
  \<open>UID HOSTNAME\<close> in which the last line of an id counts; blank lines, lines of one word and lines whose
  first word is no id are passed over, further words are ignored. Looking up a name then yields an
  id of that name exactly if some id has it, for every iteration order of the hash map.
\<close>

theorem uid_file_is_read:
  assumes "list_all uid_line_ok ls" and "fs_exists files path" and "fs_open files path = Inr (uid_file ls)"
    and "lists_keys iter"
  shows "\<exists>m' w'. load files path (m, w) = (Ok (), m', w') \<and>
    get_host m' = map_of (rev (List.map_filter uid_entry ls)) \<and>
    (\<forall>name. case get_uid iter m' name of
       Some u \<Rightarrow> get_host m' u = Some name
     | None \<Rightarrow> \<forall>u. get_host m' u \<noteq> Some name)"
proof -
  have "list_all text_line (map uid_line ls)"
    using assms(1) by (simp add: list_all_iff uid_line_text)
  then obtain w' where "load files path (m, w) = (Ok (), \<lparr>hostnames = map_of (rev (List.map_filter uid_entry ls))\<rparr>, w')"
    using load_lines_entries [OF assms(1), of 0 uid_map_new w] assms(2,3)
    by (auto simp: load_def uid_file_def reader_lines_text uid_map_new_def simp del: map_map)
  moreover have "case get_uid iter m' name of Some u \<Rightarrow> get_host m' u = Some name
      | None \<Rightarrow> \<forall>u. get_host m' u \<noteq> Some name" for m' name
    using get_uid_Some [of iter m' name] get_uid_None [OF assms(4), of m' name] by (simp split: option.split)
  ultimately show ?thesis
    by (intro exI [of _ "\<lparr>hostnames = map_of (rev (List.map_filter uid_entry ls))\<rparr>"] exI [of _ w'])
      (simp add: get_host_def [abs_def])
qed

theorem uid_file_is_read_witness:
  "\<exists>m' w'. load \<lparr>fs_exists = (\<lambda>_. True), fs_open = (\<lambda>_. Inr (as_bytes
       (''5 ann'' @ nl @ nl @ ''  7'' @ [CHR 0x09] @ ''bob x # y'' @ nl @ ''nobody'' @ nl @ ''5 eve#'' @ nl)))\<rparr>
       UID_CONFIG_PATH (uid_map_new, world_start) = (Ok (), m', w') \<and>
     get_host m' 5 = Some ''eve'' \<and> get_host m' 7 = Some ''bob'' \<and> get_uid ascending m' ''ann'' = None"
proof -
  let ?ls = "[([([], ''5''), ('' '', ''ann'')], [], None), ([], [], None),
      ([(''  '', ''7''), ([CHR 0x09], ''bob''), ('' '', ''x'')], '' '', Some '' y''),
      ([([], ''nobody'')], [], None), ([([], ''5''), ('' '', ''eve'')], [], Some [])]"
  let ?fs = "\<lparr>fs_exists = (\<lambda>_. True), fs_open = (\<lambda>_. Inr (uid_file ?ls))\<rparr>"
  have "list_all uid_line_ok ?ls"
    by code_simp
  from uid_file_is_read [OF this _ _ lists_keys_ascending, of ?fs UID_CONFIG_PATH uid_map_new world_start]
  obtain m' w' where l: "load ?fs UID_CONFIG_PATH (uid_map_new, world_start) = (Ok (), m', w')"
    and h: "get_host m' = map_of (rev (List.map_filter uid_entry ?ls))"
    and g: "case get_uid ascending m' ''ann'' of Some u \<Rightarrow> get_host m' u = Some ''ann'' | None \<Rightarrow> True"
    by (auto split: option.splits)
  have e: "List.map_filter uid_entry ?ls = [(5, ''ann''), (7, ''bob''), (5, ''eve'')]"
    by code_simp
  note h = h [unfolded e]
  have "get_host m' u \<noteq> Some ''ann''" for u
    by (simp add: h)
  with g have "get_uid ascending m' ''ann'' = None"
    by (simp split: option.splits)
  moreover have "uid_file ?ls = as_bytes
       (''5 ann'' @ nl @ nl @ ''  7'' @ [CHR 0x09] @ ''bob x # y'' @ nl @ ''nobody'' @ nl @ ''5 eve#'' @ nl)"
    by code_simp
  ultimately show ?thesis
    using l h by auto
qed

end
