(* ===== verification/Helper.thy ===== *)
theory Helper
  imports Uid_Map
begin

text \<open>
  \<open>ktuctl-rs/src/helper.rs\<close>: byte order, names and addresses, comments and xor keys. The two
  globals \<open>UID_MAP\<close> and \<open>GLOBAL_FLAGS\<close> are written by \<open>main\<close> once, before any command runs; they
  are part of the record \<open>ctl\<close> of everything a command reads.
\<close>

section \<open>What a command reads\<close>

record GlobalFlags =
  numeric :: bool
  debug :: bool
  ip_family :: "string option"

text \<open>
  \<open>ct_lookup\<close> is \<open>dns_lookup::lookup_host\<close>, \<open>ct_shlex\<close> is \<open>shlex::split\<close>, \<open>ct_now\<close> the formatted
  local time.
\<close>

record ctl =
  ct_profile :: profile
  ct_flags :: GlobalFlags
  ct_uids :: UidMap
  ct_iter :: "(u8 \<rightharpoonup> string) \<Rightarrow> u8 list"
  ct_lookup :: "string \<Rightarrow> error + IpAddr list"
  ct_shlex :: "string \<Rightarrow> string list option"
  ct_fs :: fs
  ct_stdin :: bytes
  ct_now :: string

section \<open>Byte order\<close>

text \<open>On a little-endian target \<open>to_be\<close> and \<open>from_be\<close> swap the two bytes.\<close>

definition htons :: "u16 \<Rightarrow> u16" where
  "htons v = from_le (to_be 2 v)"

definition ntohs :: "u16 \<Rightarrow> u16" where
  "ntohs v = from_be (to_le 2 v)"

section \<open>Names\<close>

definition resolve_uid :: "ctl \<Rightarrow> string \<Rightarrow> u8 res" where
  "resolve_uid E s =
     (case get_uid (ct_iter E) (ct_uids E) s of
        Some uid \<Rightarrow> Ok uid
      | None \<Rightarrow>
          (case parse_u8 s of
             Inr uid \<Rightarrow> Ok uid
           | Inl _ \<Rightarrow> Err (Msg (''unknown user or invalid uid format: '' @ s))))"

definition resolve_hostname :: "ctl \<Rightarrow> u8 \<Rightarrow> bool \<Rightarrow> string" where
  "resolve_hostname E uid is_dump =
     (let by_number = (if is_dump then ''uid '' @ show_word uid else ''UID: '' @ show_word uid) in
      if numeric (ct_flags E) then by_number
      else (case get_host (ct_uids E) uid of
              Some name \<Rightarrow> (if is_dump then ''user '' @ name else ''User: '' @ name)
            | None \<Rightarrow> by_number))"

section \<open>Addresses\<close>

definition resolve_ip :: "ctl \<Rightarrow> string \<Rightarrow> In6Addr res" where
  "resolve_ip E addr =
     (case ct_lookup E addr of
        Inl e \<Rightarrow> Err e
      | Inr ips \<Rightarrow>
          if ips = [] then Err (Msg (''could not resolve address: '' @ addr))
          else (case (if ip_family (ct_flags E) = Some ''ip4'' then find is_ipv4 ips
                      else if ip_family (ct_flags E) = Some ''ip6'' then find is_ipv6 ips
                      else Some (hd ips)) of
                  None \<Rightarrow> Err (Msg ''no suitable address found'')
                | Some (V4 v4) \<Rightarrow> Ok (In6Addr (replicate 10 0 @ [0xFF, 0xFF] @ v4))
                | Some (V6 v6) \<Rightarrow> Ok (In6Addr v6)))"

definition ip_to_string :: "In6Addr \<Rightarrow> string" where
  "ip_to_string addr =
     (case to_ipv4 (octets addr) of
        Some v4 \<Rightarrow> ipv4_display v4
      | None \<Rightarrow> ipv6_display (octets addr))"

section \<open>Comments\<close>

definition format_comment :: "bytes \<Rightarrow> bool \<Rightarrow> string" where
  "format_comment c is_dump =
     (let s = from_utf8_lossy (takeWhile (\<lambda>x. x \<noteq> 0) c) in
      if s = [] then []
      else if is_dump then '' comment '' @ s
      else '', Comment: '' @ s)"

definition copy_comment :: "bytes \<Rightarrow> string \<Rightarrow> bytes" where
  "copy_comment dest src =
     (let dest = replicate 22 0;
          bytes = as_bytes src;
          len = min (length bytes) 22
      in take len bytes @ drop len dest)"

section \<open>Xor keys\<close>

text \<open>
  One digit: \<open>from_utf8(&[b]).unwrap()\<close> panics on a byte that is not ASCII, \<open>from_str_radix\<close> fails on
  one that is no hexadecimal digit.
\<close>

definition hex_digit :: "u8 \<Rightarrow> u8 res" where
  "hex_digit b =
     (if \<not> utf8_valid [b] then Panic
      else (case from_str_radix 16 255 [char_of_byte b] of
              Inl _ \<Rightarrow> Err (Msg ''invalid hex in xor key'')
            | Inr v \<Rightarrow> Ok (of_nat v)))"

fun xor_loop :: "nat \<Rightarrow> bytes \<Rightarrow> bytes \<Rightarrow> bytes res" where
  "xor_loop i (a # b # chunks) key =
     res_bind (hex_digit a) (\<lambda>hi.
     res_bind (hex_digit b) (\<lambda>lo.
     xor_loop (i + 1) chunks (key[i := push_bit 4 hi OR lo])))"
| "xor_loop i _ key = Ok key"

definition parse_xor_key :: "string \<Rightarrow> bytes \<Rightarrow> (bytes \<times> u8) res" where
  "parse_xor_key hex key =
     (if hex = [] \<or> length hex mod 2 \<noteq> 0 then
        Err (Msg ''xor key must be non-empty hex string with even length'')
      else (let len = length hex div 2 in
        if len > TUTU_XOR_KEY_MAX then
          Err (Msg (''xor key too long (max '' @ show_nat TUTU_XOR_KEY_MAX @ '' bytes)''))
        else res_bind (xor_loop 0 (as_bytes hex) key) (\<lambda>key. Ok (key, of_nat len))))"

text \<open>\<open>{:02x}\<close>.\<close>

definition hex_byte :: "u8 \<Rightarrow> string" where
  "hex_byte b = (let s = show_hex (unat b) in replicate (2 - length s) (CHR ''0'') @ s)"

definition format_xor_key :: "bytes \<Rightarrow> u8 \<Rightarrow> string" where
  "format_xor_key key len = concat (map hex_byte (take (unat len) key))"

section \<open>Facts\<close>

lemma ntohs_htons [simp]: "ntohs (htons v) = v"
  by (simp add: htons_def ntohs_def codec_simps)

lemma htons_ntohs [simp]: "htons (ntohs v) = v"
proof -
  have "to_be 2 (from_be (to_le 2 v) :: u16) = to_le 2 v"
  proof -
    have "to_le 2 (from_le (rev (to_le 2 v)) :: u16) = rev (to_le 2 v)"
      by (rule to_le_from_le_u16) simp
    then show ?thesis
      by (simp add: to_be_def from_be_def)
  qed
  then show ?thesis
    by (simp add: htons_def ntohs_def codec_simps)
qed

subsection \<open>Hexadecimal\<close>

lemma hex_digit_char:
  assumes "d < 16"
  shows "hex_digit (byte_of_char (digit_char d)) = Ok (of_nat d)"
proof -
  have "is_ascii [digit_char d]"
    using word_char_digit [OF assms] by (simp add: is_ascii_chars word_char_def Let_def)
  then have v: "utf8_valid [byte_of_char (digit_char d)]"
    using utf8_valid_as_bytes_ascii [of "[digit_char d]"] by (simp add: as_bytes_def)
  have "show_radix 16 d = [digit_char d]"
    using assms by (subst show_radix.simps) simp
  then have "from_str_radix 16 255 [digit_char d] = Inr d"
    using from_str_radix_show_radix [of 16 d 255] assms by simp
  then show ?thesis
    by (simp only: hex_digit_def v char_of_byte_of_char not_True_eq_False if_False sum.case)
qed

lemma hex_byte_digits:
  "hex_byte b = [digit_char (unat b div 16), digit_char (unat b mod 16)]"
proof -
  have lt: "unat b < 256"
    using unsigned_less [of b, where 'a = nat] by simp
  show ?thesis
  proof (cases "unat b < 16")
    case True
    moreover have "digit_char 0 = CHR ''0''"
      by code_simp
    ultimately show ?thesis
      by (simp add: hex_byte_def show_hex_def show_radix.simps [of 16 "unat b"] numeral_2_eq_2)
  next
    case False
    have "unat b div 16 < 16"
      using lt by simp
    with False show ?thesis
      by (simp add: hex_byte_def show_hex_def show_radix.simps [of 16 "unat b"] show_radix.simps [of 16 "unat b div 16"])
  qed
qed

lemma nibbles: "push_bit 4 (of_nat (unat b div 16)) OR of_nat (unat b mod 16) = (b :: u8)"
proof -
  have "drop_bit 4 b = of_nat (unat (b div 16))" "take_bit 4 b = of_nat (unat (b mod 16))"
    by (simp_all add: drop_bit_eq_div take_bit_eq_mod)
  then have "of_nat (unat b div 16) = drop_bit 4 b" "of_nat (unat b mod 16) = take_bit 4 b"
    by (simp_all only: unat_div_distrib unat_mod_distrib) simp_all
  then show ?thesis
    by (auto intro!: bit_word_eqI simp: bit_simps)
qed

lemma xor_loop_bytes:
  "i + length bs \<le> length key \<Longrightarrow>
     xor_loop i (as_bytes (concat (map hex_byte bs))) key = Ok (take i key @ bs @ drop (i + length bs) key)"
proof (induction bs arbitrary: i key)
  case Nil
  then show ?case by (simp add: as_bytes_def)
next
  case (Cons b bs)
  have lt: "unat b div 16 < 16" "unat b mod 16 < 16"
    using unsigned_less [of b, where 'a = nat] by simp_all
  have "xor_loop i (as_bytes (concat (map hex_byte (b # bs)))) key =
      xor_loop (i + 1) (as_bytes (concat (map hex_byte bs))) (key[i := b])"
    by (simp add: hex_byte_digits as_bytes_def hex_digit_char lt nibbles)
  also have "\<dots> = Ok (take (i + 1) (key[i := b]) @ bs @ drop (i + 1 + length bs) (key[i := b]))"
    using Cons.prems by (intro Cons.IH) simp
  also have "take (i + 1) (key[i := b]) = take i key @ [b]"
    using Cons.prems by (simp add: take_Suc_conv_app_nth)
  finally show ?case
    using Cons.prems by simp
qed

lemma length_hex: "length (concat (map hex_byte bs)) = 2 * length bs"
  by (induction bs) (simp_all add: hex_byte_digits)

subsection \<open>Comments\<close>

lemma length_copy_comment [simp]: "length (copy_comment dest src) = 22"
  by (simp add: copy_comment_def Let_def)

lemma takeWhile_copy_comment:
  assumes "length src \<le> 22" and "0 \<notin> set (as_bytes src)"
  shows "takeWhile (\<lambda>x. x \<noteq> 0) (copy_comment dest src) = as_bytes src"
proof -
  have "takeWhile (\<lambda>x. x \<noteq> 0) (replicate n 0) = ([] :: bytes)" for n
    by (cases n) simp_all
  then show ?thesis
    using assms by (simp add: copy_comment_def Let_def takeWhile_append)
qed

lemma format_copy_comment:
  assumes "length src \<le> 22" and "0 \<notin> set (as_bytes src)" and "utf8_valid (as_bytes src)"
  shows "format_comment (copy_comment dest src) is_dump =
    (if src = [] then [] else (if is_dump then '' comment '' else '', Comment: '') @ src)"
  using assms by (simp add: format_comment_def Let_def takeWhile_copy_comment from_utf8_lossy_valid)

subsection \<open>Which keys are read\<close>

text \<open>The value of an ASCII hexadecimal digit, by the ranges of the ASCII table.\<close>

definition hex_value :: "u8 \<Rightarrow> nat option" where
  "hex_value b =
     (let n = unat b in
      if 48 \<le> n \<and> n \<le> 57 then Some (n - 48)
      else if 65 \<le> n \<and> n \<le> 70 then Some (n - 55)
      else if 97 \<le> n \<and> n \<le> 102 then Some (n - 87)
      else None)"

text \<open>The bytes of a text of digits, the high digit of each first.\<close>

fun hex_bytes :: "bytes \<Rightarrow> bytes" where
  "hex_bytes (a # b # bs) = of_nat (16 * the (hex_value a) + the (hex_value b)) # hex_bytes bs"
| "hex_bytes _ = []"

lemma of_char_byte: "(of_char (char_of_byte b) :: nat) = unat b"
  by (rule of_char_char_of_byte)

lemma digit_hex_value: "to_digit 16 (char_of_byte b) = hex_value b"
  by (auto simp: to_digit_def digit_val_def hex_value_def of_char_byte Let_def)

lemma hex_value_less: "hex_value b = Some n \<Longrightarrow> n < 16 \<and> unat b < 128"
  by (auto simp: hex_value_def Let_def split: if_splits)

lemma hex_digit_value:
  "hex_digit b =
     (case hex_value b of
        Some n \<Rightarrow> Ok (of_nat n)
      | None \<Rightarrow> if unat b < 128 then Err (Msg ''invalid hex in xor key'') else Panic)"
proof -
  have v: "utf8_valid [b] \<longleftrightarrow> unat b < 128"
    by (simp add: utf8_step_def Let_def is_cont_def word_less_nat_alt)
  have plus: "hex_value b = None" if "char_of_byte b = CHR ''+''"
  proof -
    have "unat b = (of_char (CHR ''+'') :: nat)"
      using of_char_byte [of b] that by simp
    then show ?thesis
      by (simp add: hex_value_def)
  qed
  have minus: "hex_value b = None" if "char_of_byte b = CHR ''-''"
  proof -
    have "unat b = (of_char (CHR ''-'') :: nat)"
      using of_char_byte [of b] that by simp
    then show ?thesis
      by (simp add: hex_value_def)
  qed
  show ?thesis
    using plus minus hex_value_less [of b] unfolding hex_digit_def v
    by (auto simp: from_str_radix_def digit_hex_value split: option.split)
qed

lemma nibbles_value: "m < 16 \<Longrightarrow> n < 16 \<Longrightarrow> push_bit 4 (of_nat m :: u8) OR of_nat n = of_nat (16 * m + n)"
proof -
  assume mn: "m < 16" "n < 16"
  let ?b = "of_nat (16 * m + n) :: u8"
  have "unat ?b = 16 * m + n"
    using mn by (intro unat_of_nat_small) simp
  then have "unat ?b div 16 = m" "unat ?b mod 16 = n"
    using mn by simp_all
  with nibbles [of ?b] show ?thesis
    by simp
qed

lemma xor_loop_verdict:
  "length bs mod 2 = 0 \<Longrightarrow> i + length bs div 2 \<le> length key \<Longrightarrow>
     xor_loop i bs key =
       (case find (\<lambda>b. hex_value b = None) bs of
          None \<Rightarrow> Ok (take i key @ hex_bytes bs @ drop (i + length bs div 2) key)
        | Some b \<Rightarrow> if unat b < 128 then Err (Msg ''invalid hex in xor key'') else Panic)"
proof (induction i bs key rule: xor_loop.induct)
  case (1 i a b chunks key)
  show ?case
  proof (cases "hex_value a = None \<or> hex_value b = None")
    case True
    then show ?thesis
      by (auto simp: hex_digit_value split: option.split)
  next
    case False
    then obtain m n where mn: "hex_value a = Some m" "hex_value b = Some n"
      by auto
    then have d: "hex_digit a = Ok (of_nat m)" "hex_digit b = Ok (of_nat n)" "m < 16" "n < 16"
      using hex_value_less by (simp_all add: hex_digit_value)
    let ?key = "key[i := of_nat (16 * m + n)]"
    have "i < length key"
      using "1.prems"(2) by simp
    then have "take (i + 1) ?key = take i key @ [of_nat (16 * m + n)]" "drop (i + 1 + k) ?key = drop (i + 1 + k) key" for k
      by (simp_all add: take_Suc_conv_app_nth)
    moreover have "xor_loop (i + 1) chunks ?key =
       (case find (\<lambda>b. hex_value b = None) chunks of
          None \<Rightarrow> Ok (take (i + 1) ?key @ hex_bytes chunks @ drop (i + 1 + length chunks div 2) ?key)
        | Some b \<Rightarrow> if unat b < 128 then Err (Msg ''invalid hex in xor key'') else Panic)"
      using "1.IH" [of "of_nat m" "of_nat n"] "1.prems" unfolding nibbles_value [OF d(3,4)] by simp
    ultimately show ?thesis
      by (simp add: mn d nibbles_value split: option.split)
  qed
qed simp_all

section \<open>Properties\<close>

text \<open>
  C33. The text of a key is read back: a key of 1 to 64 bytes that \<open>format_xor_key\<close> prints is what
  \<open>parse_xor_key\<close> stores, with its length, and the bytes of the buffer behind it stay as they were.
\<close>

theorem xor_key_round_trip:
  assumes "bs \<noteq> []" and "length bs \<le> TUTU_XOR_KEY_MAX" and "length key = TUTU_XOR_KEY_MAX"
  shows "parse_xor_key (format_xor_key (bs @ rest) (of_nat (length bs))) key =
    Ok (bs @ drop (length bs) key, of_nat (length bs))"
proof -
  have "unat (of_nat (length bs) :: u8) = length bs"
    using assms(2) by (simp add: unat_of_nat TUTU_XOR_KEY_MAX_def)
  then have f: "format_xor_key (bs @ rest) (of_nat (length bs)) = concat (map hex_byte bs)"
    by (simp add: format_xor_key_def)
  have "concat (map hex_byte bs) \<noteq> []"
    using assms(1) length_hex [of bs] by (metis length_0_conv mult_is_0 zero_neq_numeral)
  then show ?thesis
    using assms(2,3) xor_loop_bytes [of 0 bs key]
    by (simp add: f parse_xor_key_def length_hex Let_def del: concat_eq_Nil_conv)
qed

theorem xor_key_round_trip_witness:
  "parse_xor_key (format_xor_key [1, 0xAB, 0, 0] 2) (replicate 64 7) = Ok ([1, 0xAB] @ replicate 62 7, 2)"
  using xor_key_round_trip [of "[1, 0xAB]" "replicate 64 7" "[0, 0]"]
  by (simp add: TUTU_XOR_KEY_MAX_def)

text \<open>
  C31. Every text is decided: without an even, positive number of at most 128 bytes there is an
  error; otherwise the first byte outside \<open>0-9\<close>, \<open>a-f\<close> and \<open>A-F\<close> decides, which is an error when it
  is ASCII but a panic when it is not; without such a byte the buffer starts with the bytes that
  the pairs of digits denote, keeps the rest, and the length is that of half the text.
\<close>

theorem xor_key_verdict:
  assumes "length key = TUTU_XOR_KEY_MAX"
  shows "if hex = [] \<or> length hex mod 2 \<noteq> 0 \<or> length hex > 2 * TUTU_XOR_KEY_MAX then \<exists>e. parse_xor_key hex key = Err e
   else parse_xor_key hex key =
     (case find (\<lambda>b. hex_value b = None) (as_bytes hex) of
        None \<Rightarrow> Ok (hex_bytes (as_bytes hex) @ drop (length hex div 2) key, of_nat (length hex div 2))
      | Some b \<Rightarrow> if unat b < 128 then Err (Msg ''invalid hex in xor key'') else Panic)"
  using xor_loop_verdict [of "as_bytes hex" 0 key] assms
  by (auto simp: parse_xor_key_def Let_def split: option.split)

theorem xor_key_verdict_witness:
  "parse_xor_key (map char_of_byte [0xC3, 0xA9]) (replicate 64 0) = Panic \<and>
   parse_xor_key ''1g'' (replicate 64 0) = Err (Msg ''invalid hex in xor key'') \<and>
   parse_xor_key ''aF09'' (replicate 64 0) = Ok ([0xAF, 0x09] @ replicate 62 0, 2) \<and>
   (\<exists>e. parse_xor_key ''abc'' (replicate 64 0) = Err e)"
proof -
  have l: "length (replicate 64 (0 :: u8)) = TUTU_XOR_KEY_MAX"
    by (simp add: TUTU_XOR_KEY_MAX_def)
  have b: "as_bytes [char_of_byte 0xC3, char_of_byte 0xA9] = [0xC3, 0xA9]" "as_bytes ''1g'' = [0x31, 0x67]"
    "as_bytes ''aF09'' = [0x61, 0x46, 0x30, 0x39]"
    by code_simp+
  have v: "hex_value 0xC3 = None" "hex_value 0x31 = Some 1" "hex_value 0x67 = None" "hex_value 0x61 = Some 10"
    "hex_value 0x46 = Some 15" "hex_value 0x30 = Some 0" "hex_value 0x39 = Some 9"
    by code_simp+
  show ?thesis
    using xor_key_verdict [OF l, of "map char_of_byte [0xC3, 0xA9]"] xor_key_verdict [OF l, of "''1g''"]
      xor_key_verdict [OF l, of "''aF09''"] xor_key_verdict [OF l, of "''abc''"]
    by (simp add: b v TUTU_XOR_KEY_MAX_def)
qed

end
