(* ===== verification/Netlink.thy ===== *)
theory Netlink
  imports World
begin

text \<open>
  The conversations of \<open>ktuctl-rs/src/netlink.rs\<close> with the kernel: family resolution,
  requests with acknowledgement, single replies and dumps. All of them read replies with
  the same two nested loops (receive a datagram, walk its messages) and differ in what they
  do with a message of their own sequence number; the loops are \<open>scan_msgs\<close> and \<open>recv_loop\<close>,
  the message cases are the \<open>*_msg\<close> functions, one per \<open>match\<close> of the source.
\<close>

section \<open>The message loops\<close>

text \<open>What a message handler decides: go on with the next message, or return a value.\<close>

datatype ('c, 'a) flow = Next 'c | Ret 'a

type_synonym ('c, 'a) handler =
  "NlmsghdrRaw \<Rightarrow> bytes \<Rightarrow> nat \<Rightarrow> nat \<Rightarrow> 'c \<Rightarrow> (world, ('c, 'a) flow) comp"

text \<open>\<open>&xs[a..b]\<close> panics unless \<open>a <= b <= xs.len()\<close>.\<close>

definition slice :: "bytes \<Rightarrow> nat \<Rightarrow> nat \<Rightarrow> bytes res" where
  "slice xs a b = (if a \<le> b \<and> b \<le> length xs then Ok (drop a (take b xs)) else Panic)"

lemma scan_progress:
  "off + 16 \<le> len \<Longrightarrow> \<not> n < 16 \<Longrightarrow> len - (off + nlmsg_align n) < len - off"
  using nla_align_ge [of n] unfolding nlmsg_align_eq by linarith

function scan_msgs ::
  "u32 \<Rightarrow> ('c, 'a) handler \<Rightarrow> bytes \<Rightarrow> nat \<Rightarrow> 'c \<Rightarrow> (world, ('c, 'a) flow) comp" where
  "scan_msgs seq act rx off c w =
     (if off + NLMSGHDR_SIZE \<le> length rx then
        (case parse_nlmsghdr rx off of
           None \<Rightarrow> (Err (Msg ''bad nlmsghdr''), w)
         | Some nlh \<Rightarrow>
             if unat (nlmsg_len nlh) < NLMSGHDR_SIZE then (Err (Msg ''invalid nlmsg_len''), w)
             else (let msg_end = off + unat (nlmsg_len nlh) in
               if msg_end > length rx then (Err (Msg ''truncated netlink message''), w)
               else if nlmsg_seq nlh \<noteq> seq then
                 scan_msgs seq act rx (off + nlmsg_align (unat (nlmsg_len nlh))) c w
               else
                 (case act nlh rx off msg_end c w of
                    (Ok (Next c'), w') \<Rightarrow>
                      scan_msgs seq act rx (off + nlmsg_align (unat (nlmsg_len nlh))) c' w'
                  | (Ok (Ret a), w') \<Rightarrow> (Ok (Ret a), w')
                  | (Err e, w') \<Rightarrow> (Err e, w')
                  | (Panic, w') \<Rightarrow> (Panic, w')
                  | (Blocked, w') \<Rightarrow> (Blocked, w'))))
      else (Ok (Next c), w))"
  by pat_completeness auto
termination
  by (relation "measure (\<lambda>(seq, act, rx, off, c, w). length rx - off)") (auto intro: scan_progress)

declare scan_msgs.simps [simp del]

text \<open>The outer \<open>loop\<close>: one datagram of the script after the other.\<close>

lemma sock_recv_less:
  "sock_recv sock = Ok (rx, sock') \<Longrightarrow> length (ns_rx sock') < length (ns_rx sock)"
  by (auto simp: sock_recv_def split: list.splits sum.splits)

function recv_loop ::
  "u32 \<Rightarrow> ('c, 'a) handler \<Rightarrow> NetlinkSocket \<Rightarrow> 'c \<Rightarrow> (world, 'a \<times> NetlinkSocket) comp" where
  "recv_loop seq act sock c w =
     (case sock_recv sock of
        Ok (rx, sock') \<Rightarrow>
          (case scan_msgs seq act rx 0 c w of
             (Ok (Ret a), w') \<Rightarrow> (Ok (a, sock'), w')
           | (Ok (Next c'), w') \<Rightarrow> recv_loop seq act sock' c' w'
           | (Err e, w') \<Rightarrow> (Err e, w')
           | (Panic, w') \<Rightarrow> (Panic, w')
           | (Blocked, w') \<Rightarrow> (Blocked, w'))
      | Err e \<Rightarrow> (Err e, w)
      | Panic \<Rightarrow> (Panic, w)
      | Blocked \<Rightarrow> (Blocked, w))"
  by pat_completeness auto
termination
  by (relation "measure (\<lambda>(seq, act, sock, c, w). length (ns_rx sock))") (auto dest: sock_recv_less)

declare recv_loop.simps [simp del]

section \<open>The message cases\<close>

text \<open>The arm \<open>NLMSG_ERROR => { check_nlmsg_error(payload)?; .. }\<close>, common to all loops.\<close>

definition error_arm ::
  "profile \<Rightarrow> bytes \<Rightarrow> nat \<Rightarrow> nat \<Rightarrow> ('c, 'a) flow \<Rightarrow> (world, ('c, 'a) flow) comp" where
  "error_arm p rx off msg_end next =
     lift_res (res_bind (slice rx (off + NLMSGHDR_SIZE) msg_end)
       (\<lambda>payload. res_bind (check_nlmsg_error p payload) (\<lambda>_. Ok next)))"

text \<open>
  The attributes of a message: the generic header must fit the buffer (not the message), and
  the attributes are the slice from behind it to the end of the message.
\<close>

definition msg_attrs :: "bytes \<Rightarrow> nat \<Rightarrow> nat \<Rightarrow> (u16 \<times> bytes) list res" where
  "msg_attrs rx off msg_end =
     (let genl_off = off + NLMSGHDR_SIZE in
      case parse_genlhdr rx genl_off of
        None \<Rightarrow> Err (Msg ''bad genlhdr'')
      | Some _ \<Rightarrow>
          (let attrs_off = genl_off + GENLMSGHDR_SIZE in
           res_bind (slice rx attrs_off msg_end) (\<lambda>data. Ok (parse_attrs data))))"

subsection \<open>\<open>resolve_genl_family_id\<close>\<close>

fun find_family_id :: "(u16 \<times> bytes) list \<Rightarrow> u16 option" where
  "find_family_id [] = None"
| "find_family_id ((ty, payload) # attrs) =
     (if ty = CTRL_ATTR_FAMILY_ID \<and> 2 \<le> length payload
      then Some (from_le [payload ! 0, payload ! 1])
      else find_family_id attrs)"

definition resolve_msg :: "profile \<Rightarrow> (unit, u16) handler" where
  "resolve_msg p nlh rx off msg_end c =
     (if nlmsg_type nlh = NLMSG_ERROR then error_arm p rx off msg_end (Next ())
      else if nlmsg_type nlh = NLMSG_DONE then fail (Msg ''generic netlink family not found'')
      else lift_res (res_bind (msg_attrs rx off msg_end) (\<lambda>attrs.
             case find_family_id attrs of
               Some fid \<Rightarrow> Ok (Ret fid)
             | None \<Rightarrow> Ok (Next ()))))"

definition resolve_genl_family_id ::
  "profile \<Rightarrow> NetlinkSocket \<Rightarrow> string \<Rightarrow> (world, u16 \<times> NetlinkSocket) comp" where
  "resolve_genl_family_id p sock family_name =
     (let (seq, sock) = next_seq sock;
          name = as_bytes family_name @ [0];
          msg = build_packet_genl_msg GENL_ID_CTRL NLM_F_REQUEST seq (ns_pid sock)
                  CTRL_CMD_GETFAMILY 1 [(CTRL_ATTR_FAMILY_NAME, name)]
      in then_do (sock_send sock msg) (\<lambda>sock. recv_loop seq (resolve_msg p) sock ()))"

definition get_connection :: "profile \<Rightarrow> (world, NetlinkSocket \<times> u16) comp" where
  "get_connection p =
     then_do connect (\<lambda>socket.
     then_do (resolve_genl_family_id p socket TUTU_GENL_FAMILY_NAME) (\<lambda>(family_id, socket).
     ret (socket, family_id)))"

subsection \<open>\<open>send_struct\<close> and \<open>send_string\<close>\<close>

definition ack_msg :: "profile \<Rightarrow> (unit, unit) handler" where
  "ack_msg p nlh rx off msg_end c =
     (if nlmsg_type nlh = NLMSG_ERROR then error_arm p rx off msg_end (Ret ())
      else if nlmsg_type nlh = NLMSG_DONE then ret (Ret ())
      else ret (Next ()))"

text \<open>What \<open>send_struct\<close> and \<open>send_string\<close> do once the payload bytes are there.\<close>

definition send_payload :: "profile \<Rightarrow> u8 \<Rightarrow> u16 \<Rightarrow> bytes \<Rightarrow> bool \<Rightarrow> (world, unit) comp" where
  "send_payload p cmd attr_type payload ack =
     then_do (get_connection p) (\<lambda>(socket, family_id).
       let (seq, socket) = next_seq socket;
           flags = (if ack then NLM_F_REQUEST OR NLM_F_ACK else NLM_F_REQUEST);
           msg = build_packet_genl_msg family_id flags seq (ns_pid socket) cmd
                   TUTU_GENL_VERSION [(attr_type, payload)]
       in then_do (sock_send socket msg) (\<lambda>socket.
            if ack then then_do (recv_loop seq (ack_msg p) socket ()) (\<lambda>_. ret ())
            else ret ()))"

definition send_struct ::
  "profile \<Rightarrow> ('t \<Rightarrow> bytes) \<Rightarrow> u8 \<Rightarrow> u16 \<Rightarrow> 't \<Rightarrow> bool \<Rightarrow> (world, unit) comp" where
  "send_struct p as_bytes_of cmd attr_type data ack =
     send_payload p cmd attr_type (as_bytes_of data) ack"

definition send_string ::
  "profile \<Rightarrow> u8 \<Rightarrow> u16 \<Rightarrow> string \<Rightarrow> bool \<Rightarrow> (world, unit) comp" where
  "send_string p cmd attr_type data ack =
     send_payload p cmd attr_type (as_bytes data @ [0]) ack"

subsection \<open>\<open>receive_struct\<close>\<close>

fun find_struct ::
  "nat \<Rightarrow> (bytes \<Rightarrow> 't) \<Rightarrow> u16 \<Rightarrow> (u16 \<times> bytes) list \<Rightarrow> (unit, 't) flow res" where
  "find_struct size_of dec attr_type [] = Ok (Next ())"
| "find_struct size_of dec attr_type ((ty, payload) # attrs) =
     (if ty = attr_type then
        (if length payload < size_of then Err (Msg ''received data too small for struct'')
         else Ok (Ret (dec payload)))
      else find_struct size_of dec attr_type attrs)"

definition receive_msg ::
  "profile \<Rightarrow> nat \<Rightarrow> (bytes \<Rightarrow> 't) \<Rightarrow> u16 \<Rightarrow> (unit, 't) handler" where
  "receive_msg p size_of dec attr_type nlh rx off msg_end c =
     (if nlmsg_type nlh = NLMSG_ERROR then error_arm p rx off msg_end (Next ())
      else if nlmsg_type nlh = NLMSG_DONE then fail (Msg ''no response'')
      else lift_res (res_bind (msg_attrs rx off msg_end) (\<lambda>attrs.
             find_struct size_of dec attr_type attrs)))"

definition receive_struct ::
  "profile \<Rightarrow> nat \<Rightarrow> (bytes \<Rightarrow> 't) \<Rightarrow> u8 \<Rightarrow> u16 \<Rightarrow> bytes option \<Rightarrow> (world, 't) comp" where
  "receive_struct p size_of dec cmd attr_type in_data =
     then_do (get_connection p) (\<lambda>(socket, family_id).
       let (seq, socket) = next_seq socket;
           attrs = (case in_data of Some d \<Rightarrow> [(attr_type, d)] | None \<Rightarrow> []);
           msg = build_packet_genl_msg family_id NLM_F_REQUEST seq (ns_pid socket) cmd
                   TUTU_GENL_VERSION attrs
       in then_do (sock_send socket msg) (\<lambda>socket.
          then_do (recv_loop seq (receive_msg p size_of dec attr_type) socket ()) (\<lambda>(v, _).
          ret v)))"

subsection \<open>\<open>dump_structs\<close> and \<open>dump_strings\<close>\<close>

text \<open>
  The closure \<open>handler\<close> may change captured variables: they are the value \<open>c\<close> threaded
  through the loops. \<open>use\<close> says whether a payload is handed to the closure, and as what.
\<close>

fun handle_attrs ::
  "u16 \<Rightarrow> (bytes \<Rightarrow> 't option) \<Rightarrow> ('t \<Rightarrow> 'c \<Rightarrow> (world, 'c) comp) \<Rightarrow>
     (u16 \<times> bytes) list \<Rightarrow> 'c \<Rightarrow> (world, 'c) comp" where
  "handle_attrs attr_type use handler [] c = ret c"
| "handle_attrs attr_type use handler ((ty, payload) # attrs) c =
     (if ty = attr_type then
        (case use payload of
           Some v \<Rightarrow>
             then_do (handler v c) (\<lambda>c. handle_attrs attr_type use handler attrs c)
         | None \<Rightarrow> handle_attrs attr_type use handler attrs c)
      else handle_attrs attr_type use handler attrs c)"

definition dump_msg ::
  "profile \<Rightarrow> u16 \<Rightarrow> (bytes \<Rightarrow> 't option) \<Rightarrow> ('t \<Rightarrow> 'c \<Rightarrow> (world, 'c) comp) \<Rightarrow> ('c, 'c) handler" where
  "dump_msg p attr_type use handler nlh rx off msg_end c =
     (if nlmsg_type nlh = NLMSG_DONE then ret (Ret c)
      else if nlmsg_type nlh = NLMSG_ERROR then error_arm p rx off msg_end (Next c)
      else then_do (lift_res (msg_attrs rx off msg_end)) (\<lambda>attrs.
           then_do (handle_attrs attr_type use handler attrs c) (\<lambda>c. ret (Next c))))"

definition dump_with ::
  "profile \<Rightarrow> u8 \<Rightarrow> u16 \<Rightarrow> (bytes \<Rightarrow> 't option) \<Rightarrow> ('t \<Rightarrow> 'c \<Rightarrow> (world, 'c) comp) \<Rightarrow> 'c \<Rightarrow>
     (world, 'c) comp" where
  "dump_with p cmd attr_type use handler c =
     then_do (get_connection p) (\<lambda>(socket, family_id).
       let (seq, socket) = next_seq socket;
           msg = build_packet_genl_msg family_id (NLM_F_REQUEST OR NLM_F_DUMP) seq (ns_pid socket)
                   cmd TUTU_GENL_VERSION []
       in then_do (sock_send socket msg) (\<lambda>socket.
          then_do (recv_loop seq (dump_msg p attr_type use handler) socket c) (\<lambda>(c, _). ret c)))"

definition struct_payload :: "nat \<Rightarrow> (bytes \<Rightarrow> 't) \<Rightarrow> bytes \<Rightarrow> 't option" where
  "struct_payload size_of dec payload =
     (if size_of \<le> length payload then Some (dec payload) else None)"

text \<open>The bytes up to the first NUL, or all of them.\<close>

definition string_payload :: "bytes \<Rightarrow> string option" where
  "string_payload payload = Some (from_utf8_lossy (takeWhile (\<lambda>b. b \<noteq> 0) payload))"

definition dump_structs ::
  "profile \<Rightarrow> nat \<Rightarrow> (bytes \<Rightarrow> 't) \<Rightarrow> u8 \<Rightarrow> u16 \<Rightarrow> ('t \<Rightarrow> 'c \<Rightarrow> (world, 'c) comp) \<Rightarrow> 'c \<Rightarrow>
     (world, 'c) comp" where
  "dump_structs p size_of dec cmd attr_type handler c =
     dump_with p cmd attr_type (struct_payload size_of dec) handler c"

definition dump_strings ::
  "profile \<Rightarrow> u8 \<Rightarrow> u16 \<Rightarrow> (string \<Rightarrow> 'c \<Rightarrow> (world, 'c) comp) \<Rightarrow> 'c \<Rightarrow> (world, 'c) comp" where
  "dump_strings p cmd attr_type handler c =
     dump_with p cmd attr_type string_payload handler c"

end
