(* ===== verification/Netlink_Refine.thy ===== *)
theory Netlink_Refine
  imports Netlink
begin

text \<open>
  The byte-level loops of \<open>Netlink\<close> against a view of the kernel's answer as messages. A
  datagram is the concatenation of aligned messages (\<open>datagram\<close>); \<open>view_msgs\<close> and
  \<open>view_loop\<close> process a list of messages and a list of such lists. The locale
  \<open>reply_handler\<close> states when a message case of the source depends on its message only;
  every case interprets it, and the loops then refine the view.
\<close>

section \<open>Messages and datagrams\<close>

type_synonym msg = "NlmsghdrRaw \<times> bytes"

fun frame :: "msg \<Rightarrow> bytes" where
  "frame (h, body) =
     enc_NlmsghdrRaw h @ body @ replicate (nla_align (16 + length body) - (16 + length body)) 0"

definition datagram :: "msg list \<Rightarrow> bytes" where
  "datagram ms = concat (map frame ms)"

text \<open>The length field of a message counts its header and its body.\<close>

definition wf_msg :: "msg \<Rightarrow> bool" where
  "wf_msg m \<longleftrightarrow> unat (nlmsg_len (fst m)) = 16 + length (snd m)"

definition wf_datagram :: "msg list \<Rightarrow> bool" where
  "wf_datagram ms \<longleftrightarrow> list_all wf_msg ms \<and> length (datagram ms) \<le> RECV_CAP"

lemma length_frame: "length (frame (h, body)) = nla_align (16 + length body)"
  using nla_align_ge [of "16 + length body"] by (simp add: codec_simps)

lemma datagram_simps:
  "datagram [] = []" "datagram (m # ms) = frame m @ datagram ms"
  by (simp_all add: datagram_def)

section \<open>Processing messages\<close>

type_synonym ('c, 'a) view = "NlmsghdrRaw \<Rightarrow> bytes \<Rightarrow> 'c \<Rightarrow> (world, ('c, 'a) flow) comp"

fun view_msgs :: "u32 \<Rightarrow> ('c, 'a) view \<Rightarrow> msg list \<Rightarrow> 'c \<Rightarrow> (world, ('c, 'a) flow) comp" where
  "view_msgs seq view [] c w = (Ok (Next c), w)"
| "view_msgs seq view ((h, body) # ms) c w =
     (if nlmsg_seq h \<noteq> seq then view_msgs seq view ms c w
      else (case view h body c w of
              (Ok (Next c'), w') \<Rightarrow> view_msgs seq view ms c' w'
            | (Ok (Ret a), w') \<Rightarrow> (Ok (Ret a), w')
            | (Err e, w') \<Rightarrow> (Err e, w')
            | (Panic, w') \<Rightarrow> (Panic, w')
            | (Blocked, w') \<Rightarrow> (Blocked, w')))"

fun view_loop ::
  "u32 \<Rightarrow> ('c, 'a) view \<Rightarrow> msg list list \<Rightarrow> 'c \<Rightarrow> (world, 'a \<times> msg list list) comp" where
  "view_loop seq view [] c w = (Blocked, w)"
| "view_loop seq view (ms # mss) c w =
     (case view_msgs seq view ms c w of
        (Ok (Ret a), w') \<Rightarrow> (Ok (a, mss), w')
      | (Ok (Next c'), w') \<Rightarrow> view_loop seq view mss c' w'
      | (Err e, w') \<Rightarrow> (Err e, w')
      | (Panic, w') \<Rightarrow> (Panic, w')
      | (Blocked, w') \<Rightarrow> (Blocked, w'))"

text \<open>A socket whose remaining answers are these datagrams.\<close>

definition answers :: "msg list list \<Rightarrow> (error + bytes) list" where
  "answers mss = map (\<lambda>ms. Inr (datagram ms)) mss"

lemma answers_simps [simp]:
  "answers [] = []" "answers (ms # mss) = Inr (datagram ms) # answers mss"
  by (simp_all add: answers_def)

section \<open>The contract of a message case\<close>

locale reply_handler =
  fixes act :: "('c, 'a) handler"
    and view :: "('c, 'a) view"
    and ok :: "NlmsghdrRaw \<Rightarrow> bytes \<Rightarrow> bool"
  assumes act_view:
    "ok h body \<Longrightarrow>
       act h (pre @ enc_NlmsghdrRaw h @ body @ post) (length pre) (length pre + 16 + length body) c w
         = view h body c w"
begin

lemma scan_frame:
  assumes wf: "wf_msg (h, body)" and ok: "nlmsg_seq h = seq \<Longrightarrow> ok h body"
  shows "scan_msgs seq act (pre @ frame (h, body) @ post) (length pre) c w =
    (if nlmsg_seq h \<noteq> seq
     then scan_msgs seq act (pre @ frame (h, body) @ post) (length pre + length (frame (h, body))) c w
     else (case view h body c w of
             (Ok (Next c'), w') \<Rightarrow>
               scan_msgs seq act (pre @ frame (h, body) @ post) (length pre + length (frame (h, body))) c' w'
           | (Ok (Ret a), w') \<Rightarrow> (Ok (Ret a), w')
           | (Err e, w') \<Rightarrow> (Err e, w')
           | (Panic, w') \<Rightarrow> (Panic, w')
           | (Blocked, w') \<Rightarrow> (Blocked, w')))"
proof -
  let ?rx = "pre @ frame (h, body) @ post"
  have len: "unat (nlmsg_len h) = 16 + length body"
    using wf by (simp add: wf_msg_def)
  have parse: "parse_nlmsghdr ?rx (length pre) = Some h"
    by (simp add: parse_nlmsghdr_def codec_simps)
  have act: "nlmsg_seq h = seq \<Longrightarrow>
      act h ?rx (length pre) (length pre + unat (nlmsg_len h)) c w = view h body c w" for c w
    using act_view [OF ok, of pre "replicate (nla_align (16 + length body) - (16 + length body)) 0 @ post" c w]
    by (simp add: len add.assoc)
  have room: "length pre + NLMSGHDR_SIZE \<le> length ?rx" "\<not> unat (nlmsg_len h) < NLMSGHDR_SIZE"
    "\<not> length pre + unat (nlmsg_len h) > length ?rx"
    by (simp_all add: codec_simps len)
  have step: "length pre + nlmsg_align (unat (nlmsg_len h)) = length pre + length (frame (h, body))"
    by (simp only: nlmsg_align_eq len length_frame)
  show ?thesis
    by (subst scan_msgs.simps)
      (cases "nlmsg_seq h = seq",
        simp_all only: parse room step act Let_def if_True if_False option.case refl simp_thms)
qed

lemma scan_datagram:
  assumes "list_all wf_msg ms" and "\<And>h body. (h, body) \<in> set ms \<Longrightarrow> nlmsg_seq h = seq \<Longrightarrow> ok h body"
  shows "scan_msgs seq act (pre @ datagram ms) (length pre) c w = view_msgs seq view ms c w"
  using assms
proof (induction ms arbitrary: pre c w)
  case Nil
  then show ?case
    by (simp add: scan_msgs.simps datagram_simps)
next
  case (Cons m ms)
  obtain h body where m: "m = (h, body)" by (cases m)
  have IH: "scan_msgs seq act (pre @ frame (h, body) @ datagram ms) (length pre + length (frame (h, body))) c w
      = view_msgs seq view ms c w" for c w
    using Cons.IH [of "pre @ frame (h, body)" c w] Cons.prems by (simp add: add.assoc del: frame.simps)
  have "wf_msg (h, body)" "nlmsg_seq h = seq \<Longrightarrow> ok h body"
    using Cons.prems by (auto simp: m)
  note sf = scan_frame [OF this, where pre = pre and post = "datagram ms" and c = c and w = w]
  show ?case
    by (simp only: m datagram_simps sf IH view_msgs.simps)
qed

lemma recv_loop_view:
  assumes "list_all wf_datagram mss"
    and "\<And>h body. (h, body) \<in> set (concat mss) \<Longrightarrow> nlmsg_seq h = seq \<Longrightarrow> ok h body"
  shows "recv_loop seq act (sock\<lparr>ns_rx := answers mss\<rparr>) c w =
    (case view_loop seq view mss c w of
       (Ok (a, mss'), w') \<Rightarrow> (Ok (a, sock\<lparr>ns_rx := answers mss'\<rparr>), w')
     | (Err e, w') \<Rightarrow> (Err e, w')
     | (Panic, w') \<Rightarrow> (Panic, w')
     | (Blocked, w') \<Rightarrow> (Blocked, w'))"
  using assms
proof (induction mss arbitrary: c w)
  case Nil
  then show ?case
    by (simp add: recv_loop.simps sock_recv_def)
next
  case (Cons ms mss)
  have ms: "list_all wf_msg ms" "length (datagram ms) \<le> RECV_CAP"
    using Cons.prems by (simp_all add: wf_datagram_def)
  have okm: "(h, body) \<in> set ms \<Longrightarrow> nlmsg_seq h = seq \<Longrightarrow> ok h body" for h body
    using Cons.prems(2) [of h body] by simp
  have recv: "sock_recv (sock\<lparr>ns_rx := answers (ms # mss)\<rparr>) =
      Ok (datagram ms, sock\<lparr>ns_rx := answers mss\<rparr>)"
    using ms(2) by (simp add: sock_recv_def)
  have scan: "scan_msgs seq act (datagram ms) 0 c w = view_msgs seq view ms c w"
    using scan_datagram [OF ms(1) okm, where pre = "[]" and c = c and w = w] by simp
  have IH: "recv_loop seq act (sock\<lparr>ns_rx := answers mss\<rparr>) c w =
    (case view_loop seq view mss c w of
       (Ok (a, mss'), w') \<Rightarrow> (Ok (a, sock\<lparr>ns_rx := answers mss'\<rparr>), w')
     | (Err e, w') \<Rightarrow> (Err e, w')
     | (Panic, w') \<Rightarrow> (Panic, w')
     | (Blocked, w') \<Rightarrow> (Blocked, w'))" for c w
    using Cons.IH [of c w] Cons.prems by auto
  show ?case
    by (subst recv_loop.simps)
      (simp only: recv res.case prod.case scan IH view_loop.simps split: prod.split res.split flow.split, simp)
qed

end

section \<open>The message cases as views\<close>

text \<open>
  A message that is neither an error nor the end of a dump must hold a generic netlink
  header. The source does not check it: see \<open>short_genl_message_panics\<close>.
\<close>

definition genl_ok :: "NlmsghdrRaw \<Rightarrow> bytes \<Rightarrow> bool" where
  "genl_ok h body \<longleftrightarrow>
     nlmsg_type h = NLMSG_ERROR \<or> nlmsg_type h = NLMSG_DONE \<or> GENLMSGHDR_SIZE \<le> length body"

definition body_attrs :: "bytes \<Rightarrow> (u16 \<times> bytes) list" where
  "body_attrs body = parse_attrs (drop GENLMSGHDR_SIZE body)"

definition error_view ::
  "profile \<Rightarrow> bytes \<Rightarrow> ('c, 'a) flow \<Rightarrow> (world, ('c, 'a) flow) comp" where
  "error_view p body next = lift_res (res_bind (check_nlmsg_error p body) (\<lambda>_. Ok next))"

definition resolve_view :: "profile \<Rightarrow> (unit, u16) view" where
  "resolve_view p h body c =
     (if nlmsg_type h = NLMSG_ERROR then error_view p body (Next ())
      else if nlmsg_type h = NLMSG_DONE then fail (Msg ''generic netlink family not found'')
      else ret (case find_family_id (body_attrs body) of Some fid \<Rightarrow> Ret fid | None \<Rightarrow> Next ()))"

definition ack_view :: "profile \<Rightarrow> (unit, unit) view" where
  "ack_view p h body c =
     (if nlmsg_type h = NLMSG_ERROR then error_view p body (Ret ())
      else if nlmsg_type h = NLMSG_DONE then ret (Ret ())
      else ret (Next ()))"

definition receive_view :: "profile \<Rightarrow> nat \<Rightarrow> (bytes \<Rightarrow> 't) \<Rightarrow> u16 \<Rightarrow> (unit, 't) view" where
  "receive_view p size_of dec attr_type h body c =
     (if nlmsg_type h = NLMSG_ERROR then error_view p body (Next ())
      else if nlmsg_type h = NLMSG_DONE then fail (Msg ''no response'')
      else lift_res (find_struct size_of dec attr_type (body_attrs body)))"

definition dump_view ::
  "profile \<Rightarrow> u16 \<Rightarrow> (bytes \<Rightarrow> 't option) \<Rightarrow> ('t \<Rightarrow> 'c \<Rightarrow> (world, 'c) comp) \<Rightarrow> ('c, 'c) view" where
  "dump_view p attr_type use handler h body c =
     (if nlmsg_type h = NLMSG_DONE then ret (Ret c)
      else if nlmsg_type h = NLMSG_ERROR then error_view p body (Next c)
      else then_do (handle_attrs attr_type use handler (body_attrs body) c) (\<lambda>c. ret (Next c)))"

lemma slice_body:
  "slice (pre @ enc_NlmsghdrRaw h @ body @ post) (length pre + 16) (length pre + 16 + length body)
     = Ok body"
  by (simp add: slice_def codec_simps)

lemma error_arm_view:
  "error_arm p (pre @ enc_NlmsghdrRaw h @ body @ post) (length pre) (length pre + 16 + length body) next
     = error_view p body next"
  using slice_body [of pre h body post] by (simp add: error_arm_def error_view_def)

lemma msg_attrs_body:
  assumes "4 \<le> length body"
  shows "msg_attrs (pre @ enc_NlmsghdrRaw h @ body @ post) (length pre) (length pre + 16 + length body)
     = Ok (body_attrs body)"
proof -
  let ?rx = "pre @ enc_NlmsghdrRaw h @ body @ post"
  have "slice ?rx (length pre + 16 + 4) (length pre + 16 + length body) = Ok (drop 4 body)"
    using assms by (simp add: slice_def codec_simps)
  moreover have "parse_genlhdr ?rx (length pre + 16) \<noteq> None"
    using assms by (simp add: parse_genlhdr_def codec_simps)
  ultimately show ?thesis
    by (auto simp: msg_attrs_def Let_def body_attrs_def)
qed

interpretation resolve: reply_handler "resolve_msg p" "resolve_view p" genl_ok for p
  by unfold_locales
    (auto simp: resolve_msg_def resolve_view_def error_arm_view msg_attrs_body genl_ok_def split: option.split)

interpretation ack: reply_handler "ack_msg p" "ack_view p" "\<lambda>_ _. True" for p
  by unfold_locales (simp add: ack_msg_def ack_view_def error_arm_view)

interpretation receive: reply_handler
  "receive_msg p size_of dec attr_type" "receive_view p size_of dec attr_type" genl_ok
  for p size_of and dec :: "bytes \<Rightarrow> 't" and attr_type
  by unfold_locales
    (auto simp: receive_msg_def receive_view_def error_arm_view msg_attrs_body genl_ok_def)

interpretation dump: reply_handler
  "dump_msg p attr_type use handler" "dump_view p attr_type use handler" genl_ok
  for p attr_type and "use" :: "bytes \<Rightarrow> 't option" and handler :: "'t \<Rightarrow> 'c \<Rightarrow> (world, 'c) comp"
  by unfold_locales
    (auto simp: dump_msg_def dump_view_def error_arm_view msg_attrs_body genl_ok_def then_do_def)

end
