(* ===== verification/Netlink_Requests.thy ===== *)
theory Netlink_Requests
  imports Netlink_Refine
begin

text \<open>
  What the four kinds of request return and send when the kernel answers: the requests of
  \<open>Netlink\<close> as equations over the view of the answer, and from them the value received, the
  outcome of an acknowledged update and the calls of a dump handler.
\<close>

section \<open>A connection whose kernel answers\<close>

definition kernel_answers :: "msg list list \<Rightarrow> conn" where
  "kernel_answers mss = \<lparr>c_socket = None, c_bind = None, c_tx = [], c_rx = answers mss\<rparr>"

definition own :: "u32 \<Rightarrow> msg \<Rightarrow> bool" where
  "own seq m \<longleftrightarrow> nlmsg_seq (fst m) = seq"

text \<open>Messages a receive loop waiting for \<open>seq\<close> can walk without a fault of the framing.\<close>

definition clean_for :: "u32 \<Rightarrow> msg list list \<Rightarrow> bool" where
  "clean_for seq mss \<longleftrightarrow>
     list_all wf_datagram mss \<and>
     list_all (\<lambda>(h, body). nlmsg_seq h = seq \<longrightarrow> genl_ok h body) (concat mss)"

text \<open>The first message for us in the datagram names the family.\<close>

definition family_answer :: "u16 \<Rightarrow> msg list \<Rightarrow> bool" where
  "family_answer fid ms \<longleftrightarrow>
     (case find (own 1) ms of
        Some (h, body) \<Rightarrow>
          nlmsg_type h \<noteq> NLMSG_ERROR \<and> nlmsg_type h \<noteq> NLMSG_DONE \<and>
          find_family_id (body_attrs body) = Some fid
      | None \<Rightarrow> False)"

definition getfamily_packet :: bytes where
  "getfamily_packet =
     build_packet_genl_msg GENL_ID_CTRL NLM_F_REQUEST 1 0 CTRL_CMD_GETFAMILY 1
       [(CTRL_ATTR_FAMILY_NAME, as_bytes TUTU_GENL_FAMILY_NAME @ [0])]"

definition request_packet :: "u16 \<Rightarrow> u16 \<Rightarrow> u8 \<Rightarrow> (u16 \<times> bytes) list \<Rightarrow> bytes" where
  "request_packet fid flags cmd attrs = build_packet_genl_msg fid flags 2 0 cmd TUTU_GENL_VERSION attrs"

text \<open>The world once the family is known, and once the request is sent.\<close>

definition opened :: "world \<Rightarrow> world" where
  "opened w = emit (EvSend getfamily_packet) (emit EvConnect (w\<lparr>w_next := Suc (w_next w)\<rparr>))"

definition requested :: "bytes \<Rightarrow> world \<Rightarrow> world" where
  "requested packet w = emit (EvSend packet) (opened w)"

lemma requested_simps [simp]:
  "w_conns (requested packet w) = w_conns w"
  "w_next (requested packet w) = Suc (w_next w)"
  "w_trace (requested packet w) = w_trace w @ [EvConnect, EvSend getfamily_packet, EvSend packet]"
  by (simp_all add: requested_def opened_def)

section \<open>The first message of our own decides\<close>

lemma view_msgs_own_Ret:
  assumes "find (own seq) ms = Some (h, body)" and "view h body c w = (Ok (Ret a), w')"
  shows "view_msgs seq view ms c w = (Ok (Ret a), w')"
  using assms
proof (induction ms)
  case Nil
  then show ?case by simp
next
  case (Cons m ms)
  then show ?case
    by (cases m) (auto simp: own_def split: if_splits)
qed

lemma view_msgs_own_Err:
  assumes "find (own seq) ms = Some (h, body)" and "view h body c w = (Err e, w')"
  shows "view_msgs seq view ms c w = (Err e, w')"
  using assms
proof (induction ms)
  case Nil
  then show ?case by simp
next
  case (Cons m ms)
  then show ?case
    by (cases m) (auto simp: own_def split: if_splits)
qed

lemma view_msgs_foreign:
  "find (own seq) ms = None \<Longrightarrow> view_msgs seq view ms c w = (Ok (Next c), w)"
proof (induction ms)
  case Nil
  then show ?case by simp
next
  case (Cons m ms)
  then show ?case
    by (cases m) (auto simp: own_def split: if_splits)
qed

lemma view_loop_foreign:
  "list_all (\<lambda>ms. find (own seq) ms = None) noise \<Longrightarrow>
     view_loop seq view (noise @ mss) c w = view_loop seq view mss c w"
  by (induction noise) (simp_all add: view_msgs_foreign)

lemma clean_for_ok:
  "clean_for seq mss \<Longrightarrow> (h, body) \<in> set (concat mss) \<Longrightarrow> nlmsg_seq h = seq \<Longrightarrow> genl_ok h body"
  by (auto simp: clean_for_def list_all_iff)

lemma clean_for_wf: "clean_for seq mss \<Longrightarrow> list_all wf_datagram mss"
  by (simp add: clean_for_def)

section \<open>Opening the connection\<close>

lemma resolve_answer:
  assumes "clean_for 1 (fam # mss)" and "family_answer fid fam"
  shows "recv_loop 1 (resolve_msg p) (sock\<lparr>ns_rx := answers (fam # mss)\<rparr>) () w =
    (Ok (fid, sock\<lparr>ns_rx := answers mss\<rparr>), w)"
proof -
  obtain h body where f: "find (own 1) fam = Some (h, body)"
    "nlmsg_type h \<noteq> NLMSG_ERROR" "nlmsg_type h \<noteq> NLMSG_DONE"
    "find_family_id (body_attrs body) = Some fid"
    using assms(2) by (auto simp: family_answer_def split: option.splits prod.splits)
  have "resolve_view p h body () w = (Ok (Ret fid), w)"
    using f(2-4) by (simp add: resolve_view_def)
  then have "view_msgs 1 (resolve_view p) fam () w = (Ok (Ret fid), w)"
    by (rule view_msgs_own_Ret [OF f(1)])
  then have "view_loop 1 (resolve_view p) (fam # mss) () w = (Ok (fid, mss), w)"
    by simp
  then show ?thesis
    using resolve.recv_loop_view [OF clean_for_wf [OF assms(1)], of 1 p sock "()" w]
      clean_for_ok [OF assms(1)] by simp
qed

lemma get_connection_answer:
  assumes "w_conns w (w_next w) = kernel_answers (fam # mss)"
    and "clean_for 1 (fam # mss)" and "family_answer fid fam"
  shows "get_connection p w =
    (Ok (\<lparr>ns_seq = 2, ns_pid = 0, ns_tx = [], ns_rx = answers mss\<rparr>, fid), opened w)"
proof -
  let ?w0 = "emit EvConnect (w\<lparr>w_next := Suc (w_next w)\<rparr>)"
  let ?s = "\<lparr>ns_seq = 2, ns_pid = 0, ns_tx = [], ns_rx = answers (fam # mss)\<rparr>"
  have conn: "connect w = (Ok \<lparr>ns_seq = 1, ns_pid = 0, ns_tx = [], ns_rx = answers (fam # mss)\<rparr>, ?w0)"
    by (simp add: connect_def assms(1) kernel_answers_def)
  have send: "sock_send ?s getfamily_packet ?w0 = (Ok ?s, opened w)"
    by (simp add: sock_send_def opened_def)
  have recv: "recv_loop 1 (resolve_msg p) ?s () (opened w) =
      (Ok (fid, ?s\<lparr>ns_rx := answers mss\<rparr>), opened w)"
    using resolve_answer [OF assms(2,3), of p ?s "opened w"] by simp
  have "resolve_genl_family_id p \<lparr>ns_seq = 1, ns_pid = 0, ns_tx = [], ns_rx = answers (fam # mss)\<rparr>
      TUTU_GENL_FAMILY_NAME ?w0 = (Ok (fid, ?s\<lparr>ns_rx := answers mss\<rparr>), opened w)"
    using send recv
    by (simp add: resolve_genl_family_id_def next_seq_def Let_def getfamily_packet_def then_do_def)
  then show ?thesis
    by (simp add: get_connection_def then_do_def conn)
qed

section \<open>Requests as equations over the answer\<close>

lemma sock_send_answers:
  "sock_send \<lparr>ns_seq = n, ns_pid = q, ns_tx = [], ns_rx = rx\<rparr> packet w =
     (Ok \<lparr>ns_seq = n, ns_pid = q, ns_tx = [], ns_rx = rx\<rparr>, emit (EvSend packet) w)"
  by (simp add: sock_send_def)

lemma next_seq_2:
  "next_seq \<lparr>ns_seq = 2, ns_pid = q, ns_tx = tx, ns_rx = rx\<rparr> =
     (2, \<lparr>ns_seq = 3, ns_pid = q, ns_tx = tx, ns_rx = rx\<rparr>)"
  by (simp add: next_seq_def)

text \<open>The result of a loop without the rest of the conversation.\<close>

definition only_value :: "('a \<times> msg list list) res \<times> world \<Rightarrow> 'a res \<times> world" where
  "only_value r = (case r of
      (Ok (a, _), w) \<Rightarrow> (Ok a, w)
    | (Err e, w) \<Rightarrow> (Err e, w)
    | (Panic, w) \<Rightarrow> (Panic, w)
    | (Blocked, w) \<Rightarrow> (Blocked, w))"

lemma only_value_simps [simp]:
  "only_value (Ok (a, mss), w) = (Ok a, w)" "only_value (Err e, w) = (Err e, w)"
  "only_value (Panic, w) = (Panic, w)" "only_value (Blocked, w) = (Blocked, w)"
  by (simp_all add: only_value_def)

text \<open>
  The next connection is answered: the family is named in the first datagram, and the
  datagrams \<open>mss\<close> follow the request.
\<close>

definition answering :: "world \<Rightarrow> u16 \<Rightarrow> msg list \<Rightarrow> msg list list \<Rightarrow> bool" where
  "answering w fid fam mss \<longleftrightarrow>
     w_conns w (w_next w) = kernel_answers (fam # mss) \<and> family_answer fid fam \<and>
     clean_for 1 (fam # mss) \<and> clean_for 2 mss"

lemma get_connection_answering:
  "answering w fid fam mss \<Longrightarrow> get_connection p w =
    (Ok (\<lparr>ns_seq = 2, ns_pid = 0, ns_tx = [], ns_rx = answers mss\<rparr>, fid), opened w)"
  by (simp add: answering_def get_connection_answer)

lemma answering_clean: "answering w fid fam mss \<Longrightarrow> clean_for 2 mss"
  by (simp add: answering_def)

lemma receive_struct_answer:
  assumes "answering w fid fam mss"
  shows "receive_struct p size_of dec cmd attr_type in_data w =
     only_value (view_loop 2 (receive_view p size_of dec attr_type) mss ()
       (requested (request_packet fid NLM_F_REQUEST cmd
          (case in_data of Some d \<Rightarrow> [(attr_type, d)] | None \<Rightarrow> [])) w))"
  using receive.recv_loop_view [OF clean_for_wf [OF answering_clean [OF assms]],
      of 2 p size_of dec attr_type "\<lparr>ns_seq = 3, ns_pid = 0, ns_tx = [], ns_rx = answers mss\<rparr>" "()"]
    clean_for_ok [OF answering_clean [OF assms]]
  by (simp add: receive_struct_def then_do_def get_connection_answering [OF assms]
      next_seq_2 Let_def sock_send_answers request_packet_def requested_def only_value_def
      split: prod.split res.split)

lemma send_payload_answer:
  assumes "answering w fid fam mss"
  shows "send_payload p cmd attr_type payload ack w =
     (let w' = requested (request_packet fid
                 (if ack then NLM_F_REQUEST OR NLM_F_ACK else NLM_F_REQUEST) cmd
                 [(attr_type, payload)]) w
      in if ack then only_value (view_loop 2 (ack_view p) mss () w') else (Ok (), w'))"
  using ack.recv_loop_view [OF clean_for_wf [OF answering_clean [OF assms]],
      of 2 p "\<lparr>ns_seq = 3, ns_pid = 0, ns_tx = [], ns_rx = answers mss\<rparr>" "()"]
  by (simp add: send_payload_def then_do_def get_connection_answering [OF assms]
      next_seq_2 Let_def sock_send_answers request_packet_def requested_def only_value_def
      split: prod.split res.split)

lemma dump_with_answer:
  assumes "answering w fid fam mss"
  shows "dump_with p cmd attr_type use handler c w =
     only_value (view_loop 2 (dump_view p attr_type use handler) mss c
       (requested (request_packet fid (NLM_F_REQUEST OR NLM_F_DUMP) cmd []) w))"
  using dump.recv_loop_view [OF clean_for_wf [OF answering_clean [OF assms]],
      of 2 p attr_type "use" handler
        "\<lparr>ns_seq = 3, ns_pid = 0, ns_tx = [], ns_rx = answers mss\<rparr>" c]
    clean_for_ok [OF answering_clean [OF assms]]
  by (simp add: dump_with_def then_do_def get_connection_answering [OF assms]
      next_seq_2 Let_def sock_send_answers request_packet_def requested_def only_value_def
      split: prod.split res.split)

section \<open>The acknowledgement\<close>

lemma view_loop_own_Ret:
  "find (own seq) ms = Some (h, body) \<Longrightarrow> view h body c w = (Ok (Ret a), w') \<Longrightarrow>
     view_loop seq view (ms # mss) c w = (Ok (a, mss), w')"
  by (simp add: view_msgs_own_Ret)

lemma view_loop_own_Err:
  "find (own seq) ms = Some (h, body) \<Longrightarrow> view h body c w = (Err e, w') \<Longrightarrow>
     view_loop seq view (ms # mss) c w = (Err e, w')"
  by (simp add: view_msgs_own_Err)

lemma check_nlmsg_error_code:
  "check_nlmsg_error p (enc_NlmsgerrRaw e @ rest) =
     (if nlmsgerr_error e = 0 then Ok ()
      else if p = Debug \<and> sint (nlmsgerr_error e) = - (2 ^ 31) then Panic
      else Err (Ctx ''netlink error'' (OsErrno (- nlmsgerr_error e))))"
  by (simp add: check_nlmsg_error_def Let_def codec_simps)

lemma send_payload_acked:
  assumes "answering w fid fam (noise @ ms # rest)"
    and "list_all (\<lambda>ms. find (own 2) ms = None) noise"
    and "find (own 2) ms = Some (h, enc_NlmsgerrRaw e @ extra)" and "nlmsg_type h = NLMSG_ERROR"
    and "sint (nlmsgerr_error e) \<noteq> - (2 ^ 31)"
  shows "send_payload p cmd attr_type payload True w =
    (if nlmsgerr_error e = 0 then Ok ()
     else Err (Ctx ''netlink error'' (OsErrno (- nlmsgerr_error e))),
     requested (request_packet fid (NLM_F_REQUEST OR NLM_F_ACK) cmd [(attr_type, payload)]) w)"
proof -
  have view: "ack_view p h (enc_NlmsgerrRaw e @ extra) () w' =
      (if nlmsgerr_error e = 0 then Ok (Ret ())
       else Err (Ctx ''netlink error'' (OsErrno (- nlmsgerr_error e))), w')" for w'
    using assms(4,5) by (auto simp: ack_view_def error_view_def check_nlmsg_error_code)
  have "only_value (view_loop 2 (ack_view p) (ms # rest) () w') =
      (if nlmsgerr_error e = 0 then Ok ()
       else Err (Ctx ''netlink error'' (OsErrno (- nlmsgerr_error e))), w')" for w'
    using view [of w'] view_loop_own_Ret [OF assms(3), of "ack_view p" "()" w']
      view_loop_own_Err [OF assms(3), of "ack_view p" "()" w']
    by (cases "nlmsgerr_error e = 0") (simp_all del: view_loop.simps)
  then show ?thesis
    by (simp only: send_payload_answer [OF assms(1)] Let_def view_loop_foreign [OF assms(2)] if_True)
qed

section \<open>The value received\<close>

lemma find_struct_skip:
  "attr_type \<notin> fst ` set pre \<Longrightarrow>
     find_struct size_of dec attr_type (pre @ attrs) = find_struct size_of dec attr_type attrs"
  by (induction pre) auto

context wire_struct
begin

lemma receive_struct_value:
  assumes "answering w fid fam (noise @ ms # rest)"
    and "list_all (\<lambda>ms. find (own 2) ms = None) noise"
    and "find (own 2) ms = Some (h, body)"
    and "nlmsg_type h \<noteq> NLMSG_ERROR" and "nlmsg_type h \<noteq> NLMSG_DONE"
    and "body_attrs body = pre @ (attr_type, enc v @ extra) # post" and "attr_type \<notin> fst ` set pre"
    and "valid v"
  shows "receive_struct p size_of dec cmd attr_type in_data w =
    (Ok v, requested (request_packet fid NLM_F_REQUEST cmd
       (case in_data of Some d \<Rightarrow> [(attr_type, d)] | None \<Rightarrow> [])) w)"
proof -
  have view: "receive_view p size_of dec attr_type h body () w' = (Ok (Ret v), w')" for w'
    using assms(4-8)
    by (simp add: receive_view_def find_struct_skip length_enc dec_enc)
  have "view_loop 2 (receive_view p size_of dec attr_type) (ms # rest) () w' = (Ok (v, rest), w')" for w'
    by (rule view_loop_own_Ret [OF assms(3)]) (rule view)
  then show ?thesis
    by (simp only: receive_struct_answer [OF assms(1)] view_loop_foreign [OF assms(2)] only_value_simps)
qed

end

section \<open>The calls of a dump handler\<close>

text \<open>The handler on each entry in turn, stopping at its first error.\<close>

fun run_handler :: "('t \<Rightarrow> 'c \<Rightarrow> (world, 'c) comp) \<Rightarrow> 't list \<Rightarrow> 'c \<Rightarrow> (world, 'c) comp" where
  "run_handler handler [] c = ret c"
| "run_handler handler (v # vs) c = then_do (handler v c) (run_handler handler vs)"

lemma run_handler_append:
  "run_handler handler (us @ vs) c = then_do (run_handler handler us c) (run_handler handler vs)"
proof (induction us arbitrary: c)
  case Nil
  show ?case by (rule ext) (simp add: then_do_def)
next
  case (Cons u us)
  show ?case
    by (rule ext) (simp add: Cons.IH then_do_def split: prod.split res.split)
qed

text \<open>A message for us that carries the payload of one entry.\<close>

definition entry_msg :: "u16 \<Rightarrow> (bytes \<Rightarrow> 't option) \<Rightarrow> msg \<Rightarrow> 't \<Rightarrow> bool" where
  "entry_msg attr_type use m v \<longleftrightarrow>
     own 2 m \<and> nlmsg_type (fst m) \<noteq> NLMSG_ERROR \<and> nlmsg_type (fst m) \<noteq> NLMSG_DONE \<and>
     length (body_attrs (snd m)) = 1 \<and> fst (hd (body_attrs (snd m))) = attr_type \<and>
     use (snd (hd (body_attrs (snd m)))) = Some v"

lemma dump_view_entry:
  assumes "entry_msg attr_type use (h, body) v"
  shows "dump_view p attr_type use handler h body c = then_do (handler v c) (\<lambda>c. ret (Next c))"
proof -
  obtain payload where "body_attrs body = [(attr_type, payload)]" "use payload = Some v"
    using assms by (cases "body_attrs body") (auto simp: entry_msg_def)
  moreover have "then_do (then_do (handler v c) (handle_attrs attr_type use handler []))
      (\<lambda>c. ret (Next c)) = then_do (handler v c) (\<lambda>c. ret (Next c))"
    by (rule ext) (simp add: then_do_def split: prod.split res.split)
  ultimately show ?thesis
    using assms by (auto simp: entry_msg_def dump_view_def)
qed

lemma view_msgs_entries:
  "list_all2 (entry_msg attr_type use) ms vs \<Longrightarrow>
     view_msgs 2 (dump_view p attr_type use handler) ms c =
       then_do (run_handler handler vs c) (\<lambda>c. ret (Next c))"
proof (induction ms vs arbitrary: c rule: list_all2_induct)
  case Nil
  show ?case by (rule ext) (simp add: then_do_def)
next
  case (Cons m ms v vs)
  obtain h body where m: "m = (h, body)" by (cases m)
  have seq: "nlmsg_seq h = 2"
    using Cons.hyps(1) by (simp add: m entry_msg_def own_def)
  have view: "dump_view p attr_type use handler h body c = then_do (handler v c) (\<lambda>c. ret (Next c))"
    using Cons.hyps(1) by (simp add: m dump_view_entry)
  show ?case
    by (rule ext) (simp add: m seq view Cons.IH then_do_def split: prod.split res.split)
qed

lemma view_loop_entries:
  "list_all2 (list_all2 (entry_msg attr_type use)) mss vss \<Longrightarrow>
     view_loop 2 (dump_view p attr_type use handler) (mss @ rest) c =
       then_do (run_handler handler (concat vss) c)
         (view_loop 2 (dump_view p attr_type use handler) rest)"
proof (induction mss vss arbitrary: c rule: list_all2_induct)
  case Nil
  show ?case by (rule ext) (simp add: then_do_def)
next
  case (Cons ms mss vs vss)
  show ?case
    by (rule ext)
      (simp add: view_msgs_entries [OF Cons.hyps(1)] run_handler_append Cons.IH then_do_def
        split: prod.split res.split)
qed

text \<open>
  The whole dump: entries in any number of datagrams, then a datagram whose first message for
  us ends the dump.
\<close>

lemma dump_with_entries:
  assumes "answering w fid fam (mss @ fin # rest)"
    and "list_all2 (list_all2 (entry_msg attr_type use)) mss vss"
    and "find (own 2) fin = Some (h, body)" and "nlmsg_type h = NLMSG_DONE"
  shows "dump_with p cmd attr_type use handler c w =
    run_handler handler (concat vss) c
      (requested (request_packet fid (NLM_F_REQUEST OR NLM_F_DUMP) cmd []) w)"
proof -
  have view: "dump_view p attr_type use handler h body c w' = (Ok (Ret c), w')" for c w'
    using assms(4) by (simp add: dump_view_def)
  have "view_loop 2 (dump_view p attr_type use handler) (fin # rest) c w' = (Ok (c, rest), w')" for c w'
    by (rule view_loop_own_Ret [OF assms(3)]) (rule view)
  then have "only_value (then_do m (view_loop 2 (dump_view p attr_type use handler) (fin # rest)) w') = m w'"
    for m w'
    by (simp add: then_do_def split: prod.split res.split del: view_loop.simps)
  then show ?thesis
    by (simp only: dump_with_answer [OF assms(1)] view_loop_entries [OF assms(2)])
qed

section \<open>Any bytes at all\<close>

text \<open>The loops on datagrams that are not framed at all.\<close>

lemma slice_ok: "a \<le> b \<Longrightarrow> b \<le> length xs \<Longrightarrow> slice xs a b = Ok (drop a (take b xs))"
  by (simp add: slice_def)

text \<open>
  The one reply that can panic: a datagram with an error message for us whose code is the least
  \<open>i32\<close>, the bytes \<open>00 00 00 80\<close>.
\<close>

definition least_error :: "u32 \<Rightarrow> bytes \<Rightarrow> bool" where
  "least_error seq rx \<longleftrightarrow>
     (\<exists>off nlh. parse_nlmsghdr rx off = Some nlh \<and> nlmsg_seq nlh = seq \<and> nlmsg_type nlh = NLMSG_ERROR \<and>
        take 4 (drop (off + 16) rx) = [0, 0, 0, 0x80])"

lemma check_nlmsg_error_panics:
  "check_nlmsg_error p payload \<noteq> Blocked \<and>
   (check_nlmsg_error p payload = Panic \<longrightarrow> p = Debug \<and> take 4 payload = [0, 0, 0, 0x80])"
proof -
  have "take 4 payload = [0, 0, 0, 0x80]"
    if l: "20 \<le> length payload" and e: "sint (nlmsgerr_error (dec_NlmsgerrRaw payload)) = - (2 ^ 31)"
  proof -
    let ?e = "from_le (take 4 payload) :: u32"
    have "sint ?e = sint (0x80000000 :: u32)"
      using e by (simp add: dec_NlmsgerrRaw_def field_def)
    then have "?e = 0x80000000"
      by (rule signed_word_eqI)
    moreover have "to_le 4 ?e = take 4 payload"
      using l by (intro to_le_from_le_u32) simp
    moreover have "to_le 4 (0x80000000 :: u32) = [0, 0, 0, 0x80]"
      by code_simp
    ultimately show ?thesis
      by simp
  qed
  then show ?thesis
    by (auto simp: check_nlmsg_error_def Let_def)
qed

lemma ack_msg_panics:
  assumes "off + 16 \<le> msg_end" and "msg_end \<le> length rx" and "parse_nlmsghdr rx off = Some nlh" and "nlmsg_seq nlh = seq"
  shows "fst (ack_msg p nlh rx off msg_end c w) \<noteq> Blocked \<and>
    (fst (ack_msg p nlh rx off msg_end c w) = Panic \<longrightarrow> p = Debug \<and> least_error seq rx)"
proof -
  let ?pl = "drop (off + 16) (take msg_end rx)"
  have t: "take 4 ?pl = [0, 0, 0, 0x80] \<Longrightarrow> take 4 (drop (off + 16) rx) = [0, 0, 0, 0x80]"
  proof -
    assume a: "take 4 ?pl = [0, 0, 0, 0x80]"
    then have "length (take 4 ?pl) = 4"
      by simp
    then have "4 \<le> msg_end - (off + 16)"
      using assms(2) by simp
    then have "take 4 ?pl = take 4 (drop (off + 16) rx)"
      by (simp add: drop_take min_def)
    with a show ?thesis by simp
  qed
  show ?thesis
    using check_nlmsg_error_panics [of p ?pl] t assms
    by (cases "check_nlmsg_error p ?pl")
      (auto simp: ack_msg_def error_arm_def slice_ok least_error_def intro!: exI [of _ off])
qed

lemma scan_ack_panics:
  "fst (scan_msgs seq (ack_msg p) rx off c w) \<noteq> Blocked \<and>
   (fst (scan_msgs seq (ack_msg p) rx off c w) = Panic \<longrightarrow> p = Debug \<and> least_error seq rx)"
proof (induction "length rx - off" arbitrary: off c w rule: less_induct)
  case less
  show ?case
  proof (cases "off + 16 \<le> length rx")
    case False
    then show ?thesis
      by (subst (1 2) scan_msgs.simps) simp
  next
    case True
    then obtain nlh where nlh: "parse_nlmsghdr rx off = Some nlh"
      by (simp add: parse_nlmsghdr_def)
    let ?n = "unat (nlmsg_len nlh)"
    show ?thesis
    proof (cases "?n < 16 \<or> off + ?n > length rx")
      case True
      with nlh \<open>off + 16 \<le> length rx\<close> show ?thesis
        by (subst (1 2) scan_msgs.simps) (auto simp: Let_def)
    next
      case False
      have IH: "fst (scan_msgs seq (ack_msg p) rx (off + nlmsg_align ?n) c w) \<noteq> Blocked \<and>
         (fst (scan_msgs seq (ack_msg p) rx (off + nlmsg_align ?n) c w) = Panic \<longrightarrow> p = Debug \<and> least_error seq rx)"
        for c w
        using less.hyps [of "off + nlmsg_align ?n"] scan_progress [OF True, of ?n] False by simp
      have act: "nlmsg_seq nlh = seq \<Longrightarrow> fst (ack_msg p nlh rx off (off + ?n) c w) \<noteq> Blocked \<and>
         (fst (ack_msg p nlh rx off (off + ?n) c w) = Panic \<longrightarrow> p = Debug \<and> least_error seq rx)"
        using False nlh by (intro ack_msg_panics) simp_all
      from False True nlh act IH show ?thesis
        by (subst (1 2) scan_msgs.simps) (auto simp: Let_def split: prod.splits res.splits flow.splits)
    qed
  qed
qed

section \<open>Answers written out\<close>

text \<open>Messages a kernel sends, and a world whose connections answer with given datagrams.\<close>

definition reply :: "u16 \<Rightarrow> u32 \<Rightarrow> bytes \<Rightarrow> msg" where
  "reply ty seq body =
     (\<lparr>nlmsg_len = of_nat (16 + length body), nlmsg_type = ty, nlmsg_flags = 0, nlmsg_seq = seq,
       nlmsg_pid = 0\<rparr>, body)"

definition genl_body :: "u8 \<Rightarrow> (u16 \<times> bytes) list \<Rightarrow> bytes" where
  "genl_body cmd attrs =
     enc_GenlmsghdrRaw \<lparr>genl_cmd = cmd, genl_version = 1, genl_reserved = 0\<rparr> @ push_attrs [] attrs"

definition family_reply :: "u16 \<Rightarrow> msg" where
  "family_reply fid = reply GENL_ID_CTRL 1 (genl_body 1 [(CTRL_ATTR_FAMILY_ID, to_le 2 fid)])"

definition error_reply :: "32 word \<Rightarrow> msg" where
  "error_reply code =
     reply NLMSG_ERROR 2 (enc_NlmsgerrRaw \<lparr>nlmsgerr_error = code, nlmsgerr_msg = fst (reply 0 2 [])\<rparr>)"

definition done_reply :: msg where
  "done_reply = reply NLMSG_DONE 2 []"

definition world_of :: "msg list list list \<Rightarrow> world" where
  "world_of answers_of = \<lparr>w_conns = (\<lambda>n. kernel_answers (answers_of ! n)), w_next = 0, w_trace = []\<rparr>"

lemma world_of_simps [simp]:
  "w_conns (world_of as) n = kernel_answers (as ! n)" "w_next (world_of as) = 0"
  "w_trace (world_of as) = []"
  by (simp_all add: world_of_def)

lemma body_attrs_genl_body [simp]: "list_all small_attr attrs \<Longrightarrow> body_attrs (genl_body cmd attrs) = attrs"
  by (simp add: body_attrs_def genl_body_def codec_simps parse_attrs_push_attrs)

lemma length_genl_body [simp]: "length (genl_body cmd attrs) = 4 + length (push_attrs [] attrs)"
  by (simp add: genl_body_def codec_simps)

lemma own_reply [simp]: "own seq (reply ty seq' body) \<longleftrightarrow> seq' = seq"
  by (simp add: own_def reply_def)

lemma wf_reply: "length body < 60000 \<Longrightarrow> wf_msg (reply ty seq body)"
  unfolding wf_msg_def reply_def fst_conv snd_conv NlmsghdrRaw.select_convs
  by (rule unat_of_nat_small) simp

lemma length_datagram_reply: "length (datagram [reply ty seq body]) = nla_align (16 + length body)"
  by (simp add: datagram_simps reply_def length_frame del: frame.simps)

lemma wf_datagram_single: "length body < 60000 \<Longrightarrow> wf_datagram [reply ty seq body]"
  using nla_align_less [of "16 + length body"] length_datagram_reply [of ty seq body]
  by (simp add: wf_datagram_def wf_reply RECV_CAP_def)

lemma clean_for_single:
  "clean_for seq [] " 
  "clean_for seq ([reply ty seq' body] # mss) \<longleftrightarrow>
     wf_datagram [reply ty seq' body] \<and>
     (seq' = seq \<longrightarrow> ty = NLMSG_ERROR \<or> ty = NLMSG_DONE \<or> 4 \<le> length body) \<and> clean_for seq mss"
  by (auto simp: clean_for_def genl_ok_def reply_def)

lemma find_family_id_to_le: "find_family_id [(CTRL_ATTR_FAMILY_ID, to_le 2 fid)] = Some fid"
proof -
  have "[to_le 2 fid ! 0, to_le 2 fid ! 1] = to_le 2 fid"
    by (intro nth_equalityI) (auto simp: less_Suc_eq numeral_2_eq_2)
  then have "from_le [to_le 2 fid ! 0, to_le 2 fid ! 1] = fid"
    by (simp only: from_le_to_le_u16)
  then show ?thesis
    by (simp del: from_le.simps)
qed

lemma family_answer_reply: "family_answer fid [family_reply fid]"
proof -
  have "list_all small_attr [(CTRL_ATTR_FAMILY_ID, to_le 2 fid)]"
    by (simp add: small_attr_def)
  with find_family_id_to_le [of fid] show ?thesis
    by (simp add: family_answer_def family_reply_def own_def reply_def del: find_family_id.simps)
qed

lemma answering_world_of:
  assumes "as = ([family_reply fid] # mss) # others" and "clean_for 1 mss" and "clean_for 2 mss"
  shows "answering (world_of as) fid [family_reply fid] mss"
proof -
  have "wf_datagram [family_reply fid]"
    unfolding family_reply_def by (rule wf_datagram_single) (simp add: length_push_attrs nla_align_eq del: push_attrs.simps)
  then have "clean_for 1 ([family_reply fid] # mss)"
    using assms(2) by (simp add: family_reply_def clean_for_single)
  with assms show ?thesis
    by (simp add: answering_def family_answer_reply)
qed

section \<open>Properties\<close>

text \<open>
  C12. \<open>receive_struct\<close>, byte for byte, does what the message-level view of the answer says: the
  value, error or panic it returns and everything it sends, for every kernel answer whose
  datagrams are made of well-formed messages.
\<close>

theorem receive_struct_refines_view:
  assumes "answering w fid fam mss"
  shows "receive_struct p size_of dec cmd attr_type in_data w =
     only_value (view_loop 2 (receive_view p size_of dec attr_type) mss ()
       (requested (request_packet fid NLM_F_REQUEST cmd
          (case in_data of Some d \<Rightarrow> [(attr_type, d)] | None \<Rightarrow> [])) w))"
  by (rule receive_struct_answer [OF assms])

theorem receive_struct_refines_view_witness:
  "receive_struct Release 8 dec_TutuConfig 1 1 None (world_of [[[family_reply 29], [error_reply (- 1)]]]) =
     only_value (view_loop 2 (receive_view Release 8 dec_TutuConfig 1) [[error_reply (- 1)]] ()
       (requested (request_packet 29 NLM_F_REQUEST 1 []) (world_of [[[family_reply 29], [error_reply (- 1)]]])))"
proof -
  have "clean_for n [[error_reply (- 1)]]" for n
    by (simp add: error_reply_def clean_for_single wf_datagram_single codec_simps)
  from receive_struct_refines_view [OF answering_world_of [OF refl this this],
      of Release 8 dec_TutuConfig 1 1 None 29 "[]"] show ?thesis
    by (simp only: option.case)
qed

text \<open>
  A configuration that the kernel sends is the one \<open>receive_struct\<close> returns, after any
  datagrams for others and behind any other attributes, and exactly two datagrams go out:
  the family lookup and the request.
\<close>

theorem config_is_received:
  assumes "answering w fid fam (noise @ ms # rest)"
    and "list_all (\<lambda>ms. find (own 2) ms = None) noise"
    and "find (own 2) ms = Some (h, body)"
    and "nlmsg_type h \<noteq> NLMSG_ERROR" and "nlmsg_type h \<noteq> NLMSG_DONE"
    and "body_attrs body = pre @ (TUTU_ATTR_CONFIG, enc_TutuConfig cfg @ extra) # post"
    and "TUTU_ATTR_CONFIG \<notin> fst ` set pre" and "valid_TutuConfig cfg"
  shows "receive_struct p 8 dec_TutuConfig TUTU_CMD_GET_CONFIG TUTU_ATTR_CONFIG None w =
    (Ok cfg, requested (request_packet fid NLM_F_REQUEST TUTU_CMD_GET_CONFIG []) w)"
  using wTutuConfig.receive_struct_value [OF assms, of p TUTU_CMD_GET_CONFIG None] by simp

theorem config_is_received_witness:
  "let cfg = \<lparr>session_max_age = 60, cfg_reserved0 = 0, is_server = 1, cfg_reserved1 = [0, 0]\<rparr>;
       w = world_of [[[family_reply 29], [reply 29 7 []],
             [reply 29 2 (genl_body 1 [(9, [1]), (1, enc_TutuConfig cfg)])]]]
   in receive_struct Debug 8 dec_TutuConfig 1 1 None w =
        (Ok cfg, requested (request_packet 29 1 1 []) w)"
proof -
  let ?cfg = "\<lparr>session_max_age = 60, cfg_reserved0 = 0, is_server = 1, cfg_reserved1 = [0, 0]\<rparr>"
  let ?body = "genl_body 1 [(9, [1]), (1, enc_TutuConfig ?cfg)]"
  have v: "valid_TutuConfig ?cfg"
    by (simp add: valid_TutuConfig_def)
  have sm: "list_all small_attr [(9, [1]), (1, enc_TutuConfig ?cfg)]"
    using v by (simp add: small_attr_def codec_simps)
  have "length ?body < 60000"
    using v by (simp add: length_push_attrs nla_align_eq codec_simps del: push_attrs.simps)
  then have "clean_for n ([[reply 29 7 []]] @ [reply 29 2 ?body] # [])" if "n \<noteq> 7" for n
    using that by (simp add: clean_for_single wf_datagram_single)
  then have "clean_for 1 ([[reply 29 7 []]] @ [reply 29 2 ?body] # [])"
    "clean_for 2 ([[reply 29 7 []]] @ [reply 29 2 ?body] # [])" by auto
  from answering_world_of [OF refl this, of 29 "[]"]
  show ?thesis
    unfolding Let_def
    using config_is_received [of "world_of [[[family_reply 29], [reply 29 7 []], [reply 29 2 ?body]]]"
      29 "[family_reply 29]" "[[reply 29 7 []]]" "[reply 29 2 ?body]" "[]"
      "fst (reply 29 2 ?body)" ?body "[(9, [1])]" ?cfg "[]" "[]" Debug] v sm
    by (simp add: reply_def own_def)
qed

text \<open>
  C13. An acknowledged update reports the kernel's verdict: after the family lookup exactly the
  request with the encoded struct goes out, the call returns a value when the acknowledgement
  carries code 0 and otherwise the error with the negated code.
\<close>

theorem update_reports_the_verdict:
  assumes "answering w fid fam (noise @ ms # rest)"
    and "list_all (\<lambda>ms. find (own 2) ms = None) noise"
    and "find (own 2) ms = Some (h, enc_NlmsgerrRaw e @ extra)" and "nlmsg_type h = NLMSG_ERROR"
    and "sint (nlmsgerr_error e) \<noteq> - (2 ^ 31)"
  shows "send_struct p enc cmd attr_type v True w =
    (if nlmsgerr_error e = 0 then Ok ()
     else Err (Ctx ''netlink error'' (OsErrno (- nlmsgerr_error e))),
     requested (request_packet fid (NLM_F_REQUEST OR NLM_F_ACK) cmd [(attr_type, enc v)]) w)"
  unfolding send_struct_def by (rule send_payload_acked [OF assms])

theorem update_reports_the_verdict_witness:
  "fst (send_struct Debug enc_TutuConfig 2 1
      \<lparr>session_max_age = 60, cfg_reserved0 = 0, is_server = 1, cfg_reserved1 = [0, 0]\<rparr> True
      (world_of [[[family_reply 29], [error_reply (- 17)]]])) = Err (Ctx ''netlink error'' (OsErrno 17))"
proof -
  have "clean_for n ([] @ [error_reply (- 17)] # [])" for n
    by (simp add: error_reply_def clean_for_single wf_datagram_single codec_simps)
  note a = answering_world_of [OF refl this this, of 29 "[]"]
  have "find (own 2) [error_reply (- 17)] =
      Some (fst (error_reply (- 17)),
        enc_NlmsgerrRaw \<lparr>nlmsgerr_error = - 17, nlmsgerr_msg = fst (reply 0 2 [])\<rparr> @ [])"
    by (simp add: error_reply_def reply_def own_def)
  note f = this
  have t: "list_all (\<lambda>ms. find (own 2) ms = None) []" "nlmsg_type (fst (error_reply (- 17))) = NLMSG_ERROR"
    "sint (nlmsgerr_error \<lparr>nlmsgerr_error = - 17, nlmsgerr_msg = fst (reply 0 2 [])\<rparr>) \<noteq> - (2 ^ 31)"
    by (simp_all add: error_reply_def reply_def)
  from arg_cong [OF update_reports_the_verdict [OF a t(1) f t(2,3), of Debug enc_TutuConfig 2 1
      "\<lparr>session_max_age = 60, cfg_reserved0 = 0, is_server = 1, cfg_reserved1 = [0, 0]\<rparr>"], of fst]
  show ?thesis
    by (simp only: append_Nil NlmsgerrRaw.select_convs fst_conv) simp
qed

text \<open>
  C14. A dump calls the handler once for each entry, in the order of the entries, across all
  datagrams, with the state the previous call left, stops at its first error, and ends with
  the \<open>NLMSG_DONE\<close> message.
\<close>

theorem dump_structs_visits_each_entry:
  assumes "answering w fid fam (mss @ fin # rest)"
    and "list_all2 (list_all2 (entry_msg attr_type (struct_payload size_of dec))) mss vss"
    and "find (own 2) fin = Some (h, body)" and "nlmsg_type h = NLMSG_DONE"
  shows "dump_structs p size_of dec cmd attr_type handler c w =
    run_handler handler (concat vss) c
      (requested (request_packet fid (NLM_F_REQUEST OR NLM_F_DUMP) cmd []) w)"
  unfolding dump_structs_def by (rule dump_with_entries [OF assms])

theorem dump_structs_visits_each_entry_witness:
  "let e = dec_TutuStats (replicate 40 1); f = dec_TutuStats (replicate 40 2);
       w = world_of [[[family_reply 29], [reply 29 2 (genl_body 3 [(2, enc_TutuStats e)])],
             [reply 29 2 (genl_body 3 [(2, enc_TutuStats f)])], [done_reply]]]
   in fst (dump_structs Release 40 dec_TutuStats 3 2 (\<lambda>v c. ret (c @ [v])) [] w) = Ok [e, f]"
proof -
  let ?e = "dec_TutuStats (replicate 40 1)" and ?f = "dec_TutuStats (replicate 40 2)"
  let ?b = "\<lambda>v. genl_body 3 [(2, enc_TutuStats v)]"
  let ?mss = "[[reply 29 2 (?b ?e)], [reply 29 2 (?b ?f)]]"
  have "length (?b v) < 60000" for v
    by (simp add: length_push_attrs nla_align_eq codec_simps valid_TutuStats_def del: push_attrs.simps)
  then have "clean_for n (?mss @ [done_reply] # [])" if "n = 1 \<or> n = 2" for n
    using that by (auto simp: done_reply_def clean_for_single wf_datagram_single)
  then have "clean_for 1 (?mss @ [done_reply] # [])" "clean_for 2 (?mss @ [done_reply] # [])" by simp_all
  note a = answering_world_of [OF refl this, of 29 "[]"]
  have "entry_msg 2 (struct_payload 40 dec_TutuStats) (reply 29 2 (?b v)) v" for v
    by (simp add: entry_msg_def reply_def own_def small_attr_def struct_payload_def codec_simps
        valid_TutuStats_def)
  then have es: "list_all2 (list_all2 (entry_msg 2 (struct_payload 40 dec_TutuStats))) ?mss [[?e], [?f]]"
    by simp
  have d: "find (own 2) [done_reply] = Some (fst done_reply, [])" "nlmsg_type (fst done_reply) = NLMSG_DONE"
    by (simp_all add: done_reply_def reply_def own_def)
  show ?thesis
    unfolding Let_def
    using dump_structs_visits_each_entry [OF a es d, of Release 3 "\<lambda>v c. ret (c @ [v])" "[]"]
    by (simp add: then_do_def)
qed

text \<open>
  C39. What the bounds checks of the loops miss: a message for us of 16 to 19 bytes that is
  neither an error nor the end, with four more bytes in the datagram, passes every check and
  then takes a slice that ends before it begins, so the program panics.
\<close>

theorem short_genl_message_panics:
  assumes "nlmsg_seq h = seq" and "16 \<le> unat (nlmsg_len h)" and "unat (nlmsg_len h) < 20"
    and "nlmsg_type h \<noteq> NLMSG_ERROR" and "nlmsg_type h \<noteq> NLMSG_DONE" and "4 \<le> length rest"
    and "length rest + 16 \<le> RECV_CAP"
  shows "recv_loop seq (receive_msg p size_of dec attr_type)
      (sock\<lparr>ns_rx := Inr (enc_NlmsghdrRaw h @ rest) # rx\<rparr>) () w = (Panic, w)"
proof -
  let ?d = "enc_NlmsghdrRaw h @ rest"
  have parse: "parse_nlmsghdr ?d 0 = Some h"
    by (simp add: parse_nlmsghdr_def codec_simps)
  have genl: "\<exists>g. parse_genlhdr ?d 16 = Some g"
    using assms(6) by (simp add: parse_genlhdr_def codec_simps)
  have "slice ?d 20 (unat (nlmsg_len h)) = Panic"
    using assms(3) by (simp add: slice_def)
  with genl have "receive_msg p size_of dec attr_type h ?d 0 (unat (nlmsg_len h)) () w = (Panic, w)"
    using assms(4,5) by (auto simp: receive_msg_def msg_attrs_def Let_def)
  with parse assms have "scan_msgs seq (receive_msg p size_of dec attr_type) ?d 0 () w = (Panic, w)"
    by (subst scan_msgs.simps) (simp add: codec_simps Let_def)
  moreover have "sock_recv (sock\<lparr>ns_rx := Inr ?d # rx\<rparr>) = Ok (?d, sock\<lparr>ns_rx := rx\<rparr>)"
    using assms(7) by (simp add: sock_recv_def codec_simps)
  ultimately show ?thesis
    by (subst recv_loop.simps) simp
qed

theorem short_genl_message_panics_witness:
  "recv_loop 2 (receive_msg Release 8 dec_TutuConfig 1)
     \<lparr>ns_seq = 3, ns_pid = 0, ns_tx = [],
      ns_rx = [Inr (enc_NlmsghdrRaw \<lparr>nlmsg_len = 16, nlmsg_type = 29, nlmsg_flags = 0, nlmsg_seq = 2,
        nlmsg_pid = 0\<rparr> @ [0, 0, 0, 0])]\<rparr> () (world_of []) = (Panic, world_of [])"
  using short_genl_message_panics [of "\<lparr>nlmsg_len = 16, nlmsg_type = 29, nlmsg_flags = 0, nlmsg_seq = 2,
      nlmsg_pid = 0\<rparr>" 2 "[0, 0, 0, 0]" Release 8 dec_TutuConfig 1 "[]"
      "\<lparr>ns_seq = 3, ns_pid = 0, ns_tx = [], ns_rx = []\<rparr>"]
  by (simp add: RECV_CAP_def)

text \<open>
  C37. Waiting for an acknowledgement panics on one reply only, whatever bytes arrive: if the loop
  panics then the program is a debug build and one of the datagrams holds an error message for this
  request with the code \<open>-2^31\<close>, whose negation overflows. A release build never panics there.
\<close>

theorem ack_loop_panics_on_least_code_only:
  assumes "fst (recv_loop seq (ack_msg p) sock () w) = Panic"
  shows "p = Debug \<and> (\<exists>rx. Inr rx \<in> set (ns_rx sock) \<and> least_error seq (take RECV_CAP rx))"
  using assms
proof (induction "length (ns_rx sock)" arbitrary: sock w rule: less_induct)
  case less
  show ?case
  proof (cases "sock_recv sock")
    case (Ok r)
    obtain rx sock' where r: "r = (rx, sock')" by (cases r)
    then obtain d where d: "Inr d \<in> set (ns_rx sock)" "rx = take RECV_CAP d" "set (ns_rx sock') \<subseteq> set (ns_rx sock)"
      using Ok by (auto simp: sock_recv_def split: list.splits sum.splits) blast
    have "length (ns_rx sock') < length (ns_rx sock)"
      using Ok by (simp add: r sock_recv_less)
    note IH = less.hyps [OF this]
    show ?thesis
    proof (cases "fst (scan_msgs seq (ack_msg p) rx 0 () w) = Panic")
      case True
      with scan_ack_panics [of seq p rx 0 "()" w] d show ?thesis by auto
    next
      case False
      with less.prems Ok scan_ack_panics [of seq p rx 0 "()" w]
      obtain w' where "fst (recv_loop seq (ack_msg p) sock' () w') = Panic"
        by (subst (asm) recv_loop.simps) (auto simp: r split: prod.splits res.splits flow.splits)
      from IH [OF this] d(3) show ?thesis by auto
    qed
  qed (use less.prems in \<open>subst (asm) recv_loop.simps; auto simp: sock_recv_def split: list.splits sum.splits\<close>)+
qed

theorem ack_loop_panics_on_least_code_only_witness:
  "let d = datagram [error_reply 0x80000000];
       sock = \<lparr>ns_seq = 3, ns_pid = 0, ns_tx = [], ns_rx = [Inr d]\<rparr>
   in fst (recv_loop 2 (ack_msg Debug) sock () (world_of [])) = Panic \<and> least_error 2 (take RECV_CAP d)"
proof -
  let ?ms = "[error_reply 0x80000000]"
  let ?sock = "\<lparr>ns_seq = 3, ns_pid = 0, ns_tx = [], ns_rx = [Inr (datagram ?ms)]\<rparr>"
  have "wf_datagram ?ms"
    by (simp add: error_reply_def wf_datagram_single codec_simps)
  moreover have "view_loop 2 (ack_view Debug) [?ms] () w = (Panic, w)" for w
    by (simp add: error_reply_def reply_def own_def ack_view_def error_view_def check_nlmsg_error_code [where rest = "[]", simplified])
  ultimately have "fst (recv_loop 2 (ack_msg Debug) ?sock () (world_of [])) = Panic"
    using ack.recv_loop_view [of "[?ms]" 2 Debug "?sock\<lparr>ns_rx := []\<rparr>" "()" "world_of []"] by simp
  with ack_loop_panics_on_least_code_only [OF this] show ?thesis
    by (simp add: Let_def)
qed

end
