(* ===== verification/Commands.thy ===== *)
theory Commands
  imports Helper Netlink_Requests
begin

text \<open>
  \<open>ktuctl-rs/src/commands.rs\<close>: every command as a computation over the world of netlink
  connections and output. A command reads the record \<open>ctl\<close> and its arguments. Each \<open>print!\<close> and
  \<open>println!\<close> is one output event.
\<close>

section \<open>\<open>load\<close> and \<open>unload\<close>\<close>

text \<open>The closure of the two listings; the captured variable is \<open>found\<close>.\<close>

definition list_interface :: "string \<Rightarrow> bool \<Rightarrow> (world, bool) comp" where
  "list_interface s found = then_do (outln (''  '' @ s)) (\<lambda>_. ret True)"

definition print_list :: "ctl \<Rightarrow> (world, unit) comp" where
  "print_list E =
     then_do (outln ''Managed interfaces:'') (\<lambda>_.
     then_do (dump_strings (ct_profile E) TUTU_CMD_IFNAME_GET TUTU_ATTR_IFNAME_NAME list_interface False) (\<lambda>found.
     then_do (if \<not> found then outln ''  [all interfaces]'' else ret ()) (\<lambda>_.
     outln [])))"

fun load_loop :: "ctl \<Rightarrow> string list \<Rightarrow> (world, unit) comp" where
  "load_loop E (a # ifname # args) =
     (if a = ''iface'' then
        then_do (with_context (''failed to add interface '' @ ifname)
          (send_string (ct_profile E) TUTU_CMD_IFNAME_ADD TUTU_ATTR_IFNAME_NAME ifname True)) (\<lambda>_.
        then_do (outln (''Adding interface: '' @ ifname)) (\<lambda>_.
        load_loop E args))
      else load_loop E (ifname # args))"
| "load_loop E _ = ret ()"

definition cmd_load :: "ctl \<Rightarrow> string list \<Rightarrow> (world, unit) comp" where
  "cmd_load E args =
     (if args = [] then print_list E
      else then_do (load_loop E args) (\<lambda>_. print_list E))"

fun unload_loop :: "ctl \<Rightarrow> string list \<Rightarrow> (world, unit) comp" where
  "unload_loop E (a # ifname # args) =
     (if a = ''iface'' then
        then_do (try_do (send_string (ct_profile E) TUTU_CMD_IFNAME_DEL TUTU_ATTR_IFNAME_NAME ifname True)
          (\<lambda>_. outln (''Removing interface: '' @ ifname))
          (\<lambda>e. outln (''Error removing '' @ ifname @ '': '' @ error_display e @
             '' (Interface may not be in list)''))) (\<lambda>_.
        unload_loop E args)
      else unload_loop E (ifname # args))"
| "unload_loop E _ = ret ()"

definition cmd_unload :: "ctl \<Rightarrow> string list \<Rightarrow> (world, unit) comp" where
  "cmd_unload E args =
     then_do (unload_loop E args) (\<lambda>_.
     then_do (outln ''Managed interfaces:'') (\<lambda>_.
     then_do (dump_strings (ct_profile E) TUTU_CMD_IFNAME_GET TUTU_ATTR_IFNAME_NAME list_interface False) (\<lambda>found.
     if \<not> found then outln ''  [all interfaces]'' else ret ())))"

section \<open>\<open>server\<close> and \<open>client\<close>\<close>

fun server_loop :: "u32 \<Rightarrow> string list \<Rightarrow> u32 res" where
  "server_loop max_age (a # v # args) =
     (if a = ''max-age'' then
        (case parse_u32 v of
           Inr n \<Rightarrow> server_loop n args
         | Inl e \<Rightarrow> Err (Ext (int_error_display e)))
      else server_loop max_age (v # args))"
| "server_loop max_age _ = Ok max_age"

definition cmd_server :: "ctl \<Rightarrow> string list \<Rightarrow> (world, unit) comp" where
  "cmd_server E args =
     then_do (lift_res (server_loop 60 args)) (\<lambda>max_age.
     then_do (log_info (''server mode, session max age='' @ show_word max_age)) (\<lambda>_.
     let cfg = \<lparr>session_max_age = max_age, cfg_reserved0 = 0, is_server = 1, cfg_reserved1 = [0, 0]\<rparr>
     in send_struct (ct_profile E) enc_TutuConfig TUTU_CMD_SET_CONFIG TUTU_ATTR_CONFIG cfg True))"

definition cmd_client :: "ctl \<Rightarrow> string list \<Rightarrow> (world, unit) comp" where
  "cmd_client E args =
     then_do (outln ''client mode'') (\<lambda>_.
     let cfg = \<lparr>session_max_age = 0, cfg_reserved0 = 0, is_server = 0, cfg_reserved1 = [0, 0]\<rparr>
     in send_struct (ct_profile E) enc_TutuConfig TUTU_CMD_SET_CONFIG TUTU_ATTR_CONFIG cfg True)"

definition get_config :: "ctl \<Rightarrow> (world, TutuConfig) comp" where
  "get_config E = receive_struct (ct_profile E) 8 dec_TutuConfig TUTU_CMD_GET_CONFIG TUTU_ATTR_CONFIG None"

section \<open>\<open>client-add\<close>\<close>

text \<open>The local variables of the argument loop.\<close>

record client_add_vars =
  ca_address :: string
  ca_port :: u16
  ca_uid :: u8
  ca_comment :: string
  ca_uid_set :: bool
  ca_xor_hex :: string

definition client_add_init :: client_add_vars where
  "client_add_init =
     \<lparr>ca_address = [], ca_port = 0, ca_uid = 0, ca_comment = [], ca_uid_set = False, ca_xor_hex = []\<rparr>"

text \<open>\<open>.parse()?\<close> of a port.\<close>

definition parse_u16_arg :: "string \<Rightarrow> u16 res" where
  "parse_u16_arg s = (case parse_u16 s of Inr n \<Rightarrow> Ok n | Inl e \<Rightarrow> Err (Ext (int_error_display e)))"

fun client_add_loop :: "ctl \<Rightarrow> client_add_vars \<Rightarrow> string list \<Rightarrow> client_add_vars res" where
  "client_add_loop E v [] = Ok v"
| "client_add_loop E v (a # args) =
     (if a = ''address'' \<or> a = ''addr'' then
        (case args of
           [] \<Rightarrow> Err (Msg ''missing value for address'')
         | x # args \<Rightarrow> client_add_loop E (v\<lparr>ca_address := x\<rparr>) args)
      else if a = ''port'' then
        (case args of
           [] \<Rightarrow> Err (Msg ''missing value for port'')
         | x # args \<Rightarrow> res_bind (parse_u16_arg x) (\<lambda>n. client_add_loop E (v\<lparr>ca_port := n\<rparr>) args))
      else if a = ''uid'' \<or> a = ''user'' then
        (case args of
           [] \<Rightarrow> Err (Msg ''missing value for uid'')
         | x # args \<Rightarrow> res_bind (resolve_uid E x) (\<lambda>u.
             client_add_loop E (v\<lparr>ca_uid := u, ca_uid_set := True\<rparr>) args))
      else if a = ''comment'' then
        (case args of
           [] \<Rightarrow> Err (Msg ''missing value for comment'')
         | x # args \<Rightarrow> client_add_loop E (v\<lparr>ca_comment := x\<rparr>) args)
      else if a = ''xor'' then
        (case args of
           [] \<Rightarrow> Err (Msg ''missing value for xor'')
         | x # args \<Rightarrow> client_add_loop E (v\<lparr>ca_xor_hex := x\<rparr>) args)
      else client_add_loop E v args)"

text \<open>The key of the \<open>xor\<close> argument, all zero without it.\<close>

definition xor_key_of :: "string \<Rightarrow> (bytes \<times> u8) res" where
  "xor_key_of xor_hex =
     (let xor_key = replicate TUTU_XOR_KEY_MAX 0 in
      if xor_hex \<noteq> [] then parse_xor_key xor_hex xor_key else Ok (xor_key, 0))"

definition client_add_egress :: "client_add_vars \<Rightarrow> In6Addr \<Rightarrow> bytes \<Rightarrow> u8 \<Rightarrow> TutuEgress" where
  "client_add_egress v in6 xor_key xor_key_len =
     \<lparr>e_key = \<lparr>ek_address = in6, ek_port = htons (ca_port v), ek_pad0 = [0, 0]\<rparr>,
      e_value = \<lparr>ev_xor_key = xor_key, ev_comment = copy_comment (replicate 22 0) (ca_comment v),
        ev_xor_key_len = xor_key_len, ev_uid = ca_uid v\<rparr>,
      e_pad0 = [0, 0, 0, 0], e_map_flags = TUTU_ANY\<rparr>"

definition client_add_ingress :: "client_add_vars \<Rightarrow> In6Addr \<Rightarrow> bytes \<Rightarrow> u8 \<Rightarrow> TutuIngress" where
  "client_add_ingress v in6 xor_key xor_key_len =
     \<lparr>i_key = \<lparr>ik_address = in6, ik_uid = ca_uid v, ik_pad0 = [0, 0, 0]\<rparr>,
      i_value = \<lparr>iv_xor_key = xor_key, iv_xor_key_len = xor_key_len, iv_reserved0 = 0,
        iv_port = htons (ca_port v), iv_reserved1 = [0, 0, 0, 0]\<rparr>,
      i_pad0 = [0, 0, 0, 0], i_map_flags = TUTU_NOEXIST\<rparr>"

definition cmd_client_add :: "ctl \<Rightarrow> string list \<Rightarrow> (world, unit) comp" where
  "cmd_client_add E args =
     then_do (lift_res (client_add_loop E client_add_init args)) (\<lambda>v.
     if ca_address v = [] \<or> ca_port v = 0 \<or> \<not> ca_uid_set v then
       fail (Msg ''UID, address, and port must be specified'')
     else then_do (get_config E) (\<lambda>cfg.
     if is_server cfg \<noteq> 0 then fail (Msg ''must be in client mode'')
     else then_do (lift_res (resolve_ip E (ca_address v))) (\<lambda>in6.
     then_do (lift_res (xor_key_of (ca_xor_hex v))) (\<lambda>(xor_key, xor_key_len).
     then_do (try_do
         (send_struct (ct_profile E) enc_TutuIngress TUTU_CMD_UPDATE_INGRESS TUTU_ATTR_INGRESS
            (client_add_ingress v in6 xor_key xor_key_len) True)
         (\<lambda>_. ret ())
         (\<lambda>e. fail (Msg (''ingress update failed (possible port conflict): '' @ error_display e)))) (\<lambda>_.
     then_do (send_struct (ct_profile E) enc_TutuEgress TUTU_CMD_UPDATE_EGRESS TUTU_ATTR_EGRESS
         (client_add_egress v in6 xor_key xor_key_len) True) (\<lambda>_.
     log_info (''client set: '' @ resolve_hostname E (ca_uid v) False @ '', address: '' @
         ip_to_string in6 @ '', port: '' @ show_word (ca_port v) @ '', comment: '' @ ca_comment v @
         (if 0 < xor_key_len then '', with xor key'' else []))))))))"

section \<open>\<open>client-del\<close>\<close>

record client_del_vars =
  cd_address :: string
  cd_uid :: u8
  cd_uid_set :: bool

definition client_del_init :: client_del_vars where
  "client_del_init = \<lparr>cd_address = [], cd_uid = 0, cd_uid_set = False\<rparr>"

fun client_del_loop :: "ctl \<Rightarrow> client_del_vars \<Rightarrow> string list \<Rightarrow> client_del_vars res" where
  "client_del_loop E v [] = Ok v"
| "client_del_loop E v (a # args) =
     (if a = ''address'' \<or> a = ''addr'' then
        (case args of
           [] \<Rightarrow> Err (Msg ''missing value for address'')
         | x # args \<Rightarrow> client_del_loop E (v\<lparr>cd_address := x\<rparr>) args)
      else if a = ''uid'' \<or> a = ''user'' then
        (case args of
           [] \<Rightarrow> Err (Msg ''missing value for uid'')
         | x # args \<Rightarrow> res_bind (resolve_uid E x) (\<lambda>u.
             client_del_loop E (v\<lparr>cd_uid := u, cd_uid_set := True\<rparr>) args))
      else client_del_loop E v args)"

text \<open>The closure that looks for the egress entry; the captured variable is \<open>egress_todel\<close>.\<close>

definition match_egress :: "u8 \<Rightarrow> In6Addr \<Rightarrow> TutuEgress \<Rightarrow> TutuEgress option \<Rightarrow> (world, TutuEgress option) comp" where
  "match_egress uid in6 e todel =
     ret (if ev_uid (e_value e) = uid \<and> ek_address (e_key e) = in6 then Some e else todel)"

definition client_del_ingress :: "u8 \<Rightarrow> In6Addr \<Rightarrow> TutuIngress" where
  "client_del_ingress uid in6 =
     \<lparr>i_key = \<lparr>ik_address = in6, ik_uid = uid, ik_pad0 = [0, 0, 0]\<rparr>,
      i_value = \<lparr>iv_xor_key = replicate TUTU_XOR_KEY_MAX 0, iv_xor_key_len = 0, iv_reserved0 = 0,
        iv_port = 0, iv_reserved1 = [0, 0, 0, 0]\<rparr>,
      i_pad0 = [0, 0, 0, 0], i_map_flags = 0\<rparr>"

definition cmd_client_del :: "ctl \<Rightarrow> string list \<Rightarrow> (world, unit) comp" where
  "cmd_client_del E args =
     then_do (lift_res (client_del_loop E client_del_init args)) (\<lambda>v.
     if cd_address v = [] \<or> \<not> cd_uid_set v then fail (Msg ''UID and address must be specified'')
     else then_do (lift_res (resolve_ip E (cd_address v))) (\<lambda>in6.
     then_do (dump_structs (ct_profile E) 120 dec_TutuEgress TUTU_CMD_GET_EGRESS TUTU_ATTR_EGRESS
         (match_egress (cd_uid v) in6) None) (\<lambda>egress_todel.
     then_do (case egress_todel of
         Some e \<Rightarrow>
           then_do (send_struct (ct_profile E) enc_TutuEgress TUTU_CMD_DELETE_EGRESS TUTU_ATTR_EGRESS e True)
             (\<lambda>_. ret True)
       | None \<Rightarrow> ret False) (\<lambda>deleted.
     then_do (try_do
         (send_struct (ct_profile E) enc_TutuIngress TUTU_CMD_DELETE_INGRESS TUTU_ATTR_INGRESS
            (client_del_ingress (cd_uid v) in6) True)
         (\<lambda>_. ret True) (\<lambda>_. ret deleted)) (\<lambda>deleted.
     if deleted then log_info (''client deleted: '' @ resolve_hostname E (cd_uid v) False)
     else log_error ''client peer not found'')))))"

end
