(* ===== verification/Commands_Server.thy ===== *)
theory Commands_Server
  imports Commands
begin

text \<open>
  The second half of \<open>ktuctl-rs/src/commands.rs\<close>: the commands of the server side, the two
  listings \<open>status\<close> and \<open>dump\<close>, and \<open>version\<close>.
\<close>

section \<open>\<open>server-add\<close> and \<open>server-del\<close>\<close>

record server_add_vars =
  sv_address :: string
  sv_port :: u16
  sv_icmp_id :: u16
  sv_add_uid :: u8
  sv_comment :: string
  sv_uid_set :: bool
  sv_xor_hex :: string

definition server_add_init :: server_add_vars where
  "server_add_init =
     \<lparr>sv_address = [], sv_port = 0, sv_icmp_id = 0, sv_add_uid = 0, sv_comment = [], sv_uid_set = False,
      sv_xor_hex = []\<rparr>"

fun server_add_loop :: "ctl \<Rightarrow> server_add_vars \<Rightarrow> string list \<Rightarrow> server_add_vars res" where
  "server_add_loop E v [] = Ok v"
| "server_add_loop E v (a # args) =
     (if a = ''address'' \<or> a = ''addr'' then
        (case args of
           [] \<Rightarrow> Err (Msg ''missing value for address'')
         | x # args \<Rightarrow> server_add_loop E (v\<lparr>sv_address := x\<rparr>) args)
      else if a = ''port'' then
        (case args of
           [] \<Rightarrow> Err (Msg ''missing value for port'')
         | x # args \<Rightarrow> res_bind (parse_u16_arg x) (\<lambda>n. server_add_loop E (v\<lparr>sv_port := n\<rparr>) args))
      else if a = ''icmp-id'' then
        (case args of
           [] \<Rightarrow> Err (Msg ''missing value for icmp-id'')
         | x # args \<Rightarrow> res_bind (parse_u16_arg x) (\<lambda>n. server_add_loop E (v\<lparr>sv_icmp_id := n\<rparr>) args))
      else if a = ''uid'' \<or> a = ''user'' then
        (case args of
           [] \<Rightarrow> Err (Msg ''missing value for uid'')
         | x # args \<Rightarrow> res_bind (resolve_uid E x) (\<lambda>u.
             server_add_loop E (v\<lparr>sv_add_uid := u, sv_uid_set := True\<rparr>) args))
      else if a = ''comment'' then
        (case args of
           [] \<Rightarrow> Err (Msg ''missing value for comment'')
         | x # args \<Rightarrow> server_add_loop E (v\<lparr>sv_comment := x\<rparr>) args)
      else if a = ''xor'' then
        (case args of
           [] \<Rightarrow> Err (Msg ''missing value for xor'')
         | x # args \<Rightarrow> server_add_loop E (v\<lparr>sv_xor_hex := x\<rparr>) args)
      else server_add_loop E v args)"

definition server_add_user_info :: "server_add_vars \<Rightarrow> In6Addr \<Rightarrow> bytes \<Rightarrow> u8 \<Rightarrow> TutuUserInfo" where
  "server_add_user_info v in6 xor_key xor_key_len =
     \<lparr>tui_uid = sv_add_uid v, tui_pad0 = [0, 0, 0],
      tui_value =
        \<lparr>ui_address = in6, icmp_id = htons (sv_icmp_id v), ui_dport = htons (sv_port v),
         ui_comment = copy_comment (replicate 22 0) (sv_comment v), ui_xor_key = xor_key,
         ui_xor_key_len = xor_key_len, ui_reserved2 = replicate 7 0, ui_pad1 = [0, 0]\<rparr>,
      tui_map_flags = TUTU_ANY\<rparr>"

definition cmd_server_add :: "ctl \<Rightarrow> string list \<Rightarrow> (world, unit) comp" where
  "cmd_server_add E args =
     then_do (lift_res (server_add_loop E server_add_init args)) (\<lambda>v.
     if \<not> sv_uid_set v \<or> sv_address v = [] \<or> sv_port v = 0 then
       fail (Msg ''uid, address and port must be specified'')
     else then_do (get_config E) (\<lambda>cfg.
     if is_server cfg = 0 then fail (Msg ''must be in server mode'')
     else then_do (lift_res (resolve_ip E (sv_address v))) (\<lambda>in6.
     then_do (lift_res (xor_key_of (sv_xor_hex v))) (\<lambda>(xor_key, xor_key_len).
     then_do (send_struct (ct_profile E) enc_TutuUserInfo TUTU_CMD_UPDATE_USER_INFO TUTU_ATTR_USER_INFO
         (server_add_user_info v in6 xor_key xor_key_len) True) (\<lambda>_.
     log_info (''server updated: '' @ resolve_hostname E (sv_add_uid v) False @ '', address: '' @
         ip_to_string in6 @ '', dport: '' @ show_word (sv_port v) @ '', comment: '' @ sv_comment v @
         (if 0 < xor_key_len then '', with xor key'' else [])))))))"

text \<open>The loop of \<open>server-del\<close> yields the id, if one was given.\<close>

fun server_del_loop :: "ctl \<Rightarrow> u8 option \<Rightarrow> string list \<Rightarrow> u8 option res" where
  "server_del_loop E uid [] = Ok uid"
| "server_del_loop E uid (a # args) =
     (if a = ''uid'' \<or> a = ''user'' then
        (case args of
           [] \<Rightarrow> Err (Msg ''missing value for uid'')
         | x # args \<Rightarrow> res_bind (resolve_uid E x) (\<lambda>u. server_del_loop E (Some u) args))
      else server_del_loop E uid args)"

definition server_del_user_info :: "u8 \<Rightarrow> TutuUserInfo" where
  "server_del_user_info uid =
     \<lparr>tui_uid = uid, tui_pad0 = [0, 0, 0],
      tui_value =
        \<lparr>ui_address = In6Addr (replicate 16 0), icmp_id = 0, ui_dport = 0, ui_comment = replicate 22 0,
         ui_xor_key = replicate TUTU_XOR_KEY_MAX 0, ui_xor_key_len = 0, ui_reserved2 = replicate 7 0,
         ui_pad1 = [0, 0]\<rparr>,
      tui_map_flags = 0\<rparr>"

definition cmd_server_del :: "ctl \<Rightarrow> string list \<Rightarrow> (world, unit) comp" where
  "cmd_server_del E args =
     then_do (lift_res (server_del_loop E None args)) (\<lambda>uid.
     case uid of
       None \<Rightarrow> fail (Msg ''UID must be specified'')
     | Some uid \<Rightarrow>
         then_do (send_struct (ct_profile E) enc_TutuUserInfo TUTU_CMD_DELETE_USER_INFO TUTU_ATTR_USER_INFO
           (server_del_user_info uid) True) (\<lambda>_.
         log_info (''server deleted: '' @ resolve_hostname E uid False)))"

section \<open>\<open>status\<close>\<close>

text \<open>The closures of the four listings. The first three have no captured variable.\<close>

definition status_user :: "ctl \<Rightarrow> TutuUserInfo \<Rightarrow> unit \<Rightarrow> (world, unit) comp" where
  "status_user E u c =
     then_do (out (''  '' @ resolve_hostname E (tui_uid u) False @ '', Address: '' @
       ip_to_string (ui_address (tui_value u)) @ '', Dport: '' @ show_word (ntohs (ui_dport (tui_value u))) @
       '', ICMP: '' @ show_word (ntohs (icmp_id (tui_value u))))) (\<lambda>_.
     then_do (if 0 < ui_xor_key_len (tui_value u) then out '', with xor key'' else ret ()) (\<lambda>_.
     outln (format_comment (ui_comment (tui_value u)) False)))"

definition status_session :: "ctl \<Rightarrow> TutuSession \<Rightarrow> unit \<Rightarrow> (world, unit) comp" where
  "status_session E s c =
     outln (''  Address: '' @ ip_to_string (sk_address (s_key s)) @ '', SPort: '' @
       show_word (ntohs (sk_sport (s_key s))) @ '', DPort: '' @ show_word (ntohs (sk_dport (s_key s))) @
       '' => '' @ resolve_hostname E (sv_uid (s_value s)) False @ '', Age: '' @ show_word (sv_age (s_value s)) @
       '', Client Sport: '' @ show_word (ntohs (sv_client_sport (s_value s))))"

definition status_ingress :: "ctl \<Rightarrow> TutuIngress \<Rightarrow> unit \<Rightarrow> (world, unit) comp" where
  "status_ingress E i c =
     then_do (out (''  '' @ resolve_hostname E (ik_uid (i_key i)) False @ '', Address: '' @
       ip_to_string (ik_address (i_key i)) @ '' => Sport: '' @ show_word (ntohs (iv_port (i_value i))))) (\<lambda>_.
     then_do (if 0 < iv_xor_key_len (i_value i) then out '', with xor key'' else ret ()) (\<lambda>_.
     outln []))"

text \<open>\<open>cnt += 1\<close> on an \<open>i32\<close>.\<close>

definition i32_incr :: "profile \<Rightarrow> 32 word \<Rightarrow> 32 word res" where
  "i32_incr p c = (if p = Debug \<and> sint c = 2 ^ 31 - 1 then Panic else Ok (c + 1))"

definition status_egress :: "ctl \<Rightarrow> TutuEgress \<Rightarrow> 32 word \<Rightarrow> (world, 32 word) comp" where
  "status_egress E e cnt =
     (if ntohs (ek_port (e_key e)) \<noteq> 0 then
        then_do (out (''  '' @ resolve_hostname E (ev_uid (e_value e)) False @ '', Address: '' @
          ip_to_string (ek_address (e_key e)) @ '', Port: '' @ show_word (ntohs (ek_port (e_key e))))) (\<lambda>_.
        then_do (if 0 < ev_xor_key_len (e_value e) then out '', with xor key'' else ret ()) (\<lambda>_.
        then_do (outln (format_comment (ev_comment (e_value e)) False)) (\<lambda>_.
        lift_res (i32_incr (ct_profile E) cnt))))
      else ret cnt)"

definition status_server :: "ctl \<Rightarrow> TutuConfig \<Rightarrow> (world, unit) comp" where
  "status_server E cfg =
     then_do (outln ''Peers:'') (\<lambda>_.
     then_do (dump_structs (ct_profile E) 128 dec_TutuUserInfo TUTU_CMD_GET_USER_INFO TUTU_ATTR_USER_INFO
       (status_user E) ()) (\<lambda>_.
     if debug (ct_flags E) then
       then_do (outln (nl @ ''Sessions (max age: '' @ show_word (session_max_age cfg) @ ''):'')) (\<lambda>_.
       dump_structs (ct_profile E) 48 dec_TutuSession TUTU_CMD_GET_SESSION TUTU_ATTR_SESSION (status_session E) ())
     else ret ()))"

definition status_client :: "ctl \<Rightarrow> (world, unit) comp" where
  "status_client E =
     then_do (outln ''Client Peers:'') (\<lambda>_.
     then_do (dump_structs (ct_profile E) 120 dec_TutuEgress TUTU_CMD_GET_EGRESS TUTU_ATTR_EGRESS
       (status_egress E) 0) (\<lambda>cnt.
     then_do (if cnt = 0 then outln ''No peer configure'' else ret ()) (\<lambda>_.
     if debug (ct_flags E) then
       then_do (outln (nl @ ''Ingress peers:'')) (\<lambda>_.
       dump_structs (ct_profile E) 104 dec_TutuIngress TUTU_CMD_GET_INGRESS TUTU_ATTR_INGRESS (status_ingress E) ())
     else ret ())))"

definition status_stats :: "TutuStats \<Rightarrow> (world, unit) comp" where
  "status_stats stats =
     then_do (outln (nl @ ''Packets:'')) (\<lambda>_.
     then_do (outln (''  processed:   '' @ show_word (packets_processed stats))) (\<lambda>_.
     then_do (outln (''  dropped:     '' @ show_word (packets_dropped stats))) (\<lambda>_.
     then_do (outln (''  cksum error: '' @ show_word (checksum_errors stats))) (\<lambda>_.
     then_do (outln (''  fragmented:  '' @ show_word (fragmented stats))) (\<lambda>_.
     outln (''  GSO:         '' @ show_word (gso stats)))))))"

definition cmd_status :: "ctl \<Rightarrow> string list \<Rightarrow> (world, unit) comp" where
  "cmd_status E args =
     then_do (get_config E) (\<lambda>cfg.
     then_do (outln (PROJECT_NAME @ '': Role: '' @ (if is_server cfg \<noteq> 0 then ''Server'' else ''Client'') @ nl)) (\<lambda>_.
     then_do (cmd_load E []) (\<lambda>_.
     then_do (if is_server cfg \<noteq> 0 then status_server E cfg else status_client E) (\<lambda>_.
     if debug (ct_flags E) then
       try_do (receive_struct (ct_profile E) 40 dec_TutuStats TUTU_CMD_GET_STATS TUTU_ATTR_STATS None)
         status_stats (\<lambda>_. ret ())
     else ret ()))))"

section \<open>\<open>dump\<close> and \<open>version\<close>\<close>

definition dump_user :: "ctl \<Rightarrow> TutuUserInfo \<Rightarrow> unit \<Rightarrow> (world, unit) comp" where
  "dump_user E u c =
     then_do (out (''server-add '' @ resolve_hostname E (tui_uid u) True @ '' addr '' @
       ip_to_string (ui_address (tui_value u)) @ '' icmp-id '' @ show_word (ntohs (icmp_id (tui_value u))) @
       '' port '' @ show_word (ntohs (ui_dport (tui_value u))))) (\<lambda>_.
     then_do (if 0 < ui_xor_key_len (tui_value u)
       then out ('' xor '' @ format_xor_key (ui_xor_key (tui_value u)) (ui_xor_key_len (tui_value u)))
       else ret ()) (\<lambda>_.
     outln (format_comment (ui_comment (tui_value u)) True)))"

definition dump_egress :: "ctl \<Rightarrow> TutuEgress \<Rightarrow> unit \<Rightarrow> (world, unit) comp" where
  "dump_egress E e c =
     (if ntohs (ek_port (e_key e)) \<noteq> 0 then
        then_do (out (''client-add '' @ resolve_hostname E (ev_uid (e_value e)) True @ '' addr '' @
          ip_to_string (ek_address (e_key e)) @ '' port '' @ show_word (ntohs (ek_port (e_key e))))) (\<lambda>_.
        then_do (if 0 < ev_xor_key_len (e_value e)
          then out ('' xor '' @ format_xor_key (ev_xor_key (e_value e)) (ev_xor_key_len (e_value e)))
          else ret ()) (\<lambda>_.
        outln (format_comment (ev_comment (e_value e)) True)))
      else ret ())"

definition cmd_dump :: "ctl \<Rightarrow> string list \<Rightarrow> (world, unit) comp" where
  "cmd_dump E args =
     then_do (get_config E) (\<lambda>cfg.
     then_do (outln ''#!/sbin/ktuctl script -'') (\<lambda>_.
     then_do (outln (''# Auto-generated by '' @ CHR 0x22 # ''ktuctl dump'' @ CHR 0x22 # '' on '' @ ct_now E @ nl)) (\<lambda>_.
     if is_server cfg \<noteq> 0 then
       then_do (outln (''server max-age '' @ show_word (session_max_age cfg) @ nl)) (\<lambda>_.
       dump_structs (ct_profile E) 128 dec_TutuUserInfo TUTU_CMD_GET_USER_INFO TUTU_ATTR_USER_INFO
         (dump_user E) ())
     else
       then_do (outln ''client'') (\<lambda>_.
       dump_structs (ct_profile E) 120 dec_TutuEgress TUTU_CMD_GET_EGRESS TUTU_ATTR_EGRESS (dump_egress E) ()))))"

definition cmd_version :: "ctl \<Rightarrow> string list \<Rightarrow> (world, unit) comp" where
  "cmd_version E args = outln (PROJECT_NAME @ '': 1.0.0 (Rust Port)'')"

end
