(* ===== verification/Ctl_Main.thy ===== *)
theory Ctl_Main
  imports Commands_Server
begin

text \<open>
  The script interpreter of \<open>ktuctl-rs/src/commands.rs\<close>, and \<open>ktuctl-rs/src/main.rs\<close> with the
  command line of \<open>ktuctl-rs/src/cli.rs\<close>. What \<open>clap\<close> makes of the arguments is an input (\<open>Cli\<close>).
\<close>

section \<open>\<open>script\<close>\<close>

text \<open>One command of a script, at zero-based line and position.\<close>

definition run_sub_command :: "ctl \<Rightarrow> nat \<Rightarrow> nat \<Rightarrow> string \<Rightarrow> string list \<Rightarrow> (world, unit) comp" where
  "run_sub_command E line_num sub_idx cmd cmd_args =
     (if cmd = ''load'' then cmd_load E cmd_args
      else if cmd = ''unload'' then cmd_unload E cmd_args
      else if cmd = ''server'' then cmd_server E cmd_args
      else if cmd = ''client'' then cmd_client E cmd_args
      else if cmd = ''client-add'' then cmd_client_add E cmd_args
      else if cmd = ''client-del'' then cmd_client_del E cmd_args
      else if cmd = ''server-add'' then cmd_server_add E cmd_args
      else if cmd = ''server-del'' then cmd_server_del E cmd_args
      else if cmd = ''status'' then cmd_status E cmd_args
      else if cmd = ''dump'' then cmd_dump E cmd_args
      else if cmd = ''version'' then cmd_version E cmd_args
      else if cmd = ''reaper'' then log_info ''Obsolete''
      else log_error (''Line '' @ show_nat (line_num + 1) @ '' (cmd '' @ show_nat (sub_idx + 1) @
             ''): Unknown command '' @ quoted cmd))"

definition script_sub :: "ctl \<Rightarrow> nat \<Rightarrow> nat \<Rightarrow> string \<Rightarrow> (world, unit) comp" where
  "script_sub E line_num sub_idx sub_cmd_str =
     (let sub_cmd_str = str_trim sub_cmd_str in
      if sub_cmd_str = [] then ret ()
      else (case ct_shlex E sub_cmd_str of
              None \<Rightarrow> fail (Msg ''parse error'')
            | Some [] \<Rightarrow> ret ()
            | Some (cmd # cmd_args) \<Rightarrow>
                try_do (run_sub_command E line_num sub_idx cmd cmd_args)
                  (\<lambda>_. ret ())
                  (\<lambda>e. fail (Msg (''line '' @ show_nat (line_num + 1) @ '' (cmd '' @ show_nat (sub_idx + 1) @
                     '') ['' @ cmd @ '']: '' @ error_display e)))))"

fun script_subs :: "ctl \<Rightarrow> nat \<Rightarrow> nat \<Rightarrow> string list \<Rightarrow> (world, unit) comp" where
  "script_subs E line_num sub_idx [] = ret ()"
| "script_subs E line_num sub_idx (s # ss) =
     then_do (script_sub E line_num sub_idx s) (\<lambda>_. script_subs E line_num (sub_idx + 1) ss)"

definition script_line :: "ctl \<Rightarrow> nat \<Rightarrow> string \<Rightarrow> (world, unit) comp" where
  "script_line E line_num line =
     (let raw_line = str_trim line in
      if raw_line = [] \<or> hd raw_line = CHR ''#'' then ret ()
      else script_subs E line_num 0 (str_split (CHR '';'') raw_line))"

fun script_lines :: "ctl \<Rightarrow> nat \<Rightarrow> string res list \<Rightarrow> (world, unit) comp" where
  "script_lines E line_num [] = ret ()"
| "script_lines E line_num (l # ls) =
     then_do (lift_res l) (\<lambda>line.
     then_do (script_line E line_num line) (\<lambda>_.
     script_lines E (line_num + 1) ls))"

definition cmd_script :: "ctl \<Rightarrow> string list \<Rightarrow> (world, unit) comp" where
  "cmd_script E args =
     (case args of
        [] \<Rightarrow> fail (Msg ''usage: ktuctl script <file>'')
      | path # _ \<Rightarrow>
          if path = ''-'' then script_lines E 0 (reader_lines (ct_stdin E))
          else (case fs_open (ct_fs E) path of
                  Inl e \<Rightarrow> fail e
                | Inr content \<Rightarrow> script_lines E 0 (reader_lines content)))"

section \<open>The command line\<close>

datatype Commands =
    Load "string list" | Unload "string list" | Server "string list" | Client "string list"
  | ClientAdd "string list" | ClientDel "string list" | ServerAdd "string list" | ServerDel "string list"
  | Status "string list" | Dump "string list" | Reaper "string list" | Version "string list"
  | Script "string list"

record Cli =
  cl_numeric :: bool
  cl_debug :: bool
  cl_ipv4 :: bool
  cl_ipv6 :: bool
  cl_command :: "Commands option"
  cl_args :: "string list"

fun run_command_enum :: "ctl \<Rightarrow> Commands \<Rightarrow> (world, unit) comp" where
  "run_command_enum E (Load args) = cmd_load E args"
| "run_command_enum E (Unload args) = cmd_unload E args"
| "run_command_enum E (Server args) = cmd_server E args"
| "run_command_enum E (Client args) = cmd_client E args"
| "run_command_enum E (ClientAdd args) = cmd_client_add E args"
| "run_command_enum E (ClientDel args) = cmd_client_del E args"
| "run_command_enum E (ServerAdd args) = cmd_server_add E args"
| "run_command_enum E (ServerDel args) = cmd_server_del E args"
| "run_command_enum E (Status args) = cmd_status E args"
| "run_command_enum E (Dump args) = cmd_dump E args"
| "run_command_enum E (Reaper args) = cmd_script E args"
| "run_command_enum E (Version args) = cmd_version E args"
| "run_command_enum E (Script args) = cmd_script E args"

definition run_command_string :: "ctl \<Rightarrow> string \<Rightarrow> string list \<Rightarrow> (world, unit) comp" where
  "run_command_string E subcmd cmd_args =
     (if subcmd = ''load'' then cmd_load E cmd_args
      else if subcmd = ''unload'' then cmd_unload E cmd_args
      else if subcmd = ''server'' then cmd_server E cmd_args
      else if subcmd = ''client'' then cmd_client E cmd_args
      else if subcmd = ''client-add'' then cmd_client_add E cmd_args
      else if subcmd = ''client-del'' then cmd_client_del E cmd_args
      else if subcmd = ''server-add'' then cmd_server_add E cmd_args
      else if subcmd = ''server-del'' then cmd_server_del E cmd_args
      else if subcmd = ''status'' then cmd_status E cmd_args
      else if subcmd = ''dump'' then cmd_dump E cmd_args
      else if subcmd = ''reaper'' then log_info ''Obsolete''
      else if subcmd = ''version'' then cmd_version E cmd_args
      else if subcmd = ''script'' then cmd_script E cmd_args
      else if subcmd = ''tui'' then outln ''TUI not implemented in Rust port''
      else log_error (''error: unknown command '' @ quoted subcmd))"

section \<open>\<open>main\<close>\<close>

text \<open>The two globals, from their first values.\<close>

definition load_globals :: "fs \<Rightarrow> world \<Rightarrow> UidMap \<times> world" where
  "load_globals files w =
     (case load files UID_CONFIG_PATH (uid_map_new, w) of
        (Err e, m, w) \<Rightarrow> (m, emit (EvError (''Warning: failed to load uid map: '' @ error_display e)) w)
      | (_, m, w) \<Rightarrow> (m, w))"

definition cli_flags :: "Cli \<Rightarrow> GlobalFlags" where
  "cli_flags cli =
     (let family = (if cl_ipv4 cli then Some ''ip4'' else None);
          family = (if cl_ipv6 cli then Some ''ip6'' else family)
      in \<lparr>numeric = cl_numeric cli, debug = cl_debug cli, ip_family = family\<rparr>)"

text \<open>\<open>E\<close> gives everything but the globals.\<close>

definition main :: "ctl \<Rightarrow> Cli \<Rightarrow> (world, unit) comp" where
  "main E cli w =
     (let (m, w) = load_globals (ct_fs E) w;
          E = E\<lparr>ct_uids := m, ct_flags := cli_flags cli\<rparr>
      in case cl_command cli of
           Some cmd \<Rightarrow> run_command_enum E cmd w
         | None \<Rightarrow>
             (let all_args = (if cl_args cli = [] then [''status''] else cl_args cli)
              in run_command_string E (hd all_args) (tl all_args) w))"

end
