(* ===== verification/Addr_Text.thy ===== *)
theory Addr_Text
  imports Helper
begin

text \<open>
  The text of an address and back: \<open>ip_to_string\<close> prints what \<open>resolve_ip\<close> reads. The parser of
  \<open>std::net\<close> takes the compressed display of an IPv6 address for the address itself, and a resolver
  does not look up an address that is already numeric.
\<close>

section \<open>Hexadecimal groups\<close>

lemma length_show_radix: "1 < radix \<Longrightarrow> n < radix ^ Suc k \<Longrightarrow> length (show_radix radix n) \<le> Suc k"
proof (induction k arbitrary: n)
  case 0
  then show ?case by (subst show_radix.simps) simp
next
  case (Suc k)
  have "n div radix < radix ^ Suc k"
    using Suc.prems by (simp add: less_mult_imp_div_less mult.commute)
  from Suc.IH [OF Suc.prems(1) this] show ?case
    by (subst show_radix.simps) simp
qed

lemma read_number_hex:
  assumes "r = [] \<or> to_digit 16 (hd r) = None"
  shows "read_number 16 4 True 65535 (show_hex (unat (g :: u16)) @ r) = Some (unat g, r)"
proof -
  let ?s = "show_hex (unat g)"
  have g: "unat g < 65536"
    using unsigned_less [of g, where 'a = nat] by simp
  then have "parse_digits 16 65535 0 ?s = Inr (unat g)"
    unfolding show_hex_def by (intro parse_digits_show_radix) simp_all
  from parse_digits_foldl [OF this]
  have d: "\<forall>c \<in> set ?s. to_digit 16 c \<noteq> None"
    and v: "foldl (\<lambda>acc c. acc * 16 + the (to_digit 16 c)) 0 ?s = unat g"
    by auto
  have "takeWhile (\<lambda>c. to_digit 16 c \<noteq> None) (?s @ r) = ?s"
    using d assms by (cases r) auto
  moreover have "?s \<noteq> []"
    using set_show_radix [of 16 "unat g"] by (simp add: show_hex_def)
  moreover have "length ?s \<le> 4"
    using length_show_radix [of 16 "unat g" 3] g by (simp add: show_hex_def)
  ultimately show ?thesis
    using g v by (auto simp: read_number_def Let_def)
qed

text \<open>Groups as they stand in the text from group \<open>i\<close> on, a colon before every group but the first.\<close>

fun groups_text :: "nat \<Rightarrow> u16 list \<Rightarrow> string" where
  "groups_text i [] = []"
| "groups_text i (g # gs) = (if 0 < i then '':'' else []) @ show_hex (unat g) @ groups_text (i + 1) gs"

lemma groups_display_text: "groups_display gs = groups_text 0 gs"
proof -
  have "join '':'' (map f (g # gs)) = f g @ concat (map (\<lambda>g. CHR '':'' # f g) gs)" for f :: "u16 \<Rightarrow> string" and g gs
    by (induction gs arbitrary: g) simp_all
  moreover have "groups_text (Suc i) gs = concat (map (\<lambda>g. CHR '':'' # show_hex (unat g)) gs)" for i gs
    by (induction gs arbitrary: i) simp_all
  ultimately show ?thesis
    by (cases gs) (simp_all add: groups_display_def)
qed

lemma digit_char_not: "d < 16 \<Longrightarrow> digit_char d \<noteq> CHR ''.'' \<and> digit_char d \<noteq> CHR '':''"
  by (auto simp: digit_char_def char_of_eq_iff take_bit_nat_eq_self)

lemma no_dot_groups: "CHR ''.'' \<notin> set (groups_text i gs)"
proof (induction gs arbitrary: i)
  case (Cons g gs)
  have "CHR ''.'' \<notin> set (show_hex (unat g))"
    using set_show_radix [of 16 "unat g"] digit_char_not by (fastforce simp: show_hex_def)
  with Cons show ?case by simp
qed simp

section \<open>Reading groups\<close>

lemma read_number_suffix: "read_number radix k z mx s = Some (n, r) \<Longrightarrow> set r \<subseteq> set s"
  by (auto simp: read_number_def Let_def split: if_splits dest: in_set_dropD)

lemma read_ipv4_no_dot:
  assumes "CHR ''.'' \<notin> set s"
  shows "read_ipv4_addr s = None"
proof (cases "read_number 10 3 False 255 s")
  case None
  then show ?thesis
    by (simp add: read_ipv4_addr_def numeral_eq_Suc read_separator_def)
next
  case (Some p)
  obtain n r where p: "p = (n, r)" by (cases p)
  have "given_char (CHR ''.'') r = None"
    using read_number_suffix [of 10 3 False 255 s n r] Some p assms by (auto simp: given_char_def split: list.split)
  then have "read_octets 1 3 r = None"
    by (simp add: numeral_eq_Suc read_separator_def)
  with Some p show ?thesis
    by (simp add: read_ipv4_addr_def numeral_eq_Suc read_separator_def)
qed

lemma to_digit_colon: "to_digit radix CHR '':'' = None"
  by (simp add: to_digit_def digit_val_def)

lemma read_number_none: "read_number radix k z mx [] = None" "read_number radix k z mx (CHR '':'' # r) = None"
  by (simp_all add: read_number_def to_digit_colon)

text \<open>Where the groups end: at the end of the text or at the two colons.\<close>

definition stops :: "string \<Rightarrow> bool" where
  "stops r \<longleftrightarrow> CHR ''.'' \<notin> set r \<and> (r = [] \<or> (\<exists>r'. r = CHR '':'' # CHR '':'' # r'))"

lemma read_groups_stop:
  assumes "stops r"
  shows "read_groups i room r = ([], False, r)"
proof (cases room)
  case (Suc k)
  have "read_separator (CHR '':'') i read_ipv4_addr r = None"
    using assms by (auto simp: stops_def read_separator_def given_char_def read_ipv4_no_dot)
  moreover have "read_separator (CHR '':'') i (read_number 16 4 True 65535) r = None"
    using assms by (auto simp: stops_def read_separator_def given_char_def read_number_none)
  ultimately show ?thesis
    by (simp add: Suc)
qed simp

lemma read_groups_text:
  "stops r \<Longrightarrow> length gs \<le> room \<Longrightarrow>
     read_groups i room (groups_text i gs @ r) = (concat (map (to_be 2) gs), False, r)"
proof (induction gs arbitrary: i room)
  case Nil
  then show ?case by (simp add: read_groups_stop)
next
  case (Cons g gs)
  then obtain k where k: "room = Suc k" "length gs \<le> k"
    by (cases room) auto
  let ?r = "groups_text (i + 1) gs @ r"
  have "CHR ''.'' \<notin> set (show_hex (unat g) @ ?r)"
    using no_dot_groups [of 0 "[g]"] no_dot_groups [of "i + 1" gs] Cons.prems(1) by (simp add: stops_def)
  from read_ipv4_no_dot [OF this]
  have v4: "read_separator (CHR '':'') i read_ipv4_addr (groups_text i (g # gs) @ r) = None"
    by (cases i) (simp_all add: read_separator_def given_char_def)
  have "?r = [] \<or> to_digit 16 (hd ?r) = None"
    using Cons.prems(1) by (cases gs) (auto simp: stops_def to_digit_colon)
  from read_number_hex [OF this]
  have "read_separator (CHR '':'') i (read_number 16 4 True 65535) (groups_text i (g # gs) @ r) = Some (unat g, ?r)"
    by (cases i) (simp_all add: read_separator_def given_char_def)
  moreover have "read_groups (i + 1) k ?r = (concat (map (to_be 2) gs), False, r)"
    by (rule Cons.IH [OF Cons.prems(1) k(2)])
  ultimately show ?case
    using v4 by (simp only: k(1) read_groups.simps option.case prod.case if_cancel) simp
qed

section \<open>The run of zeros\<close>

definition zeros_at :: "u16 list \<Rightarrow> nat \<Rightarrow> nat \<Rightarrow> bool" where
  "zeros_at gs s l \<longleftrightarrow> s + l \<le> length gs \<and> (\<forall>j < l. gs ! (s + j) = 0)"

lemma zeros_at_take: "zeros_at gs s l \<Longrightarrow> take l (drop s gs) = replicate l 0"
  by (rule nth_equalityI) (auto simp: zeros_at_def)

lemma zeros_at_extend: "zeros_at gs s l \<Longrightarrow> s + l < length gs \<Longrightarrow> gs ! (s + l) = 0 \<Longrightarrow> zeros_at gs s (Suc l)"
  by (auto simp: zeros_at_def less_Suc_eq)

lemma zero_run_zeros:
  "zeros_at gs bs bl \<Longrightarrow> zeros_at gs cs cl \<Longrightarrow> cl = 0 \<or> cs + cl = i \<Longrightarrow> i \<le> length gs \<Longrightarrow> ss = drop i gs \<Longrightarrow>
     case zero_run (bs, bl) (cs, cl) i ss of (s, l) \<Rightarrow> zeros_at gs s l"
proof (induction ss arbitrary: bs bl cs cl i)
  case Nil
  then show ?case by simp
next
  case (Cons x ss)
  then have i: "i < length gs" "gs ! i = x" "ss = drop (i + 1) gs"
    by (metis drop_eq_Nil list.distinct(1) not_le, metis hd_drop_conv_nth list.sel(1) drop_eq_Nil list.distinct(1) not_le,
        metis Cons_nth_drop_Suc Suc_eq_plus1 drop_eq_Nil list.distinct(1) list.sel(3) not_le)
  show ?case
  proof (cases "x = 0")
    case True
    let ?cs = "if cl = 0 then i else cs"
    have c: "zeros_at gs ?cs (Suc cl)" "?cs + Suc cl = i + 1"
      using Cons.prems(2,3) i True zeros_at_extend [of gs cs cl] by (auto simp: zeros_at_def)
    have b: "zeros_at gs bs' bl'" if "(if bl < Suc cl then (?cs, Suc cl) else (bs, bl)) = (bs', bl')" for bs' bl'
      using that c(1) Cons.prems(1) by (auto split: if_splits)
    obtain bs' bl' where e: "(if bl < Suc cl then (?cs, Suc cl) else (bs, bl)) = (bs', bl')"
      by fastforce
    have "case zero_run (bs', bl') (?cs, Suc cl) (i + 1) ss of (s, l) \<Rightarrow> zeros_at gs s l"
      using c i by (intro Cons.IH b [OF e]) auto
    then show ?thesis
      by (simp only: True zero_run.simps refl if_True Let_def e Suc_eq_plus1 [symmetric])
  next
    case False
    have "case zero_run (bs, bl) (0, 0) (i + 1) ss of (s, l) \<Rightarrow> zeros_at gs s l"
      using i Cons.prems(1) by (intro Cons.IH) (auto simp: zeros_at_def)
    then show ?thesis
      using False by simp
  qed
qed

section \<open>The display of an IPv6 address\<close>

lemma length_segments: "length bs = 2 * n \<Longrightarrow> length (segments bs) = n"
proof (induction bs arbitrary: n rule: segments.induct)
  case (1 a b bs)
  then show ?case by (cases n) auto
qed auto

lemma concat_segments: "length bs = 2 * n \<Longrightarrow> concat (map (to_be 2) (segments bs)) = bs"
proof (induction bs arbitrary: n rule: segments.induct)
  case (1 a b bs)
  have "to_be 2 (from_be [a, b] :: u16) = [a, b]"
    using to_le_from_le_u16 [of "[b, a]"] by (simp add: to_be_def from_be_def)
  moreover obtain m where "length bs = 2 * m"
    using "1.prems" by (cases n) auto
  ultimately show ?case
    using "1.IH" by simp
qed auto

lemma length_concat_be: "length (concat (map (to_be 2) (gs :: u16 list))) = 2 * length gs"
  by (induction gs) simp_all

lemma read_ipv6_full:
  assumes "length gs = 8"
  shows "read_ipv6_addr (groups_display gs) = Some (concat (map (to_be 2) gs), [])"
  using read_groups_text [of "[]" gs 8 0] assms
  by (simp add: read_ipv6_addr_def groups_display_text stops_def length_concat_be)

lemma read_ipv6_compressed:
  assumes "length hs + length ts \<le> 6"
  shows "read_ipv6_addr (groups_display hs @ ''::'' @ groups_display ts) =
    Some (concat (map (to_be 2) hs) @ replicate (16 - 2 * length hs - 2 * length ts) 0 @ concat (map (to_be 2) ts), [])"
proof -
  have "stops (''::'' @ groups_text 0 ts)"
    using no_dot_groups [of 0 ts] by (simp add: stops_def)
  from read_groups_text [OF this, of hs 8 0] read_groups_text [of "[]" ts "8 - (length hs + 1)" 0] assms
  show ?thesis
    by (simp add: read_ipv6_addr_def groups_display_text length_concat_be given_char_def stops_def)
qed

lemma ipv6_display_reads:
  assumes "length bs = 16" and "take 12 bs \<noteq> replicate 10 0 @ [0xFF, 0xFF]"
  shows "ip_from_str (ipv6_display bs) = Some (V6 bs)"
proof -
  let ?gs = "segments bs"
  have gs: "length ?gs = 8" "concat (map (to_be 2) ?gs) = bs"
    using length_segments [of bs 8] concat_segments [of bs 8] assms(1) by simp_all
  obtain s l where z: "zero_run (0, 0) (0, 0) 0 ?gs = (s, l)"
    by fastforce
  have zs: "zeros_at ?gs s l"
    using zero_run_zeros [of ?gs 0 0 0 0 0 ?gs] by (simp add: z zeros_at_def)
  let ?long = "groups_display (take s ?gs) @ ''::'' @ groups_display (drop (s + l) ?gs)"
  have shown: "ipv6_display bs = (if 1 < l then ?long else groups_display ?gs)"
    using assms(2) by (simp add: ipv6_display_def z Let_def)
  have "CHR ''.'' \<notin> set (ipv6_display bs)"
    using no_dot_groups by (simp add: shown groups_display_text)
  moreover have "read_ipv6_addr (ipv6_display bs) = Some (bs, [])"
  proof (cases "1 < l")
    case False
    then show ?thesis
      using read_ipv6_full [OF gs(1)] gs(2) by (simp add: shown)
  next
    case True
    have b: "s + l \<le> 8"
      using zs gs(1) by (simp add: zeros_at_def)
    have "to_be 2 (0 :: u16) = [0, 0]"
      by code_simp
    then have "concat (map (to_be 2) (replicate n (0 :: u16))) = replicate (2 * n) 0" for n
      by (induction n) simp_all
    then have "concat (map (to_be 2) (take l (drop s ?gs))) = replicate (2 * l) 0"
      by (simp only: zeros_at_take [OF zs])
    moreover have "?gs = take s ?gs @ take l (drop s ?gs) @ drop (s + l) ?gs"
      by (metis append_take_drop_id drop_drop add.commute)
    ultimately have "bs = concat (map (to_be 2) (take s ?gs)) @ replicate (2 * l) 0 @ concat (map (to_be 2) (drop (s + l) ?gs))"
      using gs(2) by (metis concat_append map_append)
    moreover have "length (take s ?gs) + length (drop (s + l) ?gs) \<le> 6"
      "16 - 2 * length (take s ?gs) - 2 * length (drop (s + l) ?gs) = 2 * l"
      using b True gs(1) by simp_all
    ultimately show ?thesis
      using True read_ipv6_compressed [of "take s ?gs" "drop (s + l) ?gs"] by (simp add: shown)
  qed
  ultimately show ?thesis
    by (simp add: ip_from_str_def read_ipv4_no_dot)
qed

section \<open>The resolver on a numeric address\<close>

text \<open>
  Documented behaviour of \<open>getaddrinfo\<close> behind \<open>dns_lookup::lookup_host\<close>: the text of a numeric
  address is not looked up, it is that address.
\<close>

definition reads_numeric :: "(string \<Rightarrow> error + IpAddr list) \<Rightarrow> bool" where
  "reads_numeric lookup \<longleftrightarrow>
     (\<forall>s ip. ip_from_str s = Some ip \<longrightarrow> (\<exists>ips. lookup s = Inr ips \<and> ips \<noteq> [] \<and> set ips = {ip}))"

lemma resolve_ip_numeric:
  assumes "reads_numeric (ct_lookup E)" and "ip_from_str s = Some ip"
  shows "resolve_ip E s =
    (if ip_family (ct_flags E) = Some ''ip4'' \<and> \<not> is_ipv4 ip \<or> ip_family (ct_flags E) = Some ''ip6'' \<and> \<not> is_ipv6 ip
     then Err (Msg ''no suitable address found'')
     else Ok (In6Addr (case ip of V4 v4 \<Rightarrow> replicate 10 0 @ [0xFF, 0xFF] @ v4 | V6 v6 \<Rightarrow> v6)))"
proof -
  obtain x xs where l: "ct_lookup E s = Inr (x # xs)" "set (x # xs) = {ip}"
    using assms unfolding reads_numeric_def by (metis list.exhaust)
  then have "x = ip" "\<forall>y \<in> set xs. y = ip"
    by auto
  then have "find P (x # xs) = (if P ip then Some ip else None)" for P
    by (auto simp: find_None_iff)
  moreover have "is_ipv6 ip \<longleftrightarrow> \<not> is_ipv4 ip"
    by (cases ip) simp_all
  ultimately show ?thesis
    using \<open>x = ip\<close> by (cases ip) (auto simp: resolve_ip_def l(1) simp del: find.simps)
qed

lemma to_ipv4_iff:
  assumes "length a = 16"
  shows "to_ipv4 a =
    (if take 12 a = replicate 12 0 \<or> take 12 a = replicate 10 0 @ [0xFF, 0xFF] then Some (drop 12 a) else None)"
proof -
  have "take 12 a = take 10 a @ take 2 (drop 10 a)"
    using take_add [of 10 2 a] by simp
  moreover have "length (take 10 a) = 10"
    using assms by simp
  moreover have "replicate 12 (0 :: u8) = replicate 10 0 @ [0, 0]"
    by (simp add: numeral_eq_Suc)
  ultimately show ?thesis
    by (simp add: to_ipv4_def)
qed

text \<open>An address that is printed so that it is read back under the address family asked for.\<close>

definition restorable_address :: "ctl \<Rightarrow> bytes \<Rightarrow> bool" where
  "restorable_address E a \<longleftrightarrow> length a = 16 \<and> take 12 a \<noteq> replicate 12 0 \<and>
     (ip_family (ct_flags E) = Some ''ip4'' \<longrightarrow> take 12 a = replicate 10 0 @ [0xFF, 0xFF]) \<and>
     (ip_family (ct_flags E) = Some ''ip6'' \<longrightarrow> take 12 a \<noteq> replicate 10 0 @ [0xFF, 0xFF])"

lemma resolve_printed:
  assumes "reads_numeric (ct_lookup E)" and "length a = 16"
  shows "resolve_ip E (ip_to_string (In6Addr a)) =
    (let as_v4 = take 12 a = replicate 12 0 \<or> take 12 a = replicate 10 0 @ [0xFF, 0xFF] in
     if ip_family (ct_flags E) = Some ''ip4'' \<and> \<not> as_v4 \<or> ip_family (ct_flags E) = Some ''ip6'' \<and> as_v4
     then Err (Msg ''no suitable address found'')
     else Ok (In6Addr (if take 12 a = replicate 12 0 then replicate 10 0 @ [0xFF, 0xFF] @ drop 12 a else a)))"
proof -
  have a: "take 12 a @ drop 12 a = a"
    by simp
  have v4: "ip_from_str (ipv4_display (drop 12 a)) = Some (V4 (drop 12 a))"
    using assms(2) by (intro ip_from_str_ipv4_display) simp
  note t = ip_to_string_def to_ipv4_iff [OF assms(2)]
  have "replicate 12 0 \<noteq> replicate 10 0 @ [0xFF, 0xFF :: u8]"
    by code_simp
  then consider "take 12 a = replicate 12 0" "take 12 a \<noteq> replicate 10 0 @ [0xFF, 0xFF]"
    | "take 12 a = replicate 10 0 @ [0xFF, 0xFF]" "take 12 a \<noteq> replicate 12 0"
    | "take 12 a \<noteq> replicate 12 0" "take 12 a \<noteq> replicate 10 0 @ [0xFF, 0xFF]"
    by metis
  then show ?thesis
  proof cases
    case 1
    then show ?thesis
      by (simp add: t resolve_ip_numeric [OF assms(1) v4] Let_def)
  next
    case 2
    then have "replicate 10 0 @ [0xFF, 0xFF] @ drop 12 a = a"
      using a by (metis append_assoc)
    with 2 show ?thesis
      by (simp add: t resolve_ip_numeric [OF assms(1) v4] Let_def)
  next
    case 3
    with ipv6_display_reads [OF assms(2) 3(2)] show ?thesis
      by (simp add: t resolve_ip_numeric [OF assms(1)] Let_def)
  qed
qed

lemma restorable_address_back:
  "reads_numeric (ct_lookup E) \<Longrightarrow> restorable_address E a \<Longrightarrow>
     length a = 16 \<and> resolve_ip E (ip_to_string (In6Addr a)) = Ok (In6Addr a)"
  by (auto simp: restorable_address_def resolve_printed Let_def)

section \<open>Properties\<close>

text \<open>
  C32. The text of an address: for every 16 octets, what \<open>ip_to_string\<close> prints is resolved to the
  same octets, except that an IPv4-compatible address (96 zero bits, such as \<open>::1\<close>) comes back as
  the IPv4-mapped one; when \<open>-4\<close> or \<open>-6\<close> asks for the other family there is an error.
\<close>

theorem printed_address_is_resolved:
  assumes "reads_numeric (ct_lookup E)" and "length a = 16"
  shows "resolve_ip E (ip_to_string (In6Addr a)) =
    (let as_v4 = take 12 a = replicate 12 0 \<or> take 12 a = replicate 10 0 @ [0xFF, 0xFF] in
     if ip_family (ct_flags E) = Some ''ip4'' \<and> \<not> as_v4 \<or> ip_family (ct_flags E) = Some ''ip6'' \<and> as_v4
     then Err (Msg ''no suitable address found'')
     else Ok (In6Addr (if take 12 a = replicate 12 0 then replicate 10 0 @ [0xFF, 0xFF] @ drop 12 a else a)))"
  by (rule resolve_printed [OF assms])

theorem printed_address_is_resolved_witness:
  "let E = \<lparr>ct_profile = Release, ct_flags = \<lparr>numeric = False, debug = False, ip_family = None\<rparr>,
        ct_uids = uid_map_new, ct_iter = ascending,
        ct_lookup = (\<lambda>s. case ip_from_str s of Some ip \<Rightarrow> Inr [ip] | None \<Rightarrow> Inl (Ext ''unknown host'')),
        ct_shlex = (\<lambda>s. None), ct_fs = \<lparr>fs_exists = (\<lambda>_. False), fs_open = (\<lambda>_. Inl (Ext ''not found''))\<rparr>,
        ct_stdin = [], ct_now = []\<rparr>
   in resolve_ip E (ip_to_string (In6Addr ([0xFE, 0x80] @ replicate 13 0 @ [1]))) =
        Ok (In6Addr ([0xFE, 0x80] @ replicate 13 0 @ [1])) \<and>
      resolve_ip E (ip_to_string (In6Addr (replicate 15 0 @ [1]))) =
        Ok (In6Addr (replicate 10 0 @ [0xFF, 0xFF, 0, 0, 0, 1]))"
proof -
  let ?E = "\<lparr>ct_profile = Release, ct_flags = \<lparr>numeric = False, debug = False, ip_family = None\<rparr>,
        ct_uids = uid_map_new, ct_iter = ascending,
        ct_lookup = (\<lambda>s. case ip_from_str s of Some ip \<Rightarrow> Inr [ip] | None \<Rightarrow> Inl (Ext ''unknown host'')),
        ct_shlex = (\<lambda>s. None), ct_fs = \<lparr>fs_exists = (\<lambda>_. False), fs_open = (\<lambda>_. Inl (Ext ''not found''))\<rparr>,
        ct_stdin = [], ct_now = []\<rparr>"
  have r: "reads_numeric (ct_lookup ?E)"
    by (simp add: reads_numeric_def)
  have "take 12 ([0xFE, 0x80] @ replicate 13 0 @ [1 :: u8]) \<noteq> replicate 12 0"
    "take 12 (replicate 15 0 @ [1 :: u8]) = replicate 12 0" "drop 12 (replicate 15 0 @ [1 :: u8]) = [0, 0, 0, 1]"
    by code_simp+
  then show ?thesis
    using printed_address_is_resolved [OF r, of "[0xFE, 0x80] @ replicate 13 0 @ [1]"]
      printed_address_is_resolved [OF r, of "replicate 15 0 @ [1]"]
    by (simp add: Let_def)
qed

end
