(* ===== verification/Dump_Restore.thy ===== *)
theory Dump_Restore
  imports Ctl_Main Addr_Text
begin

text \<open>
  \<open>ktuctl dump\<close> prints a script; \<open>ktuctl script\<close> reads it. The two meet here: a line printed for a
  peer, read back as a script line, makes the request that would restore the peer. Words of plain
  characters are what \<open>shlex::split\<close> leaves alone.
\<close>

section \<open>Plain words\<close>

definition plain_char :: "char \<Rightarrow> bool" where
  "plain_char c \<longleftrightarrow>
     (let n = (of_char c :: nat) in
      48 \<le> n \<and> n \<le> 58 \<or> 65 \<le> n \<and> n \<le> 90 \<or> 97 \<le> n \<and> n \<le> 122 \<or> n = 45 \<or> n = 46 \<or> n = 95)"

definition plain_word :: "string \<Rightarrow> bool" where
  "plain_word s \<longleftrightarrow> s \<noteq> [] \<and> list_all plain_char s"

text \<open>Documented behaviour of \<open>shlex::split\<close>: without quotes, escapes and comments it splits at spaces.\<close>

definition splits_plain :: "(string \<Rightarrow> string list option) \<Rightarrow> bool" where
  "splits_plain shlex \<longleftrightarrow> (\<forall>ws. ws \<noteq> [] \<longrightarrow> list_all plain_word ws \<longrightarrow> shlex (join '' '' ws) = Some ws)"

lemma plain_char_word: "plain_char c \<Longrightarrow> word_char c"
  by (auto simp: plain_char_def word_char_def Let_def)

lemma plain_word_word: "plain_word s \<Longrightarrow> is_word s"
  by (auto simp: plain_word_def is_word_def list_all_iff plain_char_word)

lemma plain_not_special: "list_all plain_char s \<Longrightarrow> CHR '';'' \<notin> set s" "list_all plain_char s \<Longrightarrow> CHR ''#'' \<notin> set s"
  by (auto simp: list_all_iff plain_char_def Let_def)

lemma plain_digit: "d < 16 \<Longrightarrow> plain_char (digit_char d)"
  by (auto simp: plain_char_def digit_char_def Let_def)

lemma plain_show_radix:
  assumes "1 < radix" and "radix \<le> 16"
  shows "plain_word (show_radix radix n)"
proof -
  have "plain_char c" if "c \<in> set (show_radix radix n)" for c
    using that set_show_radix [of radix n] assms plain_digit by fastforce
  then show ?thesis
    using set_show_radix [of radix n] assms by (simp add: plain_word_def list_all_iff)
qed

lemma plain_show: "plain_word (show_word w)" "plain_word (show_nat n)" "plain_word (show_hex n)"
  by (simp_all add: show_word_def show_nat_def show_hex_def plain_show_radix)

lemma plain_chars_join:
  "list_all plain_char sep \<Longrightarrow> list_all (list_all plain_char) ss \<Longrightarrow> list_all plain_char (join sep ss)"
  by (induction sep ss rule: join.induct) simp_all

lemma join_Nil_iff: "list_all (\<lambda>s. s \<noteq> []) ss \<Longrightarrow> join sep ss = [] \<longleftrightarrow> ss = []"
  by (induction sep ss rule: join.induct) simp_all

lemma plain_shows: "list_all plain_char (show_word w)" "show_word w \<noteq> []"
  using plain_show(1) [of w] by (simp_all add: plain_word_def)

lemma plain_ipv4_display:
  "list_all plain_char (ipv4_display bs)" "bs \<noteq> [] \<Longrightarrow> ipv4_display bs \<noteq> []"
proof -
  have "list_all (list_all plain_char) (map show_word bs)" "list_all (\<lambda>s. s \<noteq> []) (map show_word bs)"
    using plain_shows [where 'a = 8] by (simp_all add: list_all_iff)
  moreover have "list_all plain_char ''.''"
    by (simp add: plain_char_def)
  ultimately show "list_all plain_char (ipv4_display bs)" "bs \<noteq> [] \<Longrightarrow> ipv4_display bs \<noteq> []"
    by (simp_all add: ipv4_display_def plain_chars_join join_Nil_iff)
qed

lemma plain_groups_display:
  "list_all plain_char (groups_display gs)" "gs \<noteq> [] \<Longrightarrow> groups_display gs \<noteq> []"
proof -
  have "list_all (list_all plain_char) (map (\<lambda>g. show_hex (unat g)) gs)"
    "list_all (\<lambda>s. s \<noteq> []) (map (\<lambda>g. show_hex (unat g)) gs)"
    using plain_show(3) by (simp_all add: list_all_iff plain_word_def)
  moreover have "list_all plain_char '':''"
    by (simp add: plain_char_def)
  ultimately show "list_all plain_char (groups_display gs)" "gs \<noteq> [] \<Longrightarrow> groups_display gs \<noteq> []"
    by (simp_all add: groups_display_def plain_chars_join join_Nil_iff)
qed

lemma plain_ipv6_display:
  assumes "length bs = 16"
  shows "plain_word (ipv6_display bs)"
proof -
  obtain start len where z: "zero_run (0, 0) (0, 0) 0 (segments bs) = (start, len)"
    by fastforce
  have "plain_char (CHR '':'')" "plain_char (CHR ''f'')"
    by (simp_all add: plain_char_def)
  moreover have "segments bs \<noteq> []"
    using assms by (cases bs rule: segments.cases) simp_all
  ultimately show ?thesis
    using plain_ipv4_display(1) [of "drop 12 bs"] plain_groups_display
    by (simp add: plain_word_def ipv6_display_def z Let_def)
qed

lemma plain_ip_to_string: "length bs = 16 \<Longrightarrow> plain_word (ip_to_string (In6Addr bs))"
  using plain_ipv6_display [of bs] plain_ipv4_display [of "drop 12 bs"]
  by (auto simp: ip_to_string_def to_ipv4_def plain_word_def)

lemma join_append: "ws \<noteq> [] \<Longrightarrow> join sep (ws @ vs) = join sep ws @ concat (map (\<lambda>v. sep @ v) vs)"
proof (induction sep ws rule: join.induct)
  case (2 sep s)
  show ?case
    by (induction vs arbitrary: s) simp_all
qed simp_all

section \<open>A script line of plain words\<close>

lemma script_line_plain:
  assumes "splits_plain (ct_shlex E)" and "list_all plain_word (cmd # args)"
  shows "script_line E n (join '' '' (cmd # args)) =
    try_do (run_sub_command E n 0 cmd args) (\<lambda>_. ret ())
      (\<lambda>e. fail (Msg (''line '' @ show_nat (n + 1) @ '' (cmd '' @ show_nat 1 @ '') ['' @ cmd @ '']: '' @ error_display e)))"
proof -
  let ?l = "join '' '' (cmd # args)"
  have w: "list_all is_word (cmd # args)"
    using assms(2) by (simp add: list_all_iff plain_word_word)
  have ends: "cmd \<noteq> []" "\<exists>c s. ?l = c # s \<and> plain_char c"
    using assms(2) by (cases cmd; cases args; simp add: plain_word_def)+
  have last: "word_char (last ?l)"
    using w
  proof (induction "'' ''" "cmd # args" arbitrary: cmd args rule: join.induct)
    case (2 s)
    then show ?case by (auto simp: is_word_def list_all_iff)
  next
    case (3 s t ss)
    then show ?case by (cases ss) (simp_all add: is_word_def)
  qed
  have trim: "str_trim ?l = ?l"
    using ends last by (intro str_trim_word(1) is_ascii_join [OF w]) (auto simp: plain_char_word)
  have "CHR '';'' \<notin> set ?l"
    using assms(2)
  proof (induction "'' ''" "cmd # args" arbitrary: cmd args rule: join.induct)
    case (2 s)
    then show ?case by (simp add: plain_word_def plain_not_special)
  next
    case (3 s t ss)
    then show ?case by (simp add: plain_word_def plain_not_special)
  qed
  then have split: "str_split (CHR '';'') ?l = [?l]"
    by (rule str_split_no_sep)
  have hash: "\<not> plain_char (CHR ''#'')"
    by (simp add: plain_char_def)
  have "?l \<noteq> []" "hd ?l \<noteq> CHR ''#''"
    using ends(2) hash by auto
  moreover have "ct_shlex E ?l = Some (cmd # args)"
    using assms unfolding splits_plain_def by blast
  ultimately show ?thesis
    unfolding script_line_def script_sub_def Let_def trim split script_subs.simps
    by (simp add: trim then_do_def try_do_def fun_eq_iff split: prod.split res.split)
qed

section \<open>What \<open>dump\<close> prints for a peer\<close>

fun printed :: "event list \<Rightarrow> string" where
  "printed [] = []"
| "printed (EvOut s # es) = s @ printed es"
| "printed (e # es) = printed es"

definition name_words :: "ctl \<Rightarrow> u8 \<Rightarrow> string list" where
  "name_words E uid =
     (case (if numeric (ct_flags E) then None else get_host (ct_uids E) uid) of
        Some name \<Rightarrow> [''user'', name]
      | None \<Rightarrow> [''uid'', show_word uid])"

definition xor_words :: "bytes \<Rightarrow> u8 \<Rightarrow> string list" where
  "xor_words key len = (if 0 < len then [''xor'', format_xor_key key len] else [])"

definition comment_words :: "bytes \<Rightarrow> string list" where
  "comment_words c =
     (let s = from_utf8_lossy (takeWhile (\<lambda>x. x \<noteq> 0) c) in if s = [] then [] else [''comment'', s])"

definition user_args :: "ctl \<Rightarrow> TutuUserInfo \<Rightarrow> string list" where
  "user_args E u =
     name_words E (tui_uid u) @ [''addr'', ip_to_string (ui_address (tui_value u)), ''icmp-id'',
       show_word (ntohs (icmp_id (tui_value u))), ''port'', show_word (ntohs (ui_dport (tui_value u)))] @
     xor_words (ui_xor_key (tui_value u)) (ui_xor_key_len (tui_value u)) @
     comment_words (ui_comment (tui_value u))"

definition egress_args :: "ctl \<Rightarrow> TutuEgress \<Rightarrow> string list" where
  "egress_args E e =
     name_words E (ev_uid (e_value e)) @ [''addr'', ip_to_string (ek_address (e_key e)), ''port'',
       show_word (ntohs (ek_port (e_key e)))] @
     xor_words (ev_xor_key (e_value e)) (ev_xor_key_len (e_value e)) @ comment_words (ev_comment (e_value e))"

lemma dump_name: "resolve_hostname E uid True = join '' '' (name_words E uid)"
  by (simp add: resolve_hostname_def name_words_def Let_def split: option.split)

lemma name_words_not_Nil: "name_words E uid \<noteq> []"
  by (simp add: name_words_def split: option.split)

lemma dump_comment: "format_comment c True = concat (map (\<lambda>v. '' '' @ v) (comment_words c))"
  by (simp add: format_comment_def comment_words_def Let_def)

lemma join_command:
  assumes "ns \<noteq> []"
  shows "join '' '' (c # ns @ vs) = c @ '' '' @ join '' '' ns @ concat (map (\<lambda>v. '' '' @ v) vs)"
  using join_append [OF assms, of "'' ''" vs] assms by (cases ns) simp_all

lemma space_append: "(@) '' '' = (#) (CHR '' '')"
  by (simp add: fun_eq_iff)

lemma trace_update_eq: "w\<lparr>w_trace := a\<rparr> = w\<lparr>w_trace := b\<rparr> \<longleftrightarrow> a = b"
  by (cases w) simp

lemma dump_user_prints:
  "\<exists>es. dump_user E u () w = (Ok (), w\<lparr>w_trace := w_trace w @ es\<rparr>) \<and>
     printed es = join '' '' (''server-add'' # user_args E u) @ nl"
  unfolding user_args_def join_command [OF name_words_not_Nil]
  by (auto simp: dump_user_def then_do_def outln_def xor_words_def dump_name dump_comment emit_def trace_update_eq space_append)

lemma dump_egress_prints:
  assumes "ntohs (ek_port (e_key e)) \<noteq> 0"
  shows "\<exists>es. dump_egress E e () w = (Ok (), w\<lparr>w_trace := w_trace w @ es\<rparr>) \<and>
     printed es = join '' '' (''client-add'' # egress_args E e) @ nl"
  using assms unfolding egress_args_def join_command [OF name_words_not_Nil]
  by (auto simp: dump_egress_def then_do_def outln_def xor_words_def dump_name dump_comment emit_def trace_update_eq space_append)

section \<open>What reading it back gives\<close>

text \<open>
  The words are read back as the id, the address, the key and the comment they were printed for:
  the name belongs to no other id (or no name looks like the printed number), the address is not
  IPv4-compatible and of the family asked for, and the comment is a plain word.
\<close>

definition name_reads_back :: "ctl \<Rightarrow> u8 \<Rightarrow> bool" where
  "name_reads_back E uid \<longleftrightarrow> lists_keys (ct_iter E) \<and>
     (case (if numeric (ct_flags E) then None else get_host (ct_uids E) uid) of
        Some name \<Rightarrow> plain_word name \<and> (\<forall>v. get_host (ct_uids E) v = Some name \<longrightarrow> v = uid)
      | None \<Rightarrow> \<forall>v. get_host (ct_uids E) v \<noteq> Some (show_word uid))"

text \<open>The documented behaviour of the two libraries that a restoration relies on.\<close>

definition tools_ok :: "ctl \<Rightarrow> bool" where
  "tools_ok E \<longleftrightarrow> splits_plain (ct_shlex E) \<and> reads_numeric (ct_lookup E)"

definition comment_reads_back :: "string \<Rightarrow> bool" where
  "comment_reads_back s \<longleftrightarrow> s = [] \<or> plain_word s \<and> length s \<le> 22"

lemma name_words_back:
  assumes "name_reads_back E uid"
  obtains kw name where "name_words E uid = [kw, name]" "kw = ''uid'' \<or> kw = ''user''"
    "plain_word name" "resolve_uid E name = Ok uid"
proof (cases "if numeric (ct_flags E) then None else get_host (ct_uids E) uid")
  case None
  have "lists_keys (ct_iter E)" "\<forall>v. get_host (ct_uids E) v \<noteq> Some (show_word uid)"
    using assms unfolding name_reads_back_def None by simp_all
  then have g: "get_uid (ct_iter E) (ct_uids E) (show_word uid) = None"
    using get_uid_None by blast
  show thesis
    by (rule that [of "''uid''" "show_word uid"])
      (simp_all only: name_words_def None option.case resolve_uid_def g parse_u8_show sum.case plain_show simp_thms)
next
  case (Some name)
  then have "get_host (ct_uids E) uid = Some name"
    by (simp split: if_splits)
  moreover have nm: "lists_keys (ct_iter E)" "plain_word name"
    "\<And>v. get_host (ct_uids E) v = Some name \<Longrightarrow> v = uid"
    using assms unfolding name_reads_back_def Some by simp_all
  ultimately have g: "get_uid (ct_iter E) (ct_uids E) name = Some uid"
    by (intro get_uid_unique)
  show thesis
    by (rule that [of "''user''" name])
      (simp_all only: name_words_def Some option.case resolve_uid_def g nm simp_thms)
qed

lemma plain_ascii: "plain_word s \<Longrightarrow> utf8_valid (as_bytes s) \<and> 0 \<notin> set (as_bytes s)"
proof -
  assume p: "plain_word s"
  have "byte_of_char c \<noteq> 0" if "plain_char c" for c
  proof
    assume "byte_of_char c = 0"
    moreover have "(of_char c :: nat) = unat (byte_of_char c)"
      using of_char_char_of_byte [of "byte_of_char c"] by (simp only: char_of_byte_of_char)
    ultimately have "(of_char c :: nat) = 0"
      by simp
    with that show False by (simp add: plain_char_def)
  qed
  with p have "0 \<notin> set (as_bytes s)"
    by (auto simp: plain_word_def list_all_iff as_bytes_def)
  moreover have "utf8_valid (as_bytes s)"
    by (rule utf8_valid_as_bytes_ascii [OF is_word_ascii [OF plain_word_word [OF p]]])
  ultimately show ?thesis by blast
qed

lemma comment_words_back:
  "comment_reads_back s \<Longrightarrow> comment_words (copy_comment d s) = (if s = [] then [] else [''comment'', s])"
  by (auto simp: comment_words_def comment_reads_back_def takeWhile_copy_comment from_utf8_lossy_valid
      plain_ascii Let_def as_bytes_def [of "[]"])

lemma xor_words_back:
  assumes "length bs \<le> 64"
  shows "xor_words (bs @ rest) (of_nat (length bs)) =
      (if bs = [] then [] else [''xor'', concat (map hex_byte bs)])"
    and "bs \<noteq> [] \<Longrightarrow> xor_key_of (concat (map hex_byte bs)) =
      Ok (bs @ replicate (64 - length bs) 0, of_nat (length bs))"
    and "bs \<noteq> [] \<Longrightarrow> plain_word (concat (map hex_byte bs))"
proof -
  have u: "unat (of_nat (length bs) :: u8) = length bs"
    using assms by (intro unat_of_nat_small) simp
  then have "0 < (of_nat (length bs) :: u8) \<longleftrightarrow> bs \<noteq> []"
    by (simp add: word_less_nat_alt)
  with u show "xor_words (bs @ rest) (of_nat (length bs)) =
      (if bs = [] then [] else [''xor'', concat (map hex_byte bs)])"
    by (simp add: xor_words_def format_xor_key_def)
  assume "bs \<noteq> []"
  then have ne: "concat (map hex_byte bs) \<noteq> []"
    by (cases bs) (simp_all add: hex_byte_digits)
  with assms show "xor_key_of (concat (map hex_byte bs)) =
      Ok (bs @ replicate (64 - length bs) 0, of_nat (length bs))"
    using xor_loop_bytes [of 0 bs "replicate 64 0"]
    by (simp add: xor_key_of_def parse_xor_key_def length_hex Let_def)
  have "list_all plain_char (hex_byte b)" for b
    using unsigned_less [of b, where 'a = nat] by (simp add: hex_byte_digits plain_digit)
  then have "list_all plain_char (concat (map hex_byte bs))"
    by (auto simp: list_all_iff)
  with ne show "plain_word (concat (map hex_byte bs))"
    by (simp add: plain_word_def)
qed

section \<open>The requests a restored line makes\<close>

text \<open>The abstract effect: check the mode, then write the entries as they are.\<close>

definition restore_user :: "ctl \<Rightarrow> TutuUserInfo \<Rightarrow> (world, unit) comp" where
  "restore_user E u =
     then_do (get_config E) (\<lambda>cfg.
     if is_server cfg = 0 then fail (Msg ''must be in server mode'')
     else send_struct (ct_profile E) enc_TutuUserInfo TUTU_CMD_UPDATE_USER_INFO TUTU_ATTR_USER_INFO u True)"

text \<open>A script line has the effect of a computation: it adds one log line, or the position of an error.\<close>

definition line_does :: "ctl \<Rightarrow> nat \<Rightarrow> string \<Rightarrow> (world, unit) comp \<Rightarrow> bool" where
  "line_does E n line m \<longleftrightarrow>
     (\<forall>w. case m w of
        (Ok _, w') \<Rightarrow> \<exists>msg. script_line E n line w = (Ok (), emit (EvInfo msg) w')
      | (Err e, w') \<Rightarrow> \<exists>msg. script_line E n line w = (Err (Msg msg), w')
      | (Panic, w') \<Rightarrow> script_line E n line w = (Panic, w')
      | (Blocked, w') \<Rightarrow> script_line E n line w = (Blocked, w'))"

lemma try_log:
  "case m w of
     (Ok _, w') \<Rightarrow> \<exists>msg'. try_do (then_do m (\<lambda>_. log_info msg)) (\<lambda>_. ret ()) (\<lambda>e. fail (Msg (f e))) w =
         (Ok (), emit (EvInfo msg') w')
   | (Err e, w') \<Rightarrow> \<exists>msg'. try_do (then_do m (\<lambda>_. log_info msg)) (\<lambda>_. ret ()) (\<lambda>e. fail (Msg (f e))) w =
         (Err (Msg msg'), w')
   | (Panic, w') \<Rightarrow> try_do (then_do m (\<lambda>_. log_info msg)) (\<lambda>_. ret ()) (\<lambda>e. fail (Msg (f e))) w = (Panic, w')
   | (Blocked, w') \<Rightarrow> try_do (then_do m (\<lambda>_. log_info msg)) (\<lambda>_. ret ()) (\<lambda>e. fail (Msg (f e))) w = (Blocked, w')"
proof -
  obtain r w' where "m w = (r, w')" by fastforce
  then show ?thesis
    by (cases r) (auto simp: try_do_def then_do_def)
qed

lemma line_does_log:
  assumes "splits_plain (ct_shlex E)" and "list_all plain_word (cmd # args)"
    and "run_sub_command E n 0 cmd args = then_do m (\<lambda>_. log_info msg)"
  shows "line_does E n (join '' '' (cmd # args)) m"
  unfolding line_does_def script_line_plain [OF assms(1,2)] assms(3) by (intro allI try_log)

lemma parse_u16_arg_show [simp]: "parse_u16_arg (show_word n) = Ok n"
  by (simp add: parse_u16_arg_def)

lemma server_add_loop_user_args:
  assumes "length bs \<le> 64" and "name_reads_back E (sv_add_uid v)" and "comment_reads_back (sv_comment v)"
  shows "server_add_loop E server_add_init (user_args E (server_add_user_info v a (bs @ rest) (of_nat (length bs)))) =
    Ok \<lparr>sv_address = ip_to_string a, sv_port = sv_port v, sv_icmp_id = sv_icmp_id v, sv_add_uid = sv_add_uid v,
      sv_comment = sv_comment v, sv_uid_set = True,
      sv_xor_hex = (if bs = [] then [] else concat (map hex_byte bs))\<rparr>"
proof -
  obtain kw name where n: "name_words E (sv_add_uid v) = [kw, name]" "kw = ''uid'' \<or> kw = ''user''"
    "resolve_uid E name = Ok (sv_add_uid v)"
    using name_words_back [OF assms(2)] by metis
  have "user_args E (server_add_user_info v a (bs @ rest) (of_nat (length bs))) =
      [kw, name, ''addr'', ip_to_string a, ''icmp-id'', show_word (sv_icmp_id v), ''port'', show_word (sv_port v)] @
      (if bs = [] then [] else [''xor'', concat (map hex_byte bs)]) @
      (if sv_comment v = [] then [] else [''comment'', sv_comment v])"
    by (simp add: user_args_def server_add_user_info_def n(1) xor_words_back(1) [OF assms(1)]
        comment_words_back [OF assms(3)])
  then show ?thesis
    using n(2) by (elim disjE) (simp_all add: n(3) server_add_init_def)
qed

lemma plain_user_args:
  assumes "length bs \<le> 64" and "name_reads_back E (sv_add_uid v)" and "comment_reads_back (sv_comment v)"
    and "length a = 16"
  shows "list_all plain_word (''server-add'' #
    user_args E (server_add_user_info v (In6Addr a) (bs @ rest) (of_nat (length bs))))"
proof -
  have kw: "plain_word ''server-add''" "plain_word ''addr''" "plain_word ''icmp-id''" "plain_word ''port''"
    "plain_word ''xor''" "plain_word ''comment''" "plain_word ''uid''" "plain_word ''user''"
    by (simp_all add: plain_word_def plain_char_def)
  obtain k name where n: "name_words E (sv_add_uid v) = [k, name]" "k = ''uid'' \<or> k = ''user''" "plain_word name"
    using name_words_back [OF assms(2)] by metis
  have "plain_word k"
    using n(2) kw by blast
  moreover have "sv_comment v \<noteq> [] \<longrightarrow> plain_word (sv_comment v)"
    using assms(3) by (auto simp: comment_reads_back_def)
  ultimately show ?thesis
    using xor_words_back(3) [OF assms(1)] n(3)
    by (simp add: user_args_def server_add_user_info_def n(1) xor_words_back(1) [OF assms(1)] kw
        comment_words_back [OF assms(3)]
        plain_show plain_ip_to_string [OF assms(4)])
qed

lemma cmd_server_add_restores:
  assumes "length bs \<le> 64" and "sv_port v \<noteq> 0" and "name_reads_back E (sv_add_uid v)"
    and "restorable_address E a" and "comment_reads_back (sv_comment v)"
    and "u = server_add_user_info v (In6Addr a) (bs @ replicate (64 - length bs) 0) (of_nat (length bs))"
    and tools: "reads_numeric (ct_lookup E)"
  shows "\<exists>msg. cmd_server_add E (user_args E u) = then_do (restore_user E u) (\<lambda>_. log_info msg)"
proof -
  let ?hex = "if bs = [] then [] else concat (map hex_byte bs)"
  have l: "length a = 16" "resolve_ip E (ip_to_string (In6Addr a)) = Ok (In6Addr a)"
    using restorable_address_back [OF tools assms(4)] by simp_all
  have ip: "ip_to_string (In6Addr a) \<noteq> []"
    using plain_ip_to_string [OF l(1)] by (simp add: plain_word_def)
  have x: "xor_key_of ?hex = Ok (bs @ replicate (64 - length bs) 0, of_nat (length bs))"
    using xor_words_back(2) [OF assms(1)] by (simp add: xor_key_of_def)
  let ?v = "\<lparr>sv_address = ip_to_string (In6Addr a), sv_port = sv_port v, sv_icmp_id = sv_icmp_id v,
      sv_add_uid = sv_add_uid v, sv_comment = sv_comment v, sv_uid_set = True, sv_xor_hex = ?hex\<rparr>"
  have parse: "server_add_loop E server_add_init (user_args E u) = Ok ?v"
    unfolding assms(6) by (rule server_add_loop_user_args [OF assms(1,3,5)])
  have u: "server_add_user_info ?v (In6Addr a) (bs @ replicate (64 - length bs) 0) (of_nat (length bs)) = u"
    by (simp add: assms(6) server_add_user_info_def)
  have ready: "\<not> (\<not> sv_uid_set ?v \<or> sv_address ?v = [] \<or> sv_port ?v = 0)"
    using ip assms(2) by simp
  have r: "resolve_ip E (sv_address ?v) = Ok (In6Addr a)"
    "xor_key_of (sv_xor_hex ?v) = Ok (bs @ replicate (64 - length bs) 0, of_nat (length bs))"
    by (simp_all only: server_add_vars.select_convs l x)
  show ?thesis
    unfolding cmd_server_add_def restore_user_def parse then_do_comp if_not_P [OF ready] r prod.case u
    by (rule exI) (rule refl)
qed

text \<open>The same for a peer of the client, whose ingress entry follows from the egress entry.\<close>

definition restore_egress :: "ctl \<Rightarrow> TutuIngress \<Rightarrow> TutuEgress \<Rightarrow> (world, unit) comp" where
  "restore_egress E i e =
     then_do (get_config E) (\<lambda>cfg.
     if is_server cfg \<noteq> 0 then fail (Msg ''must be in client mode'')
     else then_do (try_do
         (send_struct (ct_profile E) enc_TutuIngress TUTU_CMD_UPDATE_INGRESS TUTU_ATTR_INGRESS i True)
         (\<lambda>_. ret ())
         (\<lambda>e. fail (Msg (''ingress update failed (possible port conflict): '' @ error_display e)))) (\<lambda>_.
       send_struct (ct_profile E) enc_TutuEgress TUTU_CMD_UPDATE_EGRESS TUTU_ATTR_EGRESS e True))"

lemma egress_args_eq:
  assumes "length bs \<le> 64" and "comment_reads_back (ca_comment v)"
    and "name_words E (ca_uid v) = [kw, name]"
  shows "egress_args E (client_add_egress v a (bs @ rest) (of_nat (length bs))) =
    [kw, name, ''addr'', ip_to_string a, ''port'', show_word (ca_port v)] @
    (if bs = [] then [] else [''xor'', concat (map hex_byte bs)]) @
    (if ca_comment v = [] then [] else [''comment'', ca_comment v])"
  by (simp add: egress_args_def client_add_egress_def assms(3) xor_words_back(1) [OF assms(1)]
      comment_words_back [OF assms(2)])

lemma client_add_loop_egress_args:
  assumes "length bs \<le> 64" and "name_reads_back E (ca_uid v)" and "comment_reads_back (ca_comment v)"
  shows "client_add_loop E client_add_init (egress_args E (client_add_egress v a (bs @ rest) (of_nat (length bs)))) =
    Ok \<lparr>ca_address = ip_to_string a, ca_port = ca_port v, ca_uid = ca_uid v, ca_comment = ca_comment v,
      ca_uid_set = True, ca_xor_hex = (if bs = [] then [] else concat (map hex_byte bs))\<rparr>"
proof -
  obtain kw name where n: "name_words E (ca_uid v) = [kw, name]" "kw = ''uid'' \<or> kw = ''user''"
    "resolve_uid E name = Ok (ca_uid v)"
    using name_words_back [OF assms(2)] by metis
  show ?thesis
    unfolding egress_args_eq [OF assms(1,3) n(1)]
    using n(2) by (elim disjE) (simp_all add: n(3) client_add_init_def)
qed

lemma plain_egress_args:
  assumes "length bs \<le> 64" and "name_reads_back E (ca_uid v)" and "comment_reads_back (ca_comment v)"
    and "length a = 16"
  shows "list_all plain_word (''client-add'' #
    egress_args E (client_add_egress v (In6Addr a) (bs @ rest) (of_nat (length bs))))"
proof -
  have kw: "plain_word ''client-add''" "plain_word ''addr''" "plain_word ''port''" "plain_word ''xor''"
    "plain_word ''comment''" "plain_word ''uid''" "plain_word ''user''"
    by (simp_all add: plain_word_def plain_char_def)
  obtain k name where n: "name_words E (ca_uid v) = [k, name]" "k = ''uid'' \<or> k = ''user''" "plain_word name"
    using name_words_back [OF assms(2)] by metis
  have "plain_word k"
    using n(2) kw by blast
  moreover have "ca_comment v \<noteq> [] \<longrightarrow> plain_word (ca_comment v)"
    using assms(3) by (auto simp: comment_reads_back_def)
  ultimately show ?thesis
    unfolding egress_args_eq [OF assms(1,3) n(1)]
    using xor_words_back(3) [OF assms(1)] n(3) by (simp add: kw plain_show plain_ip_to_string [OF assms(4)])
qed

lemma cmd_client_add_restores:
  assumes "length bs \<le> 64" and "ca_port v \<noteq> 0" and "name_reads_back E (ca_uid v)"
    and "restorable_address E a" and "comment_reads_back (ca_comment v)"
    and "e = client_add_egress v (In6Addr a) (bs @ replicate (64 - length bs) 0) (of_nat (length bs))"
    and "i = client_add_ingress v (In6Addr a) (bs @ replicate (64 - length bs) 0) (of_nat (length bs))"
    and tools: "reads_numeric (ct_lookup E)"
  shows "\<exists>msg. cmd_client_add E (egress_args E e) = then_do (restore_egress E i e) (\<lambda>_. log_info msg)"
proof -
  let ?hex = "if bs = [] then [] else concat (map hex_byte bs)"
  have l: "length a = 16" "resolve_ip E (ip_to_string (In6Addr a)) = Ok (In6Addr a)"
    using restorable_address_back [OF tools assms(4)] by simp_all
  have ip: "ip_to_string (In6Addr a) \<noteq> []"
    using plain_ip_to_string [OF l(1)] by (simp add: plain_word_def)
  have x: "xor_key_of ?hex = Ok (bs @ replicate (64 - length bs) 0, of_nat (length bs))"
    using xor_words_back(2) [OF assms(1)] by (simp add: xor_key_of_def)
  let ?v = "\<lparr>ca_address = ip_to_string (In6Addr a), ca_port = ca_port v, ca_uid = ca_uid v,
      ca_comment = ca_comment v, ca_uid_set = True, ca_xor_hex = ?hex\<rparr>"
  have parse: "client_add_loop E client_add_init (egress_args E e) = Ok ?v"
    unfolding assms(6) by (rule client_add_loop_egress_args [OF assms(1,3,5)])
  have u: "client_add_egress ?v (In6Addr a) (bs @ replicate (64 - length bs) 0) (of_nat (length bs)) = e"
    "client_add_ingress ?v (In6Addr a) (bs @ replicate (64 - length bs) 0) (of_nat (length bs)) = i"
    by (simp_all add: assms(6,7) client_add_egress_def client_add_ingress_def)
  have ready: "\<not> (ca_address ?v = [] \<or> ca_port ?v = 0 \<or> \<not> ca_uid_set ?v)"
    using ip assms(2) by simp
  have r: "resolve_ip E (ca_address ?v) = Ok (In6Addr a)"
    "xor_key_of (ca_xor_hex ?v) = Ok (bs @ replicate (64 - length bs) 0, of_nat (length bs))"
    by (simp_all only: client_add_vars.select_convs l x)
  show ?thesis
    unfolding cmd_client_add_def restore_egress_def parse then_do_comp if_not_P [OF ready] r prod.case u
    by (rule exI) (rule refl)
qed

section \<open>A run to look at\<close>

text \<open>Names \<open>bob\<close> and \<open>ann\<close>, numeric addresses, and a shell splitter for plain words.\<close>

definition sample_ctl :: ctl where
  "sample_ctl =
     \<lparr>ct_profile = Release, ct_flags = \<lparr>numeric = False, debug = False, ip_family = None\<rparr>,
      ct_uids = \<lparr>hostnames = [7 \<mapsto> ''bob'', 9 \<mapsto> ''ann'']\<rparr>, ct_iter = ascending,
      ct_lookup = (\<lambda>s. case ip_from_str s of Some ip \<Rightarrow> Inr [ip] | None \<Rightarrow> Inl (Ext ''unknown host'')),
      ct_shlex = (\<lambda>s. Some (split_whitespace s)),
      ct_fs = \<lparr>fs_exists = (\<lambda>_. False), fs_open = (\<lambda>_. Inl (Ext ''not found''))\<rparr>,
      ct_stdin = [], ct_now = ''now''\<rparr>"

lemma splits_plain_split_whitespace: "splits_plain (\<lambda>s. Some (split_whitespace s))"
proof -
  have "split_whitespace (join '' '' ws) = ws" if "list_all plain_word ws" for ws
    using that by (intro split_whitespace_words) (simp add: list_all_iff plain_word_word)
  then show ?thesis
    by (simp add: splits_plain_def)
qed

lemma sample_reads_back:
  "tools_ok sample_ctl" "name_reads_back sample_ctl 7"
  "restorable_address sample_ctl (replicate 10 0 @ [0xFF, 0xFF, 10, 0, 0, 1])" "comment_reads_back ''home''"
proof -
  have "plain_word ''bob''"
    by (simp add: plain_word_def plain_char_def)
  then show "name_reads_back sample_ctl 7"
    by (auto simp: name_reads_back_def sample_ctl_def lists_keys_ascending get_host_def split: if_splits)
  have "take 12 (replicate 10 0 @ [0xFF, 0xFF, 10, 0, 0, 1 :: u8]) \<noteq> replicate 12 0"
    by code_simp
  then show "restorable_address sample_ctl (replicate 10 0 @ [0xFF, 0xFF, 10, 0, 0, 1])"
    by (simp add: restorable_address_def sample_ctl_def)
  show "tools_ok sample_ctl"
    by (simp add: tools_ok_def reads_numeric_def sample_ctl_def splits_plain_split_whitespace)
  show "comment_reads_back ''home''"
    by (simp add: comment_reads_back_def plain_word_def plain_char_def)
qed

lemmas sample_tools = sample_reads_back(1) [unfolded tools_ok_def, THEN conjunct1]
  sample_reads_back(1) [unfolded tools_ok_def, THEN conjunct2]

end
