(* ===== verification/Ctl_Runs.thy ===== *)
theory Ctl_Runs
  imports Dump_Restore
begin

text \<open>
  Whole runs of \<open>ktuctl\<close> commands: what they send when the kernel answers each connection in a given
  way, what they refuse to do in the wrong mode, what \<open>dump\<close> prints, and which forms of a command agree.
\<close>

section \<open>How a connection is answered\<close>

definition conn_answering :: "conn \<Rightarrow> u16 \<Rightarrow> msg list \<Rightarrow> msg list list \<Rightarrow> bool" where
  "conn_answering c fid fam mss \<longleftrightarrow>
     c = kernel_answers (fam # mss) \<and> family_answer fid fam \<and> clean_for 1 (fam # mss) \<and> clean_for 2 mss"

lemma answering_conn: "answering w fid fam mss \<longleftrightarrow> conn_answering (w_conns w (w_next w)) fid fam mss"
  by (simp add: answering_def conn_answering_def)

text \<open>With the configuration, with an acknowledgement, with the entries of a dump.\<close>

definition conn_config :: "conn \<Rightarrow> u16 \<Rightarrow> TutuConfig \<Rightarrow> bool" where
  "conn_config c fid cfg \<longleftrightarrow>
     (\<exists>fam noise ms rest h body pre extra post.
        conn_answering c fid fam (noise @ ms # rest) \<and> list_all (\<lambda>ms. find (own 2) ms = None) noise \<and>
        find (own 2) ms = Some (h, body) \<and> nlmsg_type h \<noteq> NLMSG_ERROR \<and> nlmsg_type h \<noteq> NLMSG_DONE \<and>
        body_attrs body = pre @ (TUTU_ATTR_CONFIG, enc_TutuConfig cfg @ extra) # post \<and>
        TUTU_ATTR_CONFIG \<notin> fst ` set pre \<and> valid_TutuConfig cfg)"

definition conn_acks :: "conn \<Rightarrow> u16 \<Rightarrow> 32 word \<Rightarrow> bool" where
  "conn_acks c fid code \<longleftrightarrow> sint code \<noteq> - (2 ^ 31) \<and>
     (\<exists>fam noise ms rest h e extra.
        conn_answering c fid fam (noise @ ms # rest) \<and> list_all (\<lambda>ms. find (own 2) ms = None) noise \<and>
        find (own 2) ms = Some (h, enc_NlmsgerrRaw e @ extra) \<and> nlmsg_type h = NLMSG_ERROR \<and>
        nlmsgerr_error e = code)"

definition conn_dumps :: "conn \<Rightarrow> u16 \<Rightarrow> u16 \<Rightarrow> (bytes \<Rightarrow> 't option) \<Rightarrow> 't list \<Rightarrow> bool" where
  "conn_dumps c fid attr_type use vs \<longleftrightarrow>
     (\<exists>fam mss fin rest h body vss.
        conn_answering c fid fam (mss @ fin # rest) \<and>
        list_all2 (list_all2 (entry_msg attr_type use)) mss vss \<and>
        find (own 2) fin = Some (h, body) \<and> nlmsg_type h = NLMSG_DONE \<and> vs = concat vss)"

lemma get_config_conn:
  assumes "conn_config (w_conns w (w_next w)) fid cfg"
  shows "get_config E w = (Ok cfg, requested (request_packet fid NLM_F_REQUEST TUTU_CMD_GET_CONFIG []) w)"
proof -
  from assms obtain fam noise ms rest h body pre extra post where
    "answering w fid fam (noise @ ms # rest)" "list_all (\<lambda>ms. find (own 2) ms = None) noise"
    "find (own 2) ms = Some (h, body)" "nlmsg_type h \<noteq> NLMSG_ERROR" "nlmsg_type h \<noteq> NLMSG_DONE"
    "body_attrs body = pre @ (TUTU_ATTR_CONFIG, enc_TutuConfig cfg @ extra) # post"
    "TUTU_ATTR_CONFIG \<notin> fst ` set pre" "valid_TutuConfig cfg"
    unfolding conn_config_def answering_conn by blast
  from wTutuConfig.receive_struct_value [OF this, of "ct_profile E" TUTU_CMD_GET_CONFIG None]
  show ?thesis
    by (simp add: get_config_def)
qed

lemma send_struct_conn:
  assumes "conn_acks (w_conns w (w_next w)) fid code"
  shows "send_struct p enc cmd attr_type v True w =
    (if code = 0 then Ok () else Err (Ctx ''netlink error'' (OsErrno (- code))),
     requested (request_packet fid (NLM_F_REQUEST OR NLM_F_ACK) cmd [(attr_type, enc v)]) w)"
proof -
  from assms obtain fam noise ms rest h e extra where
    "answering w fid fam (noise @ ms # rest)" "list_all (\<lambda>ms. find (own 2) ms = None) noise"
    "find (own 2) ms = Some (h, enc_NlmsgerrRaw e @ extra)" "nlmsg_type h = NLMSG_ERROR"
    "sint (nlmsgerr_error e) \<noteq> - (2 ^ 31)" "nlmsgerr_error e = code"
    unfolding conn_acks_def answering_conn by blast
  with send_payload_acked [OF this(1-5), of p cmd attr_type "enc v"] show ?thesis
    by (simp add: send_struct_def)
qed

lemma dump_structs_conn:
  assumes "conn_dumps (w_conns w (w_next w)) fid attr_type (struct_payload size_of dec) vs"
  shows "dump_structs p size_of dec cmd attr_type handler c w =
    run_handler handler vs c (requested (request_packet fid (NLM_F_REQUEST OR NLM_F_DUMP) cmd []) w)"
proof -
  from assms obtain fam mss fin rest h body vss where
    "answering w fid fam (mss @ fin # rest)"
    "list_all2 (list_all2 (entry_msg attr_type (struct_payload size_of dec))) mss vss"
    "find (own 2) fin = Some (h, body)" "nlmsg_type h = NLMSG_DONE" "vs = concat vss"
    unfolding conn_dumps_def answering_conn by blast
  with dump_with_entries [OF this(1-4), of p cmd handler c] show ?thesis
    by (simp add: dump_structs_def)
qed

text \<open>A handler that only computes.\<close>

lemma run_handler_ret: "run_handler (\<lambda>v c. ret (f v c)) vs c w = (Ok (fold f vs c), w)"
  by (induction vs arbitrary: c) simp_all

lemma sent_requested: "sent (w_trace (requested packet w)) = sent (w_trace w) @ [getfamily_packet, packet]"
  by simp

text \<open>The last entry a fold keeps is the first one from behind.\<close>

lemma fold_keep_last: "fold (\<lambda>v c. if P v then Some v else c) vs c = (case find P (rev vs) of Some v \<Rightarrow> Some v | None \<Rightarrow> c)"
  by (induction vs arbitrary: c rule: rev_induct) auto

section \<open>Argument loops end in a value or an error\<close>

definition quiet :: "'a res \<Rightarrow> bool" where
  "quiet r \<longleftrightarrow> r \<noteq> Panic \<and> r \<noteq> Blocked"

lemma quiet_simps [simp]: "quiet (Ok x)" "quiet (Err e)"
  by (simp_all add: quiet_def)

lemma quiet_bind [simp]: "quiet (res_bind r f) \<longleftrightarrow> quiet r \<and> (\<forall>x. r = Ok x \<longrightarrow> quiet (f x))"
  by (cases r) (simp_all add: quiet_def)

lemma quiet_cases: "quiet r \<Longrightarrow> (\<exists>x. r = Ok x) \<or> (\<exists>e. r = Err e)"
  by (cases r) (simp_all add: quiet_def)

lemma quiet_resolve_uid [simp]: "quiet (resolve_uid E s)"
  by (simp add: resolve_uid_def split: option.split sum.split)

lemma quiet_parse_u16_arg [simp]: "quiet (parse_u16_arg s)"
  by (simp add: parse_u16_arg_def split: sum.split)

lemma quiet_client_add_loop: "quiet (client_add_loop E v args)"
  by (induction E v args rule: client_add_loop.induct) (simp_all split: list.split)

lemma quiet_server_add_loop: "quiet (server_add_loop E v args)"
  by (induction E v args rule: server_add_loop.induct) (simp_all split: list.split)

section \<open>The two forms of a command\<close>

fun command_name :: "Commands \<Rightarrow> string" where
  "command_name (Load _) = ''load''"
| "command_name (Unload _) = ''unload''"
| "command_name (Server _) = ''server''"
| "command_name (Client _) = ''client''"
| "command_name (ClientAdd _) = ''client-add''"
| "command_name (ClientDel _) = ''client-del''"
| "command_name (ServerAdd _) = ''server-add''"
| "command_name (ServerDel _) = ''server-del''"
| "command_name (Status _) = ''status''"
| "command_name (Dump _) = ''dump''"
| "command_name (Reaper _) = ''reaper''"
| "command_name (Version _) = ''version''"
| "command_name (Script _) = ''script''"

fun command_args :: "Commands \<Rightarrow> string list" where
  "command_args (Load as) = as"
| "command_args (Unload as) = as"
| "command_args (Server as) = as"
| "command_args (Client as) = as"
| "command_args (ClientAdd as) = as"
| "command_args (ClientDel as) = as"
| "command_args (ServerAdd as) = as"
| "command_args (ServerDel as) = as"
| "command_args (Status as) = as"
| "command_args (Dump as) = as"
| "command_args (Reaper as) = as"
| "command_args (Version as) = as"
| "command_args (Script as) = as"

definition script_commands :: "string list" where
  "script_commands = [''load'', ''unload'', ''server'', ''client'', ''client-add'', ''client-del'', ''server-add'',
     ''server-del'', ''status'', ''dump'', ''version'', ''reaper'']"

lemma run_sub_command_known:
  "cmd \<in> set script_commands \<Longrightarrow> run_sub_command E n i cmd as = run_command_string E cmd as"
  by (auto simp: run_command_string_def run_sub_command_def script_commands_def)

lemma run_sub_command_unknown:
  "cmd \<notin> set script_commands \<Longrightarrow> run_sub_command E n i cmd as =
     log_error (''Line '' @ show_nat (n + 1) @ '' (cmd '' @ show_nat (i + 1) @ ''): Unknown command '' @ quoted cmd)"
  by (simp add: run_sub_command_def script_commands_def)

section \<open>Printing listings\<close>

lemma printed_append [simp]: "printed (es @ fs) = printed es @ printed fs"
  by (induction es rule: printed.induct) simp_all

definition prints :: "(world, unit) comp \<Rightarrow> string \<Rightarrow> bool" where
  "prints m s \<longleftrightarrow> (\<forall>w. \<exists>es. m w = (Ok (), w\<lparr>w_trace := w_trace w @ es\<rparr>) \<and> printed es = s)"

lemma printsE:
  assumes "prints m s"
  obtains es where "m w = (Ok (), w\<lparr>w_trace := w_trace w @ es\<rparr>)" "printed es = s"
  using assms unfolding prints_def by blast

lemma prints_ret: "prints (ret ()) []"
  by (auto simp: prints_def intro: exI [of _ "[]"])

lemma prints_outln: "prints (outln s) (s @ nl)"
proof -
  have "outln s w = (Ok (), w\<lparr>w_trace := w_trace w @ [EvOut (s @ nl)]\<rparr>)" for w
    by (simp add: outln_def emit_def)
  then show ?thesis
    unfolding prints_def by (metis append_Nil2 printed.simps(1,2))
qed

lemma prints_then:
  assumes "prints m s" and "prints (f ()) s'"
  shows "prints (then_do m f) (s @ s')"
  unfolding prints_def
proof
  fix w
  obtain es where m: "m w = (Ok (), w\<lparr>w_trace := w_trace w @ es\<rparr>)" "printed es = s"
    by (rule printsE [OF assms(1)])
  obtain fs where m': "f () (w\<lparr>w_trace := w_trace w @ es\<rparr>) = (Ok (), w\<lparr>w_trace := w_trace w @ es @ fs\<rparr>)" "printed fs = s'"
    by (rule printsE [OF assms(2), of "w\<lparr>w_trace := w_trace w @ es\<rparr>"]) simp
  show "\<exists>es. then_do m f w = (Ok (), w\<lparr>w_trace := w_trace w @ es\<rparr>) \<and> printed es = s @ s'"
    using m m' by (intro exI [of _ "es @ fs"]) (simp add: then_do_def)
qed

lemma prints_handler:
  assumes "\<And>v. prints (handler v ()) (f v)"
  shows "prints (run_handler handler vs ()) (concat (map f vs))"
  by (induction vs) (simp_all add: prints_ret prints_then [OF assms] del: ret_apply)

lemma prints_dump_user: "prints (dump_user E u ()) (join '' '' (''server-add'' # user_args E u) @ nl)"
  unfolding prints_def using dump_user_prints by blast

definition egress_line :: "ctl \<Rightarrow> TutuEgress \<Rightarrow> string" where
  "egress_line E e =
     (if ntohs (ek_port (e_key e)) \<noteq> 0 then join '' '' (''client-add'' # egress_args E e) @ nl else [])"

lemma prints_dump_egress: "prints (dump_egress E e ()) (egress_line E e)"
proof (cases "ntohs (ek_port (e_key e)) \<noteq> 0")
  case True
  then show ?thesis
    unfolding prints_def egress_line_def if_P [OF True] using dump_egress_prints [OF True] by blast
next
  case False
  then show ?thesis
    using prints_ret by (simp add: egress_line_def dump_egress_def del: ret_apply)
qed

definition dump_header :: "ctl \<Rightarrow> string" where
  "dump_header E =
     ''#!/sbin/ktuctl script -'' @ nl @ ''# Auto-generated by '' @ CHR 0x22 # ''ktuctl dump'' @ CHR 0x22 # '' on '' @
     ct_now E @ nl @ nl"

text \<open>A listing whose request goes out between two outputs.\<close>

lemma dump_conn_prints:
  assumes "prints m s" and "conn_dumps (w_conns w (w_next w)) fid attr_type (struct_payload size_of dec) vs"
    and "\<And>v. prints (handler v ()) (f v)"
  shows "\<exists>w' es. then_do m (\<lambda>_. dump_structs p size_of dec cmd attr_type handler ()) w = (Ok (), w') \<and>
    w_trace w' = w_trace w @ es \<and> printed es = s @ concat (map f vs)"
proof -
  obtain es where m: "m w = (Ok (), w\<lparr>w_trace := w_trace w @ es\<rparr>)" "printed es = s"
    by (rule printsE [OF assms(1)])
  let ?w = "w\<lparr>w_trace := w_trace w @ es\<rparr>"
  let ?r = "requested (request_packet fid (NLM_F_REQUEST OR NLM_F_DUMP) cmd []) ?w"
  have "conn_dumps (w_conns ?w (w_next ?w)) fid attr_type (struct_payload size_of dec) vs"
    using assms(2) by simp
  note d = dump_structs_conn [OF this, of p cmd handler "()"]
  obtain fs where h: "run_handler handler vs () ?r = (Ok (), ?r\<lparr>w_trace := w_trace ?r @ fs\<rparr>)"
    "printed fs = concat (map f vs)"
    by (rule printsE [OF prints_handler [where handler = handler and f = f, OF assms(3)]])
  have "then_do m (\<lambda>_. dump_structs p size_of dec cmd attr_type handler ()) w = (Ok (), ?r\<lparr>w_trace := w_trace ?r @ fs\<rparr>)"
    by (simp only: then_do_def m prod.case res.case d h)
  moreover have "w_trace (?r\<lparr>w_trace := w_trace ?r @ fs\<rparr>) =
      w_trace w @ (es @ [EvConnect, EvSend getfamily_packet, EvSend (request_packet fid (NLM_F_REQUEST OR NLM_F_DUMP) cmd [])] @ fs)"
    by simp
  ultimately show ?thesis
    using m(2) h(2) by (intro exI conjI) (assumption, assumption, simp)
qed

section \<open>Answers written out\<close>

lemma conn_answering_single:
  assumes "\<And>seq. seq = 1 \<or> seq = 2 \<Longrightarrow> clean_for seq mss"
  shows "conn_answering (kernel_answers ([family_reply fid] # mss)) fid [family_reply fid] mss"
  using answering_world_of [OF refl assms assms, of fid "[]"] by (simp add: answering_conn)

definition config_conn :: "u16 \<Rightarrow> TutuConfig \<Rightarrow> conn" where
  "config_conn fid cfg =
     kernel_answers [[family_reply fid], [reply fid 2 (genl_body 1 [(TUTU_ATTR_CONFIG, enc_TutuConfig cfg)])]]"

definition ack_conn :: "u16 \<Rightarrow> 32 word \<Rightarrow> conn" where
  "ack_conn fid code = kernel_answers [[family_reply fid], [error_reply code]]"

lemma config_conn_config:
  assumes "valid_TutuConfig cfg" and "fid \<noteq> NLMSG_ERROR" and "fid \<noteq> NLMSG_DONE"
  shows "conn_config (config_conn fid cfg) fid cfg"
proof -
  let ?body = "genl_body 1 [(TUTU_ATTR_CONFIG, enc_TutuConfig cfg)]"
  have sm: "list_all small_attr [(TUTU_ATTR_CONFIG, enc_TutuConfig cfg)]"
    using assms(1) by (simp add: small_attr_def codec_simps)
  have "length ?body < 60000"
    using assms(1) by (simp add: length_push_attrs nla_align_eq codec_simps del: push_attrs.simps)
  then have "conn_answering (config_conn fid cfg) fid [family_reply fid] ([] @ [reply fid 2 ?body] # [])"
    unfolding config_conn_def by (simp only: append_Nil, intro conn_answering_single)
      (auto simp: clean_for_single wf_datagram_single)
  moreover have "find (own 2) [reply fid 2 ?body] = Some (reply fid 2 ?body)"
    by simp
  moreover have "body_attrs ?body = [] @ (TUTU_ATTR_CONFIG, enc_TutuConfig cfg @ []) # []"
    using sm by (simp del: TUTU_ATTR_CONFIG_def)
  ultimately show ?thesis
    unfolding conn_config_def reply_def using assms
    by (intro exI conjI) (assumption | simp)+
qed

lemma ack_conn_acks:
  assumes "sint code \<noteq> - (2 ^ 31)"
  shows "conn_acks (ack_conn fid code) fid code"
proof -
  have "conn_answering (ack_conn fid code) fid [family_reply fid] ([] @ [error_reply code] # [])"
    unfolding ack_conn_def by (simp only: append_Nil, intro conn_answering_single)
      (auto simp: error_reply_def clean_for_single wf_datagram_single codec_simps)
  moreover have "find (own 2) [error_reply code] =
      Some (fst (error_reply code), enc_NlmsgerrRaw \<lparr>nlmsgerr_error = code, nlmsgerr_msg = fst (reply 0 2 [])\<rparr> @ [])"
    by (simp add: error_reply_def reply_def own_def)
  moreover have "nlmsg_type (fst (error_reply code)) = NLMSG_ERROR"
    by (simp add: error_reply_def reply_def)
  ultimately show ?thesis
    unfolding conn_acks_def using assms by (intro conjI exI) (assumption | simp)+
qed

definition dump_conn :: "u16 \<Rightarrow> u16 \<Rightarrow> bytes list \<Rightarrow> conn" where
  "dump_conn fid attr_type payloads =
     kernel_answers ([family_reply fid] # map (\<lambda>b. [reply fid 2 (genl_body 3 [(attr_type, b)])]) payloads @ [[done_reply]])"

lemma dump_conn_dumps:
  assumes "\<And>v. v \<in> set vs \<Longrightarrow> length (enc v) < 1000 \<and> use (enc v) = Some v"
    and "fid \<noteq> NLMSG_ERROR" and "fid \<noteq> NLMSG_DONE"
  shows "conn_dumps (dump_conn fid attr_type (map enc vs)) fid attr_type use vs"
proof -
  let ?b = "\<lambda>v. genl_body 3 [(attr_type, enc v)]"
  let ?mss = "map (\<lambda>v. [reply fid 2 (?b v)]) vs"
  have "length (?b v) < 60000" if "v \<in> set vs" for v
    using assms(1) [OF that] by (simp add: length_push_attrs nla_align_eq del: push_attrs.simps) arith
  then have "clean_for n (?mss @ [done_reply] # [])" for n
    by (induction vs) (simp_all add: done_reply_def clean_for_single wf_datagram_single del: push_attrs.simps)
  then have "conn_answering (dump_conn fid attr_type (map enc vs)) fid [family_reply fid] (?mss @ [done_reply] # [])"
    unfolding dump_conn_def map_map comp_def by (rule conn_answering_single)
  moreover have "entry_msg attr_type use (reply fid 2 (?b v)) v" if "v \<in> set vs" for v
  proof -
    have "small_attr (attr_type, enc v)"
      using assms(1) [OF that] by (simp add: small_attr_def)
    then have "body_attrs (?b v) = [(attr_type, enc v)]"
      by simp
    then show ?thesis
      using assms that by (simp add: entry_msg_def reply_def own_def)
  qed
  then have "list_all2 (list_all2 (entry_msg attr_type use)) ?mss (map (\<lambda>v. [v]) vs)"
    by (simp add: list_all2_map1 list_all2_map2 list_all2_same)
  moreover have "find (own 2) [done_reply] = Some (fst done_reply, [])" "nlmsg_type (fst done_reply) = NLMSG_DONE"
    by (simp_all add: done_reply_def reply_def own_def)
  moreover have "vs = concat (map (\<lambda>v. [v]) vs)"
    by simp
  ultimately show ?thesis
    unfolding conn_dumps_def by blast
qed

text \<open>A world with given connections, and the two modes.\<close>

definition conns_world :: "conn list \<Rightarrow> world" where
  "conns_world cs = \<lparr>w_conns = (\<lambda>n. cs ! n), w_next = 0, w_trace = []\<rparr>"

definition mode_config :: "u8 \<Rightarrow> TutuConfig" where
  "mode_config server = \<lparr>session_max_age = 60, cfg_reserved0 = 0, is_server = server, cfg_reserved1 = [0, 0]\<rparr>"

lemma mode_config_conn: "conn_config (config_conn 29 (mode_config b)) 29 (mode_config b)"
  by (rule config_conn_config) (simp_all add: mode_config_def valid_TutuConfig_def)

text \<open>A whole \<open>dump\<close>, in either mode.\<close>

lemma cmd_dump_prints:
  assumes "conn_config (w_conns w (w_next w)) f0 cfg"
  shows "is_server cfg \<noteq> 0 \<Longrightarrow>
      conn_dumps (w_conns w (w_next w + 1)) f1 TUTU_ATTR_USER_INFO (struct_payload 128 dec_TutuUserInfo) us \<Longrightarrow>
      \<exists>w' es. cmd_dump E args w = (Ok (), w') \<and> w_trace w' = w_trace w @ es \<and>
         printed es = dump_header E @ ''server max-age '' @ show_word (session_max_age cfg) @ nl @ nl @
           concat (map (\<lambda>u. join '' '' (''server-add'' # user_args E u) @ nl) us)"
    and "is_server cfg = 0 \<Longrightarrow>
      conn_dumps (w_conns w (w_next w + 1)) f1 TUTU_ATTR_EGRESS (struct_payload 120 dec_TutuEgress) vs \<Longrightarrow>
      \<exists>w' es. cmd_dump E args w = (Ok (), w') \<and> w_trace w' = w_trace w @ es \<and>
         printed es = dump_header E @ ''client'' @ nl @ concat (map (egress_line E) vs)"
proof -
  define w1 where "w1 = requested (request_packet f0 NLM_F_REQUEST TUTU_CMD_GET_CONFIG []) w"
  have g: "get_config E w = (Ok cfg, w1)"
    unfolding w1_def by (rule get_config_conn [OF assms])
  have n: "w_conns w1 (w_next w1) = w_conns w (w_next w + 1)"
    and t: "w_trace w1 = w_trace w @ [EvConnect, EvSend getfamily_packet, EvSend (request_packet f0 NLM_F_REQUEST TUTU_CMD_GET_CONFIG [])]"
    by (simp_all only: w1_def requested_simps) simp
  let ?o1 = "outln ''#!/sbin/ktuctl script -''"
  let ?o2 = "outln (''# Auto-generated by '' @ CHR 0x22 # ''ktuctl dump'' @ CHR 0x22 # '' on '' @ ct_now E @ nl)"
  have c: "cmd_dump E args w = then_do (then_do ?o1 (\<lambda>_. then_do ?o2 (\<lambda>_. o3))) (\<lambda>_. d) w1"
    if "(if is_server cfg \<noteq> 0 then
           then_do (outln (''server max-age '' @ show_word (session_max_age cfg) @ nl)) (\<lambda>_.
           dump_structs (ct_profile E) 128 dec_TutuUserInfo TUTU_CMD_GET_USER_INFO TUTU_ATTR_USER_INFO (dump_user E) ())
         else
           then_do (outln ''client'') (\<lambda>_.
           dump_structs (ct_profile E) 120 dec_TutuEgress TUTU_CMD_GET_EGRESS TUTU_ATTR_EGRESS (dump_egress E) ())) =
        then_do o3 (\<lambda>_. d)" for o3 d
    unfolding cmd_dump_def then_do_Ok [where m = "get_config E", OF g] that then_do_assoc ..
  have p: "prints (then_do ?o1 (\<lambda>_. then_do ?o2 (\<lambda>_. outln s))) (dump_header E @ s @ nl)" for s
  proof -
    have h: "dump_header E @ s @ nl = (''#!/sbin/ktuctl script -'' @ nl) @
        ((''# Auto-generated by '' @ CHR 0x22 # ''ktuctl dump'' @ CHR 0x22 # '' on '' @ ct_now E @ nl) @ nl) @ s @ nl"
      by (simp add: dump_header_def)
    show ?thesis
      unfolding h by (intro prints_then prints_outln)
  qed
  have r: "\<exists>w' es. x = (Ok (), w') \<and> w_trace w' = w_trace w @ es \<and> printed es = s"
    if "\<exists>w' es. x = (Ok (), w') \<and> w_trace w' = w_trace w1 @ es \<and> printed es = s" for x :: "unit res \<times> world" and s
  proof -
    from that obtain w' es where e: "x = (Ok (), w')" "w_trace w' = w_trace w1 @ es" "printed es = s"
      by blast
    then have "w_trace w' = w_trace w @ ([EvConnect, EvSend getfamily_packet,
        EvSend (request_packet f0 NLM_F_REQUEST TUTU_CMD_GET_CONFIG [])] @ es)"
      by (simp only: t append_assoc)
    moreover have "printed ([EvConnect, EvSend getfamily_packet,
        EvSend (request_packet f0 NLM_F_REQUEST TUTU_CMD_GET_CONFIG [])] @ es) = s"
      using e(3) by simp
    ultimately show ?thesis using e(1) by blast
  qed
  have server: "\<exists>w' es. cmd_dump E args w = (Ok (), w') \<and> w_trace w' = w_trace w @ es \<and>
         printed es = (dump_header E @ (''server max-age '' @ show_word (session_max_age cfg) @ nl) @ nl) @
           concat (map (\<lambda>u. join '' '' (''server-add'' # user_args E u) @ nl) us)"
    if "is_server cfg \<noteq> 0"
      "conn_dumps (w_conns w (w_next w + 1)) f1 TUTU_ATTR_USER_INFO (struct_payload 128 dec_TutuUserInfo) us"
    unfolding c [OF if_P [OF that(1)]]
    by (rule r, rule dump_conn_prints [where handler = "dump_user E" and
          f = "\<lambda>u. join '' '' (''server-add'' # user_args E u) @ nl", OF p that(2) [folded n] prints_dump_user])
  have client: "\<exists>w' es. cmd_dump E args w = (Ok (), w') \<and> w_trace w' = w_trace w @ es \<and>
         printed es = (dump_header E @ ''client'' @ nl) @ concat (map (egress_line E) vs)"
    if "is_server cfg = 0"
      "conn_dumps (w_conns w (w_next w + 1)) f1 TUTU_ATTR_EGRESS (struct_payload 120 dec_TutuEgress) vs"
  proof -
    have "\<not> is_server cfg \<noteq> 0" using that(1) by simp
    from c [OF if_not_P [OF this]] show ?thesis
      by (simp only:) (rule r, rule dump_conn_prints [where handler = "dump_egress E" and f = "egress_line E",
        OF p that(2) [folded n] prints_dump_egress])
  qed
  show "\<exists>w' es. cmd_dump E args w = (Ok (), w') \<and> w_trace w' = w_trace w @ es \<and>
         printed es = dump_header E @ ''server max-age '' @ show_word (session_max_age cfg) @ nl @ nl @
           concat (map (\<lambda>u. join '' '' (''server-add'' # user_args E u) @ nl) us)"
    if "is_server cfg \<noteq> 0"
      "conn_dumps (w_conns w (w_next w + 1)) f1 TUTU_ATTR_USER_INFO (struct_payload 128 dec_TutuUserInfo) us"
    using server [OF that] by (simp only: append_assoc)
  show "\<exists>w' es. cmd_dump E args w = (Ok (), w') \<and> w_trace w' = w_trace w @ es \<and>
         printed es = dump_header E @ ''client'' @ nl @ concat (map (egress_line E) vs)"
    if "is_server cfg = 0"
      "conn_dumps (w_conns w (w_next w + 1)) f1 TUTU_ATTR_EGRESS (struct_payload 120 dec_TutuEgress) vs"
    using client [OF that] by (simp only: append_assoc)
qed

section \<open>Properties\<close>

text \<open>
  C9. \<open>client-add\<close> on a kernel in client mode sends the mode query, then the ingress entry that
  must not exist yet, and, only if the kernel accepts it, the egress entry, and succeeds exactly if
  both are accepted. All four numbers in the entries are those of the arguments, in network order.
\<close>

theorem client_add_updates_ingress_then_egress:
  assumes "client_add_loop E client_add_init args = Ok v"
    and "ca_address v \<noteq> []" and "ca_port v \<noteq> 0" and "ca_uid_set v"
    and "resolve_ip E (ca_address v) = Ok in6" and "xor_key_of (ca_xor_hex v) = Ok (key, len)"
    and "conn_config (w_conns w (w_next w)) f0 cfg" and "is_server cfg = 0"
    and "conn_acks (w_conns w (w_next w + 1)) f1 c1" and "conn_acks (w_conns w (w_next w + 2)) f2 c2"
  shows "let (r, w') = cmd_client_add E args w in
    sent (w_trace w') = sent (w_trace w) @
      [getfamily_packet, request_packet f0 NLM_F_REQUEST TUTU_CMD_GET_CONFIG [],
       getfamily_packet, request_packet f1 (NLM_F_REQUEST OR NLM_F_ACK) TUTU_CMD_UPDATE_INGRESS
         [(TUTU_ATTR_INGRESS, enc_TutuIngress (client_add_ingress v in6 key len))]] @
      (if c1 = 0 then
         [getfamily_packet, request_packet f2 (NLM_F_REQUEST OR NLM_F_ACK) TUTU_CMD_UPDATE_EGRESS
           [(TUTU_ATTR_EGRESS, enc_TutuEgress (client_add_egress v in6 key len))]]
       else []) \<and>
    (if c1 = 0 \<and> c2 = 0 then r = Ok () else \<exists>e. r = Err e)"
proof -
  define w1 where "w1 = requested (request_packet f0 NLM_F_REQUEST TUTU_CMD_GET_CONFIG []) w"
  define w2 where "w2 = requested (request_packet f1 (NLM_F_REQUEST OR NLM_F_ACK) TUTU_CMD_UPDATE_INGRESS
         [(TUTU_ATTR_INGRESS, enc_TutuIngress (client_add_ingress v in6 key len))]) w1"
  define w3 where "w3 = requested (request_packet f2 (NLM_F_REQUEST OR NLM_F_ACK) TUTU_CMD_UPDATE_EGRESS
           [(TUTU_ATTR_EGRESS, enc_TutuEgress (client_add_egress v in6 key len))]) w2"
  have g: "get_config E w = (Ok cfg, w1)"
    unfolding w1_def by (rule get_config_conn [OF assms(7)])
  have "conn_acks (w_conns w1 (w_next w1)) f1 c1" "conn_acks (w_conns w2 (w_next w2)) f2 c2"
    using assms(9,10) by (simp_all add: w1_def w2_def)
  note send_struct_conn [OF this(1), of "ct_profile E" enc_TutuIngress TUTU_CMD_UPDATE_INGRESS TUTU_ATTR_INGRESS
      "client_add_ingress v in6 key len", folded w2_def]
    send_struct_conn [OF this(2), of "ct_profile E" enc_TutuEgress TUTU_CMD_UPDATE_EGRESS TUTU_ATTR_EGRESS
      "client_add_egress v in6 key len", folded w3_def]
  note s = this
  have t: "sent (w_trace w1) = sent (w_trace w) @ [getfamily_packet, request_packet f0 NLM_F_REQUEST TUTU_CMD_GET_CONFIG []]"
    "sent (w_trace w2) = sent (w_trace w1) @ [getfamily_packet, request_packet f1 (NLM_F_REQUEST OR NLM_F_ACK) TUTU_CMD_UPDATE_INGRESS
         [(TUTU_ATTR_INGRESS, enc_TutuIngress (client_add_ingress v in6 key len))]]"
    "sent (w_trace w3) = sent (w_trace w2) @ [getfamily_packet, request_packet f2 (NLM_F_REQUEST OR NLM_F_ACK) TUTU_CMD_UPDATE_EGRESS
           [(TUTU_ATTR_EGRESS, enc_TutuEgress (client_add_egress v in6 key len))]]"
    by (simp_all only: w1_def w2_def w3_def sent_requested)
  have ready: "\<not> (ca_address v = [] \<or> ca_port v = 0 \<or> \<not> ca_uid_set v)" "\<not> is_server cfg \<noteq> 0"
    using assms(2-4,8) by simp_all
  show ?thesis
    unfolding cmd_client_add_def assms(1) then_do_comp if_not_P [OF ready(1)] then_do_Ok [where m = "get_config E", OF g] if_not_P [OF ready(2)]
      assms(5,6) prod.case
    by (cases "c1 = 0"; cases "c2 = 0") (simp_all only: then_do_def try_do_def s t if_True if_False prod.case res.case
        fail_apply ret_apply effect_simps emit_simps sent_append sent.simps append_Nil2 append_assoc append.simps
        Let_def simp_thms res.inject ex_simps)
qed

theorem client_add_updates_ingress_then_egress_witness:
  "length (sent (w_trace (snd (cmd_client_add sample_ctl [''uid'', ''bob'', ''addr'', ''10.0.0.1'', ''port'', show_word (443 :: u16)]
     (conns_world [config_conn 29 (mode_config 0), ack_conn 29 0, ack_conn 29 0]))))) = 6"
proof -
  let ?args = "[''uid'', ''bob'', ''addr'', ''10.0.0.1'', ''port'', show_word (443 :: u16)]"
  let ?w = "conns_world [config_conn 29 (mode_config 0), ack_conn 29 0, ack_conn 29 0]"
  let ?v = "\<lparr>ca_address = ''10.0.0.1'', ca_port = 443, ca_uid = 7, ca_comment = [], ca_uid_set = True, ca_xor_hex = []\<rparr>"
  have "resolve_uid sample_ctl ''bob'' = Ok 7"
    by code_simp
  then have l: "client_add_loop sample_ctl client_add_init ?args = Ok ?v"
    by (simp add: client_add_init_def)
  have r: "resolve_ip sample_ctl (ca_address ?v) = Ok (In6Addr (replicate 10 0 @ [0xFF, 0xFF, 10, 0, 0, 1]))"
    by code_simp
  have x: "xor_key_of (ca_xor_hex ?v) = Ok (replicate 64 0, 0)"
    by (simp add: xor_key_of_def)
  have c: "conn_config (w_conns ?w (w_next ?w)) 29 (mode_config 0)"
    "conn_acks (w_conns ?w (w_next ?w + 1)) 29 0" "conn_acks (w_conns ?w (w_next ?w + 2)) 29 0"
    using mode_config_conn [of 0] ack_conn_acks [of 0 29] by (simp_all add: conns_world_def)
  from client_add_updates_ingress_then_egress [OF l _ _ _ r x c(1) _ c(2,3)] show ?thesis
    by (simp add: Let_def case_prod_beta mode_config_def conns_world_def)
qed

text \<open>
  C23. The wrong mode: when the kernel says it is a server, \<open>client-add\<close> fails, and when it says it is
  no server, \<open>server-add\<close> fails, with any arguments, and nothing is sent beyond the mode query.
\<close>

theorem wrong_mode_changes_nothing:
  assumes "get_config E w = (Ok cfg, w1)"
  shows "(is_server cfg \<noteq> 0 \<longrightarrow> (\<exists>e. cmd_client_add E args w \<in> {(Err e, w), (Err e, w1)})) \<and>
    (is_server cfg = 0 \<longrightarrow> (\<exists>e. cmd_server_add E args w \<in> {(Err e, w), (Err e, w1)}))"
proof -
  have "\<exists>e. cmd_client_add E args w \<in> {(Err e, w), (Err e, w1)}" if "is_server cfg \<noteq> 0"
    using quiet_cases [OF quiet_client_add_loop [of E client_add_init args]] that
    by (auto simp: cmd_client_add_def then_do_lift_Ok then_do_Ok [where m = "get_config E", OF assms])
      (auto simp: then_do_def)
  moreover have "\<exists>e. cmd_server_add E args w \<in> {(Err e, w), (Err e, w1)}" if "is_server cfg = 0"
    using quiet_cases [OF quiet_server_add_loop [of E server_add_init args]] that
    by (auto simp: cmd_server_add_def then_do_lift_Ok then_do_Ok [where m = "get_config E", OF assms])
      (auto simp: then_do_def)
  ultimately show ?thesis by blast
qed

theorem wrong_mode_changes_nothing_witness:
  "let args = [''uid'', ''7'', ''addr'', ''10.0.0.1'', ''icmp-id'', ''5'', ''port'', ''443''];
       w = conns_world [config_conn 29 (mode_config 0)];
       w1 = requested (request_packet 29 NLM_F_REQUEST TUTU_CMD_GET_CONFIG []) w
   in \<exists>e. cmd_server_add sample_ctl args w \<in> {(Err e, w), (Err e, w1)}"
proof -
  let ?w = "conns_world [config_conn 29 (mode_config 0)]"
  have "conn_config (w_conns ?w (w_next ?w)) 29 (mode_config 0)"
    using mode_config_conn [of 0] by (simp add: conns_world_def)
  from wrong_mode_changes_nothing [OF get_config_conn [OF this],
      of sample_ctl "[''uid'', ''7'', ''addr'', ''10.0.0.1'', ''icmp-id'', ''5'', ''port'', ''443'']"]
  show ?thesis
    unfolding Let_def by (simp only: mode_config_def TutuConfig.select_convs simp_thms)
qed

text \<open>
  C24. The three forms of a command. As a subcommand and as a word on the command line it does the
  same, except for \<open>reaper\<close>, which runs a script in the first form and logs that it is obsolete in the
  second. In a script the twelve commands of \<open>script_commands\<close> do what they do on the command line;
  every other word is reported there as unknown with its line and position, \<open>script\<close> and \<open>tui\<close>
  included, which the command line does know.
\<close>

theorem command_forms_agree:
  "((\<nexists>as. c = Reaper as) \<longrightarrow> run_command_enum E c = run_command_string E (command_name c) (command_args c)) \<and>
   run_command_enum E (Reaper as) = cmd_script E as \<and>
   run_command_string E ''reaper'' as = log_info ''Obsolete'' \<and>
   run_sub_command E n i cmd as =
     (if cmd \<in> set script_commands then run_command_string E cmd as
      else log_error (''Line '' @ show_nat (n + 1) @ '' (cmd '' @ show_nat (i + 1) @ ''): Unknown command '' @ quoted cmd)) \<and>
   run_command_string E ''script'' as = cmd_script E as \<and>
   run_command_string E ''tui'' as = outln ''TUI not implemented in Rust port''"
  by (cases c) (auto simp: run_command_string_def run_sub_command_known run_sub_command_unknown)

theorem command_forms_agree_witness:
  "run_command_enum sample_ctl (Version []) = run_command_string sample_ctl ''version'' [] \<and>
   run_sub_command sample_ctl 0 0 ''version'' [] = run_command_string sample_ctl ''version'' [] \<and>
   run_sub_command sample_ctl 0 1 ''script'' [''-''] =
     log_error (''Line '' @ show_nat 1 @ '' (cmd '' @ show_nat 2 @ ''): Unknown command '' @ quoted ''script'')"
  using command_forms_agree [where c = "Version []" and E = sample_ctl and cmd = "''version''" and n = 0 and i = 0 and as = "[]"]
    command_forms_agree [where c = "Version []" and E = sample_ctl and cmd = "''script''" and n = 0 and i = 1 and as = "[''-'']"]
  by (simp add: script_commands_def numeral_2_eq_2)

text \<open>
  C21. \<open>dump\<close> prints a script of the kernel's state: the header and the mode, on a server with its
  session age and then one \<open>server-add\<close> line for every entry the kernel lists, on a client then one
  \<open>client-add\<close> line for every listed egress entry whose port is not 0, in the kernel's order.
\<close>

theorem dump_prints_every_peer:
  assumes "conn_config (w_conns w (w_next w)) f0 cfg"
  shows "(is_server cfg \<noteq> 0 \<and>
      conn_dumps (w_conns w (w_next w + 1)) f1 TUTU_ATTR_USER_INFO (struct_payload 128 dec_TutuUserInfo) us \<longrightarrow>
      (\<exists>w' es. cmd_dump E args w = (Ok (), w') \<and> w_trace w' = w_trace w @ es \<and>
         printed es = dump_header E @ ''server max-age '' @ show_word (session_max_age cfg) @ nl @ nl @
           concat (map (\<lambda>u. join '' '' (''server-add'' # user_args E u) @ nl) us))) \<and>
    (is_server cfg = 0 \<and>
      conn_dumps (w_conns w (w_next w + 1)) f1 TUTU_ATTR_EGRESS (struct_payload 120 dec_TutuEgress) vs \<longrightarrow>
      (\<exists>w' es. cmd_dump E args w = (Ok (), w') \<and> w_trace w' = w_trace w @ es \<and>
         printed es = dump_header E @ ''client'' @ nl @ concat (map (egress_line E) vs)))"
  using cmd_dump_prints [OF assms] by blast

theorem dump_prints_every_peer_witness:
  "let u = dec_TutuUserInfo (replicate 128 1);
       w = conns_world [config_conn 29 (mode_config 1), dump_conn 29 TUTU_ATTR_USER_INFO [enc_TutuUserInfo u]]
   in \<exists>w' es. cmd_dump sample_ctl [] w = (Ok (), w') \<and> w_trace w' = w_trace w @ es \<and>
        printed es = dump_header sample_ctl @ ''server max-age '' @ show_word (60 :: u32) @ nl @ nl @
          join '' '' (''server-add'' # user_args sample_ctl u) @ nl"
proof -
  let ?u = "dec_TutuUserInfo (replicate 128 1)"
  let ?w = "conns_world [config_conn 29 (mode_config 1), dump_conn 29 TUTU_ATTR_USER_INFO (map enc_TutuUserInfo [?u])]"
  have c: "conn_config (w_conns ?w (w_next ?w)) 29 (mode_config 1)"
    using mode_config_conn [of 1] by (simp add: conns_world_def)
  have v: "valid_TutuUserInfo ?u"
    by (rule wTutuUserInfo.valid_dec) simp
  then have "length (enc_TutuUserInfo ?u) < 1000 \<and> struct_payload 128 dec_TutuUserInfo (enc_TutuUserInfo ?u) = Some ?u"
    by (simp add: struct_payload_def codec_simps)
  then have "conn_dumps (dump_conn 29 TUTU_ATTR_USER_INFO (map enc_TutuUserInfo [?u])) 29 TUTU_ATTR_USER_INFO
      (struct_payload 128 dec_TutuUserInfo) [?u]"
    by (intro dump_conn_dumps) simp_all
  then have d: "conn_dumps (w_conns ?w (w_next ?w + 1)) 29 TUTU_ATTR_USER_INFO (struct_payload 128 dec_TutuUserInfo) [?u]"
    by (simp add: conns_world_def del: TUTU_ATTR_USER_INFO_def)
  have s: "is_server (mode_config 1) \<noteq> 0" "session_max_age (mode_config 1) = 60"
    by (simp_all add: mode_config_def)
  from dump_prints_every_peer [OF c, THEN conjunct1, THEN mp, OF conjI, OF s(1) d, of sample_ctl "[]"]
  show ?thesis
    by (simp only: Let_def s(2) list.map concat.simps append_Nil2)
qed

text \<open>
  C10. \<open>client-del\<close> asks the kernel for its egress entries, deletes the last one it lists for the
  user and the address (and only that one), then deletes the ingress entry. It stops with the error
  when the egress entry cannot be deleted; a missing ingress entry is no error; when there was
  neither, it says so.
\<close>

theorem client_del_deletes_what_is_listed:
  assumes "client_del_loop E client_del_init args = Ok v" and "cd_address v \<noteq> []" and "cd_uid_set v"
    and "resolve_ip E (cd_address v) = Ok in6"
    and "conn_dumps (w_conns w (w_next w)) f0 TUTU_ATTR_EGRESS (struct_payload 120 dec_TutuEgress) es"
    and "conn_acks (w_conns w (w_next w + 1)) f1 c1" and "conn_acks (w_conns w (w_next w + 2)) f2 c2"
  shows "let (r, w') = cmd_client_del E args w;
      listing = [getfamily_packet, request_packet f0 (NLM_F_REQUEST OR NLM_F_DUMP) TUTU_CMD_GET_EGRESS []];
      del_egress = (\<lambda>f e. [getfamily_packet, request_packet f (NLM_F_REQUEST OR NLM_F_ACK) TUTU_CMD_DELETE_EGRESS
        [(TUTU_ATTR_EGRESS, enc_TutuEgress e)]]);
      del_ingress = (\<lambda>f. [getfamily_packet, request_packet f (NLM_F_REQUEST OR NLM_F_ACK) TUTU_CMD_DELETE_INGRESS
        [(TUTU_ATTR_INGRESS, enc_TutuIngress (client_del_ingress (cd_uid v) in6))]]);
      deleted = EvInfo (''client deleted: '' @ resolve_hostname E (cd_uid v) False)
    in case find (\<lambda>e. ev_uid (e_value e) = cd_uid v \<and> ek_address (e_key e) = in6) (rev es) of
        None \<Rightarrow> r = Ok () \<and> sent (w_trace w') = sent (w_trace w) @ listing @ del_ingress f1 \<and>
          last (w_trace w') = (if c1 = 0 then deleted else EvError ''client peer not found'')
      | Some e \<Rightarrow>
          if c1 \<noteq> 0 then (\<exists>x. r = Err x) \<and> sent (w_trace w') = sent (w_trace w) @ listing @ del_egress f1 e
          else r = Ok () \<and> sent (w_trace w') = sent (w_trace w) @ listing @ del_egress f1 e @ del_ingress f2 \<and>
            last (w_trace w') = deleted"
proof -
  let ?P = "\<lambda>e. ev_uid (e_value e) = cd_uid v \<and> ek_address (e_key e) = in6"
  define w1 where "w1 = requested (request_packet f0 (NLM_F_REQUEST OR NLM_F_DUMP) TUTU_CMD_GET_EGRESS []) w"
  have d: "dump_structs (ct_profile E) 120 dec_TutuEgress TUTU_CMD_GET_EGRESS TUTU_ATTR_EGRESS
      (match_egress (cd_uid v) in6) None w = (Ok (find ?P (rev es)), w1)"
    unfolding dump_structs_conn [OF assms(5)] match_egress_def run_handler_ret fold_keep_last w1_def
    by (simp split: option.split)
  have a1: "conn_acks (w_conns w1 (w_next w1)) f1 c1"
    using assms(6) by (simp add: w1_def)
  have a2: "conn_acks (w_conns (requested x w1) (w_next (requested x w1))) f2 c2" for x
    using assms(7) by (simp add: w1_def)
  have t: "sent (w_trace w1) = sent (w_trace w) @ [getfamily_packet, request_packet f0 (NLM_F_REQUEST OR NLM_F_DUMP) TUTU_CMD_GET_EGRESS []]"
    by (simp only: w1_def sent_requested)
  have ready: "\<not> (cd_address v = [] \<or> \<not> cd_uid_set v)"
    using assms(2,3) by simp
  have c: "cmd_client_del E args w = then_do (case find ?P (rev es) of
         Some e \<Rightarrow>
           then_do (send_struct (ct_profile E) enc_TutuEgress TUTU_CMD_DELETE_EGRESS TUTU_ATTR_EGRESS e True)
             (\<lambda>_. ret True)
       | None \<Rightarrow> ret False) (\<lambda>deleted.
     then_do (try_do
         (send_struct (ct_profile E) enc_TutuIngress TUTU_CMD_DELETE_INGRESS TUTU_ATTR_INGRESS
            (client_del_ingress (cd_uid v) in6) True)
         (\<lambda>_. ret True) (\<lambda>_. ret deleted)) (\<lambda>deleted.
     if deleted then log_info (''client deleted: '' @ resolve_hostname E (cd_uid v) False)
     else log_error ''client peer not found'')) w1"
    unfolding cmd_client_del_def assms(1,4) then_do_lift_Ok if_not_P [OF ready]
    by (rule then_do_Ok [where m = "dump_structs (ct_profile E) 120 dec_TutuEgress TUTU_CMD_GET_EGRESS TUTU_ATTR_EGRESS
      (match_egress (cd_uid v) in6) None", OF d])
  note s = send_struct_conn [OF a1] send_struct_conn [OF a2]
  show ?thesis
  proof (cases "find ?P (rev es)")
    case None
    show ?thesis
      unfolding Let_def c None option.case
      by (cases "c1 = 0") (simp_all add: then_do_def try_do_def s t sent_requested del: requested_simps)
  next
    case (Some e)
    show ?thesis
      unfolding Let_def c Some option.case
      by (cases "c1 = 0"; cases "c2 = 0") (simp_all add: then_do_def try_do_def s t sent_requested del: requested_simps)
  qed
qed

theorem client_del_deletes_what_is_listed_witness:
  "let e = \<lambda>p. (dec_TutuEgress (replicate 120 0))
         \<lparr>e_key := \<lparr>ek_address = In6Addr (replicate 10 0 @ [0xFF, 0xFF, 10, 0, 0, 1]), ek_port = p, ek_pad0 = [0, 0]\<rparr>,
          e_value := (e_value (dec_TutuEgress (replicate 120 0)))\<lparr>ev_uid := 7\<rparr>\<rparr>;
       w = conns_world [dump_conn 29 TUTU_ATTR_EGRESS [enc_TutuEgress (e 1), enc_TutuEgress (e 2)], ack_conn 29 0, ack_conn 29 2]
   in fst (cmd_client_del sample_ctl [''uid'', ''bob'', ''addr'', ''10.0.0.1''] w) = Ok () \<and>
      length (sent (w_trace (snd (cmd_client_del sample_ctl [''uid'', ''bob'', ''addr'', ''10.0.0.1''] w)))) = 6"
proof -
  let ?e = "\<lambda>p. (dec_TutuEgress (replicate 120 0))
         \<lparr>e_key := \<lparr>ek_address = In6Addr (replicate 10 0 @ [0xFF, 0xFF, 10, 0, 0, 1]), ek_port = p, ek_pad0 = [0, 0]\<rparr>,
          e_value := (e_value (dec_TutuEgress (replicate 120 0)))\<lparr>ev_uid := 7\<rparr>\<rparr>"
  let ?w = "conns_world [dump_conn 29 TUTU_ATTR_EGRESS (map enc_TutuEgress [?e 1, ?e 2]), ack_conn 29 0, ack_conn 29 2]"
  let ?args = "[''uid'', ''bob'', ''addr'', ''10.0.0.1'']"
  let ?v = "\<lparr>cd_address = ''10.0.0.1'', cd_uid = 7, cd_uid_set = True\<rparr>"
  have "resolve_uid sample_ctl ''bob'' = Ok 7"
    by code_simp
  then have l: "client_del_loop sample_ctl client_del_init ?args = Ok ?v"
    by (simp add: client_del_init_def)
  have r: "resolve_ip sample_ctl (cd_address ?v) = Ok (In6Addr (replicate 10 0 @ [0xFF, 0xFF, 10, 0, 0, 1]))"
    by code_simp
  have "valid_TutuEgress (?e p)" for p
    using wTutuEgress.valid_dec [of "replicate 120 0"]
    by (simp add: valid_TutuEgress_def codec_simps valid_EgressPeerKey_def valid_EgressPeerValue_def valid_In6Addr_def)
  then have "length (enc_TutuEgress (?e p)) < 1000 \<and> struct_payload 120 dec_TutuEgress (enc_TutuEgress (?e p)) = Some (?e p)" for p
    by (simp add: struct_payload_def wTutuEgress.length_enc wTutuEgress.dec_enc_exact)
  then have "conn_dumps (dump_conn 29 TUTU_ATTR_EGRESS (map enc_TutuEgress [?e 1, ?e 2])) 29 TUTU_ATTR_EGRESS
      (struct_payload 120 dec_TutuEgress) [?e 1, ?e 2]"
    by (intro dump_conn_dumps) auto
  then have d: "conn_dumps (w_conns ?w (w_next ?w)) 29 TUTU_ATTR_EGRESS (struct_payload 120 dec_TutuEgress) [?e 1, ?e 2]"
    by (simp add: conns_world_def del: TUTU_ATTR_EGRESS_def)
  have c: "conn_acks (w_conns ?w (w_next ?w + 1)) 29 0" "conn_acks (w_conns ?w (w_next ?w + 2)) 29 2"
    using ack_conn_acks [of 0 29] ack_conn_acks [of 2 29] by (simp_all add: conns_world_def)
  from client_del_deletes_what_is_listed [OF l _ _ r d c] show ?thesis
    by (simp add: Let_def case_prod_beta conns_world_def del: TUTU_ATTR_EGRESS_def)
qed

end
