(* ===== verification/Script_Text.thy ===== *)
theory Script_Text
  imports Ctl_Runs
begin

text \<open>
  The text of a script and what \<open>ktuctl script\<close> makes of it: a text written as rows of commands,
  blank rows and comments is run as these commands, one after the other, as the command line would
  run them, and the first that fails is reported with its row and position.
\<close>

section \<open>Lines of plain words\<close>





section \<open>Scripts as rows of commands\<close>











section \<open>Reading a row\<close>









section \<open>Properties\<close>



end
