(* ===== verification/Dump_Script.thy ===== *)
theory Dump_Script
  imports Script_Text
begin

text \<open>
  The whole file: what \<open>ktuctl dump\<close> prints, given to \<open>ktuctl script -\<close>, sets the mode and restores
  every peer, in order. A listing prints one line per peer and a script line restores a peer; what the
  two need from each other is the locale \<open>peer_lines\<close>, interpreted for the peers of a server and for
  those of a client.
\<close>

section \<open>The contract of a listing\<close>



text \<open>The header of a dump, a line for the mode, and the lines of the peers.\<close>

definition header_lines :: "ctl \<Rightarrow> string list" where
  "header_lines E =
     [''#!/sbin/ktuctl script -'', ''# Auto-generated by '' @ CHR 0x22 # ''ktuctl dump'' @ CHR 0x22 # '' on '' @ ct_now E, []]"





section \<open>The peers of a server\<close>





text \<open>A peer.\<close>

definition restorable_user :: "ctl \<Rightarrow> TutuUserInfo \<Rightarrow> bool" where
  "restorable_user E u \<longleftrightarrow>
     (\<exists>v a bs. length bs \<le> 64 \<and> sv_port v \<noteq> 0 \<and> name_reads_back E (sv_add_uid v) \<and> restorable_address E a \<and>
        comment_reads_back (sv_comment v) \<and>
        u = server_add_user_info v (In6Addr a) (bs @ replicate (64 - length bs) 0) (of_nat (length bs)))"

definition user_line :: "ctl \<Rightarrow> TutuUserInfo \<Rightarrow> string" where
  "user_line E u = join '' '' (''server-add'' # user_args E u)"







section \<open>The peers of a client\<close>





definition restorable_egress :: "ctl \<Rightarrow> TutuEgress \<Rightarrow> bool" where
  "restorable_egress E e \<longleftrightarrow>
     (\<exists>v a bs. length bs \<le> 64 \<and> ca_port v \<noteq> 0 \<and> name_reads_back E (ca_uid v) \<and> restorable_address E a \<and>
        comment_reads_back (ca_comment v) \<and>
        e = client_add_egress v (In6Addr a) (bs @ replicate (64 - length bs) 0) (of_nat (length bs)))"

definition client_line :: "ctl \<Rightarrow> TutuEgress \<Rightarrow> string" where
  "client_line E e = join '' '' (''client-add'' # egress_args E e)"






section \<open>The text of a dump\<close>

text \<open>Nothing of this depends on the standard input.\<close>

lemma stdin_irrelevant [simp]:
  "ct_lookup (E\<lparr>ct_stdin := s\<rparr>) = ct_lookup E" "ct_shlex (E\<lparr>ct_stdin := s\<rparr>) = ct_shlex E" "ct_now (E\<lparr>ct_stdin := s\<rparr>) = ct_now E"
  "header_lines (E\<lparr>ct_stdin := s\<rparr>) = header_lines E"
  "restorable_user (E\<lparr>ct_stdin := s\<rparr>) = restorable_user E"
  "restorable_egress (E\<lparr>ct_stdin := s\<rparr>) = restorable_egress E"
  "user_line (E\<lparr>ct_stdin := s\<rparr>) = user_line E" "client_line (E\<lparr>ct_stdin := s\<rparr>) = client_line E"
proof -
  have f: "ct_flags (E\<lparr>ct_stdin := s\<rparr>) = ct_flags E" "ct_uids (E\<lparr>ct_stdin := s\<rparr>) = ct_uids E"
    "ct_iter (E\<lparr>ct_stdin := s\<rparr>) = ct_iter E" "ct_lookup (E\<lparr>ct_stdin := s\<rparr>) = ct_lookup E"
    by simp_all
  have n: "name_reads_back (E\<lparr>ct_stdin := s\<rparr>) uid = name_reads_back E uid" for uid
    unfolding name_reads_back_def f by (rule refl)
  have a: "restorable_address (E\<lparr>ct_stdin := s\<rparr>) a = restorable_address E a" for a
    unfolding restorable_address_def f by (rule refl)
  show "restorable_user (E\<lparr>ct_stdin := s\<rparr>) = restorable_user E"
    "restorable_egress (E\<lparr>ct_stdin := s\<rparr>) = restorable_egress E"
    by (simp_all add: fun_eq_iff restorable_user_def restorable_egress_def n a)
  show "user_line (E\<lparr>ct_stdin := s\<rparr>) = user_line E" "client_line (E\<lparr>ct_stdin := s\<rparr>) = client_line E"
    by (simp_all add: fun_eq_iff user_line_def user_args_def client_line_def egress_args_def name_words_def)
  show "header_lines (E\<lparr>ct_stdin := s\<rparr>) = header_lines E"
    by (simp add: header_lines_def)
qed simp_all



section \<open>Properties\<close>





end
