(* ===== verification/Replay_Cache.thy ===== *)
theory Replay_Cache
  imports Bytes
begin

text \<open>
  The contract of a replay cache, the interface between \<open>struct ReplayWindow\<close> (there is one
  in \<open>tuctl-server\<close> and one in \<open>tuctl-client\<close>) and the packet handling that uses it: a
  check of a timestamp and a nonce against the clock, and the recording of a pair. The
  locale \<open>replay_cache\<close> holds the laws, \<open>run_ops\<close> a sequence of uses, and the theorem
  proved once here is that no pair is accepted after it was accepted or recorded before.
\<close>

section \<open>Uses of a cache\<close>

text \<open>
  \<open>Offer now ts nonce\<close>: a packet arrives; if the check passes it is recorded.
  \<open>Record ts nonce\<close>: a packet of our own is recorded.
\<close>

datatype cache_op = Offer i64 i64 bytes | Record i64 bytes

text \<open>The log of what was recorded, marked \<open>True\<close> when it is an accepted packet.\<close>

type_synonym cache_log = "(bool \<times> i64 \<times> bytes) list"

fun run_ops ::
  "(i64 \<Rightarrow> i64 \<Rightarrow> bytes \<Rightarrow> 's \<Rightarrow> (bool \<times> 's) res) \<Rightarrow> (i64 \<Rightarrow> bytes \<Rightarrow> 's \<Rightarrow> 's) \<Rightarrow>
     cache_op list \<Rightarrow> 's \<Rightarrow> cache_log res" where
  "run_ops check add [] s = Ok []"
| "run_ops check add (Offer now ts nonce # ops) s =
     res_bind (check now ts nonce s) (\<lambda>(b, s').
       if b then res_bind (run_ops check add ops (add ts nonce s')) (\<lambda>l. Ok ((True, ts, nonce) # l))
       else run_ops check add ops s')"
| "run_ops check add (Record ts nonce # ops) s =
     res_bind (run_ops check add ops (add ts nonce s)) (\<lambda>l. Ok ((False, ts, nonce) # l))"

text \<open>No recording finds the cache full: the condition under which nothing is evicted.\<close>

fun fits ::
  "(i64 \<Rightarrow> i64 \<Rightarrow> bytes \<Rightarrow> 's \<Rightarrow> (bool \<times> 's) res) \<Rightarrow> (i64 \<Rightarrow> bytes \<Rightarrow> 's \<Rightarrow> 's) \<Rightarrow> ('s \<Rightarrow> bool) \<Rightarrow>
     cache_op list \<Rightarrow> 's \<Rightarrow> bool" where
  "fits check add room [] s = True"
| "fits check add room (Offer now ts nonce # ops) s =
     (case check now ts nonce s of
        Ok (b, s') \<Rightarrow> if b then room s' \<and> fits check add room ops (add ts nonce s')
                     else fits check add room ops s'
      | _ \<Rightarrow> True)"
| "fits check add room (Record ts nonce # ops) s = (room s \<and> fits check add room ops (add ts nonce s))"

text \<open>
  The times of a sequence are usable: the clock readings do not decrease from \<open>m\<close> on, they
  and the recorded timestamps are dates (below \<open>2 ^ 62\<close> seconds, so sums with a 32-bit window
  do not overflow), and no offered timestamp is \<open>2 ^ 63\<close> or more seconds away from the clock.
\<close>

definition is_date :: "i64 \<Rightarrow> bool" where
  "is_date t \<longleftrightarrow> 0 \<le> sint t \<and> sint t < 2 ^ 62"

fun timely :: "int \<Rightarrow> cache_op list \<Rightarrow> bool" where
  "timely m [] = True"
| "timely m (Offer now ts nonce # ops) =
     (m \<le> sint now \<and> is_date now \<and> \<bar>sint now - sint ts\<bar> < 2 ^ 63 \<and> timely (sint now) ops)"
| "timely m (Record ts nonce # ops) = (is_date ts \<and> timely m ops)"

text \<open>No accepted packet repeats a pair that is already in the log before it.\<close>

fun no_replay :: "(i64 \<times> bytes) set \<Rightarrow> cache_log \<Rightarrow> bool" where
  "no_replay seen [] = True"
| "no_replay seen ((accepted, pair) # l) =
     ((accepted \<longrightarrow> pair \<notin> seen) \<and> no_replay (insert pair seen) l)"

lemma no_replay_distinct:
  "no_replay seen l \<Longrightarrow> distinct (map snd (filter fst l)) \<and>
     set (map snd (filter fst l)) \<inter> seen = {}"
  by (induction seen l rule: no_replay.induct) auto

lemma no_replay_append: "no_replay seen (l @ l') \<Longrightarrow> no_replay (seen \<union> snd ` set l) l'"
  by (induction seen l rule: no_replay.induct) auto

lemma no_replay_fresh: "no_replay seen l \<Longrightarrow> (True, pair) \<in> set l \<Longrightarrow> pair \<notin> seen"
  by (induction seen l rule: no_replay.induct) auto

text \<open>A sequence of uses with the state it ends in.\<close>

fun exec_ops ::
  "(i64 \<Rightarrow> i64 \<Rightarrow> bytes \<Rightarrow> 's \<Rightarrow> (bool \<times> 's) res) \<Rightarrow> (i64 \<Rightarrow> bytes \<Rightarrow> 's \<Rightarrow> 's) \<Rightarrow>
     cache_op list \<Rightarrow> 's \<Rightarrow> (cache_log \<times> 's) res" where
  "exec_ops check add [] s = Ok ([], s)"
| "exec_ops check add (Offer now ts nonce # ops) s =
     res_bind (check now ts nonce s) (\<lambda>(b, s').
       if b then res_bind (exec_ops check add ops (add ts nonce s')) (\<lambda>(l, s). Ok ((True, ts, nonce) # l, s))
       else exec_ops check add ops s')"
| "exec_ops check add (Record ts nonce # ops) s =
     res_bind (exec_ops check add ops (add ts nonce s)) (\<lambda>(l, s). Ok ((False, ts, nonce) # l, s))"

lemma run_ops_exec_ops: "run_ops check add ops s = res_bind (exec_ops check add ops s) (\<lambda>(l, s). Ok l)"
proof (induction check add ops s rule: exec_ops.induct)
  case (2 check add now ts nonce ops s)
  show ?case
  proof (cases "check now ts nonce s")
    case (Ok r)
    obtain b s' where r: "r = (b, s')" by (cases r)
    with 2 Ok show ?thesis
      by (cases "exec_ops check add ops (add ts nonce s')") (auto split: prod.split)
  qed simp_all
next
  case (3 check add ts nonce ops s)
  then show ?case
    by (cases "exec_ops check add ops (add ts nonce s)") auto
qed simp

lemma cons_log:
  "res_bind (case x of (l', s) \<Rightarrow> Ok (l @ l', s)) (\<lambda>(l, s). Ok (e # l, s)) =
     (case x of (l', s) \<Rightarrow> Ok (e # l @ l', s))"
  by (cases x) simp

lemma exec_ops_append:
  "exec_ops check add (ops @ ops') s =
     res_bind (exec_ops check add ops s) (\<lambda>(l, s).
       res_bind (exec_ops check add ops' s) (\<lambda>(l', s). Ok (l @ l', s)))"
proof (induction check add ops s rule: exec_ops.induct)
  case (1 check add s)
  then show ?case
    by (cases "exec_ops check add ops' s") auto
next
  case (2 check add now ts nonce ops s)
  show ?case
  proof (cases "check now ts nonce s")
    case (Ok r)
    obtain b s' where r: "r = (b, s')" by (cases r)
    from 2 Ok r show ?thesis
      by (cases "exec_ops check add ops (add ts nonce s')") (auto simp: res_bind_assoc cons_log)
  qed simp_all
next
  case (3 check add ts nonce ops s)
  then show ?case
    by (cases "exec_ops check add ops (add ts nonce s)") (auto simp: res_bind_assoc cons_log)
qed

section \<open>The laws\<close>

locale replay_cache =
  fixes check :: "i64 \<Rightarrow> i64 \<Rightarrow> bytes \<Rightarrow> 's \<Rightarrow> (bool \<times> 's) res"
    and add :: "i64 \<Rightarrow> bytes \<Rightarrow> 's \<Rightarrow> 's"
    and pairs :: "'s \<Rightarrow> (i64 \<times> bytes) list"
    and window :: "'s \<Rightarrow> nat"
    and capacity :: "'s \<Rightarrow> nat"
  assumes window_bound: "window s < 2 ^ 32"
    and check_far:
      "\<lbrakk>\<bar>sint now - sint ts\<bar> < 2 ^ 63; int (window s) < \<bar>sint now - sint ts\<bar>\<rbrakk> \<Longrightarrow>
         check now ts nonce s = Ok (False, s)"
    and check_near:
      "\<lbrakk>\<bar>sint now - sint ts\<bar> \<le> int (window s);
        \<forall>(t, n) \<in> set (pairs s). in_i64 (sint t + int (window s))\<rbrakk> \<Longrightarrow>
         \<exists>s'. check now ts nonce s = Ok ((ts, nonce) \<notin> set (pairs s'), s') \<and>
              pairs s' = filter (\<lambda>(t, n). sint now \<le> sint t + int (window s)) (pairs s) \<and>
              window s' = window s \<and> capacity s' = capacity s"
    and pairs_add:
      "pairs (add ts nonce s) =
         drop (length (pairs s) + 1 - capacity s) (pairs s @ [(ts, nonce)])"
    and window_add: "window (add ts nonce s) = window s"
    and capacity_add: "capacity (add ts nonce s) = capacity s"
begin

abbreviation room :: "'s \<Rightarrow> bool" where
  "room \<equiv> \<lambda>s. length (pairs s) < capacity s"

lemma length_pairs_add: "length (pairs s) \<le> capacity s \<Longrightarrow> length (pairs (add ts nonce s)) \<le> capacity s"
  by (simp add: pairs_add)

lemma pairs_add_room: "room s \<Longrightarrow> pairs (add ts nonce s) = pairs s @ [(ts, nonce)]"
  by (simp add: pairs_add)

text \<open>Recorded timestamps stay in the range where the window can be added to them.\<close>

definition sane :: "'s \<Rightarrow> bool" where
  "sane s \<longleftrightarrow> (\<forall>(t, n) \<in> set (pairs s). in_i64 (sint t + int (window s)))"

lemma sane_add:
  "sane s \<Longrightarrow> in_i64 (sint ts + int (window s)) \<Longrightarrow> room s \<Longrightarrow> sane (add ts nonce s)"
  by (auto simp: sane_def window_add pairs_add_room)

text \<open>
  The invariant of a run: everything logged that a packet accepted at clock \<open>m\<close> or later could
  repeat is still in the cache.
\<close>

definition covers :: "int \<Rightarrow> (i64 \<times> bytes) set \<Rightarrow> 's \<Rightarrow> bool" where
  "covers m seen s \<longleftrightarrow>
     sane s \<and> (\<forall>(t, n) \<in> seen. m \<le> sint t + int (window s) \<longrightarrow> (t, n) \<in> set (pairs s))"

lemma check_cases:
  assumes "covers m seen s" and "m \<le> sint now" and "is_date now"
    and "\<bar>sint now - sint ts\<bar> < 2 ^ 63"
  shows "check now ts nonce s = Ok (False, s) \<or>
    (\<exists>s' b. check now ts nonce s = Ok (b, s') \<and> covers (sint now) seen s' \<and> window s' = window s \<and>
       (b \<longrightarrow> (ts, nonce) \<notin> seen \<and> \<bar>sint now - sint ts\<bar> \<le> int (window s)))"
proof (cases "\<bar>sint now - sint ts\<bar> \<le> int (window s)")
  case False
  then show ?thesis
    using check_far [OF assms(4)] by simp
next
  case True
  have "\<forall>(t, n) \<in> set (pairs s). in_i64 (sint t + int (window s))"
    using assms(1) by (simp add: covers_def sane_def)
  from check_near [OF True this] obtain s' where s':
    "check now ts nonce s = Ok ((ts, nonce) \<notin> set (pairs s'), s')"
    "pairs s' = filter (\<lambda>(t, n). sint now \<le> sint t + int (window s)) (pairs s)"
    "window s' = window s"
    by blast
  have cov: "covers (sint now) seen s'"
    using assms(1,2) unfolding covers_def sane_def s'(2,3) by fastforce
  have "(ts, nonce) \<notin> seen" if "(ts, nonce) \<notin> set (pairs s')"
    using that cov True by (auto simp: covers_def s'(3))
  with s' cov True show ?thesis by blast
qed

lemma covers_add:
  assumes "covers m seen s" "room s" "in_i64 (sint ts + int (window s))"
  shows "covers m (insert (ts, nonce) seen) (add ts nonce s)"
  using assms sane_add [OF _ assms(3,2)]
  by (auto simp: covers_def window_add pairs_add_room)

lemma date_plus_window:
  assumes "is_date now" and "\<bar>sint now - sint ts\<bar> \<le> int (window s)"
  shows "in_i64 (sint ts + int (window s))"
proof -
  have "int (window s) < 2 ^ 32"
    using window_bound [of s] by simp
  with assms show ?thesis
    by (auto simp: is_date_def in_i64_def)
qed

lemma covers_mono: "covers m seen s \<Longrightarrow> m \<le> m' \<Longrightarrow> covers m' seen s"
  by (auto simp: covers_def)

lemma run_ops_no_replay:
  assumes "covers m seen s" and "timely m ops" and "fits check add room ops s"
  shows "\<exists>l. run_ops check add ops s = Ok l \<and> no_replay seen l"
  using assms
proof (induction ops arbitrary: m seen s)
  case Nil
  then show ?case by simp
next
  case (Cons op ops)
  show ?case
  proof (cases op)
    case (Record ts nonce)
    with Cons.prems have date: "is_date ts" "timely m ops" "room s"
      "fits check add room ops (add ts nonce s)" by simp_all
    have "in_i64 (sint ts + int (window s))"
      using date_plus_window [OF date(1), of ts s] by simp
    then have "covers m (insert (ts, nonce) seen) (add ts nonce s)"
      by (rule covers_add [OF Cons.prems(1) date(3)])
    from Cons.IH [OF this date(2,4)] Record show ?thesis by auto
  next
    case (Offer now ts nonce)
    with Cons.prems have t: "m \<le> sint now" "is_date now" "\<bar>sint now - sint ts\<bar> < 2 ^ 63"
      "timely (sint now) ops" by simp_all
    from check_cases [OF Cons.prems(1) t(1-3)]
    consider "check now ts nonce s = Ok (False, s)"
      | s' where "check now ts nonce s = Ok (False, s')" "covers (sint now) seen s'"
      | s' where "check now ts nonce s = Ok (True, s')" "covers (sint now) seen s'"
          "window s' = window s" "(ts, nonce) \<notin> seen" "\<bar>sint now - sint ts\<bar> \<le> int (window s)"
      by (metis (full_types))
    then show ?thesis
    proof cases
      case 1
      then have "fits check add room ops s"
        using Cons.prems(3) Offer by simp
      from Cons.IH [OF covers_mono [OF Cons.prems(1) t(1)] t(4) this] 1 Offer
      show ?thesis by simp
    next
      case 2
      then have "fits check add room ops s'"
        using Cons.prems(3) Offer by simp
      from Cons.IH [OF 2(2) t(4) this] 2(1) Offer show ?thesis by simp
    next
      case 3
      then have f: "room s'" "fits check add room ops (add ts nonce s')"
        using Cons.prems(3) Offer by simp_all
      have "in_i64 (sint ts + int (window s'))"
        using date_plus_window [OF t(2)] 3(3,5) by simp
      then have "covers (sint now) (insert (ts, nonce) seen) (add ts nonce s')"
        by (rule covers_add [OF 3(2) f(1)])
      from Cons.IH [OF this t(4) f(2)] 3(1,4) Offer show ?thesis by auto
    qed
  qed
qed

lemma run_ops_no_replay_empty:
  assumes "pairs s = []" and "timely m ops" and "fits check add room ops s"
  shows "\<exists>l. run_ops check add ops s = Ok l \<and> no_replay {} l"
  using run_ops_no_replay [OF _ assms(2,3), of "{}"] assms(1) by (simp add: covers_def sane_def)

text \<open>
  The cache holds what was recorded last: after enough fresh packets an old one is gone.
  \<open>fresh_offers\<close> follows a run of fresh packets, all stamped with the clock's time.
\<close>

lemma fresh_offers:
  assumes "is_date now" and "distinct ns" and "fst ` set (pairs s) \<subseteq> {now}"
    and "\<And>n. n \<in> set ns \<Longrightarrow> (now, n) \<notin> set (pairs s)"
  shows "\<exists>s'. run_ops check add (map (Offer now now) ns @ ops) s =
      res_bind (run_ops check add ops s') (\<lambda>l. Ok (map (\<lambda>n. (True, now, n)) ns @ l)) \<and>
    pairs s' = drop (length ns + length (pairs s) - capacity s) (pairs s @ map (Pair now) ns) \<or>
    capacity s < length (pairs s)"
  using assms
proof (induction ns arbitrary: s)
  case Nil
  have "\<not> capacity s < length (pairs s) \<Longrightarrow> pairs s = drop (length (pairs s) - capacity s) (pairs s)"
    by simp
  then show ?case
    by (intro exI [of _ s]) (auto simp: res_bind_Ok_right [unfolded id_def])
next
  case (Cons n ns)
  have w: "in_i64 (sint now + int (window s))"
    using date_plus_window [OF Cons.prems(1), of now s] by simp
  have ts: "t = now" if "(t, k) \<in> set (pairs s)" for t k
    using that Cons.prems(3) by force
  have "\<forall>(t, k) \<in> set (pairs s). in_i64 (sint t + int (window s))"
    using ts w by auto
  moreover have "\<bar>sint now - sint now\<bar> \<le> int (window s)" by simp
  ultimately obtain s1 where s1:
    "check now now n s = Ok ((now, n) \<notin> set (pairs s1), s1)"
    "pairs s1 = filter (\<lambda>(t, k). sint now \<le> sint t + int (window s)) (pairs s)"
    "capacity s1 = capacity s"
    using check_near [of now now s n] by blast
  have keep: "filter (\<lambda>(t, k). sint now \<le> sint t + int (window s)) (pairs s) = pairs s"
    using ts by (intro filter_True) force
  let ?s = "add now n s1"
  show ?case
  proof (cases "capacity s < length (pairs s)")
    case True
    then show ?thesis by blast
  next
    case False
    have p: "pairs ?s = drop (length (pairs s) + 1 - capacity s) (pairs s @ [(now, n)])"
      by (simp add: pairs_add s1(2,3) keep)
    have cap: "capacity ?s = capacity s" "\<not> capacity ?s < length (pairs ?s)"
      using False by (simp_all add: capacity_add s1(3) p)
    have sub: "set (pairs ?s) \<subseteq> set (pairs s) \<union> {(now, n)}"
      unfolding p using set_drop_subset [of "length (pairs s) + 1 - capacity s" "pairs s @ [(now, n)]"] by auto
    have d: "distinct ns" and k: "\<And>k. k \<in> set ns \<Longrightarrow> (now, k) \<notin> set (pairs ?s)"
      using Cons.prems(2,4) sub by auto
    have f: "fst ` set (pairs ?s) \<subseteq> {now}"
      using sub ts by fastforce
    from Cons.IH [OF Cons.prems(1) d f k] cap(2) obtain s' where s':
      "run_ops check add (map (Offer now now) ns @ ops) ?s =
        res_bind (run_ops check add ops s') (\<lambda>l. Ok (map (\<lambda>n. (True, now, n)) ns @ l))"
      "pairs s' = drop (length ns + length (pairs ?s) - capacity s) (pairs ?s @ map (Pair now) ns)"
      by (auto simp: cap(1))
    have "(now, n) \<notin> set (pairs s1)"
      using Cons.prems(4) by (simp add: s1(2) keep)
    then have "run_ops check add (map (Offer now now) (n # ns) @ ops) s =
        res_bind (run_ops check add ops s') (\<lambda>l. Ok (map (\<lambda>n. (True, now, n)) (n # ns) @ l))"
      by (simp add: s1(1) s'(1) res_bind_assoc)
    moreover have "pairs s' = drop (length (n # ns) + length (pairs s) - capacity s)
        (pairs s @ map (Pair now) (n # ns))"
    proof -
      let ?d = "length (pairs s) + 1 - capacity s" and ?L = "pairs s @ [(now, n)]"
      let ?m = "length ns + length (pairs ?s) - capacity s"
      have "?m + ?d = length (n # ns) + length (pairs s) - capacity s"
        by (simp add: p)
      moreover have "drop ?m (drop ?d ?L @ map (Pair now) ns) = drop (?m + ?d) (?L @ map (Pair now) ns)"
      proof -
        have "drop ?d ?L @ map (Pair now) ns = drop ?d (?L @ map (Pair now) ns)"
          by (rule drop_append_within) simp
        then show ?thesis by (simp only: drop_drop)
      qed
      ultimately show ?thesis
        by (simp only: s'(2) p) simp
    qed
    ultimately show ?thesis by blast
  qed
qed

lemma evicted_again:
  assumes "is_date now" and "distinct (n # ns)" and "length ns = capacity s" and "pairs s = []"
  shows "run_ops check add (map (Offer now now) (n # ns) @ [Offer now now n]) s =
    Ok (map (\<lambda>n. (True, now, n)) (n # ns @ [n]))"
proof -
  obtain s' where s':
    "run_ops check add (map (Offer now now) (n # ns) @ [Offer now now n]) s =
      res_bind (run_ops check add [Offer now now n] s')
        (\<lambda>l. Ok (map (\<lambda>n. (True, now, n)) (n # ns) @ l))"
    "pairs s' = map (Pair now) ns"
    using fresh_offers [OF assms(1,2), of s "[Offer now now n]"] assms(3,4) by auto
  have "in_i64 (sint now + int (window s'))"
    using date_plus_window [OF assms(1), of now s'] by simp
  then have "\<forall>(t, k) \<in> set (pairs s'). in_i64 (sint t + int (window s'))"
    by (auto simp: s'(2))
  then obtain s2 where "check now now n s' = Ok ((now, n) \<notin> set (pairs s2), s2)"
    "set (pairs s2) \<subseteq> set (pairs s')"
    using check_near [of now now s' n] by auto
  moreover have "(now, n) \<notin> set (pairs s')"
    using assms(2) by (auto simp: s'(2))
  ultimately have "check now now n s' = Ok (True, s2)" by auto
  then show ?thesis by (simp only: s'(1)) simp
qed

end

end
