(* ===== verification/Replay_Window.thy ===== *)
theory Replay_Window
  imports Replay_Cache
begin

text \<open>
  \<open>struct ReplayWindow\<close> of \<open>tuctl-server/src/main.rs\<close> and of \<open>tuctl-client/src/main.rs\<close>.
  Each is modelled from its own file and each interprets the contract \<open>replay_cache\<close>. The
  clock reading \<open>now\<close> of \<open>current_unix_time()\<close> is an argument.
\<close>

section \<open>The clock\<close>

text \<open>
  \<open>current_unix_time\<close> of a system time given in seconds since the epoch: a time before the
  epoch reads as 0.
\<close>

definition current_unix_time :: "int \<Rightarrow> i64" where
  "current_unix_time t = (if t < 0 then 0 else word_of_int t)"

definition client_current_unix_time :: "int \<Rightarrow> i64" where
  "client_current_unix_time t = (if t < 0 then 0 else word_of_int t)"

section \<open>The server's window\<close>

record ReplayEntry =
  re_ts :: i64
  re_nonce :: bytes

record ReplayWindow =
  rw_window :: u32
  rw_max_size :: u32
  rw_entries :: "ReplayEntry list"

definition replay_new :: "u32 \<Rightarrow> u32 \<Rightarrow> ReplayWindow" where
  "replay_new window max_size = \<lparr>rw_window = window, rw_max_size = max_size, rw_entries = []\<rparr>"

text \<open>\<open>entries.retain(|e| e.ts + self.window as i64 >= now)\<close>.\<close>

fun retain :: "profile \<Rightarrow> i64 \<Rightarrow> u32 \<Rightarrow> ReplayEntry list \<Rightarrow> ReplayEntry list res" where
  "retain p now window [] = Ok []"
| "retain p now window (e # es) =
     res_bind (i64_add p (re_ts e) (i64_of_u32 window)) (\<lambda>limit.
     res_bind (retain p now window es) (\<lambda>es.
     Ok (if sint now \<le> sint limit then e # es else es)))"

definition replay_check ::
  "profile \<Rightarrow> i64 \<Rightarrow> i64 \<Rightarrow> bytes \<Rightarrow> ReplayWindow \<Rightarrow> (bool \<times> ReplayWindow) res" where
  "replay_check p now ts nonce rw =
     res_bind (i64_sub p now ts) (\<lambda>d.
     res_bind (i64_abs p d) (\<lambda>dist.
     if sint (i64_of_u32 (rw_window rw)) < sint dist then Ok (False, rw)
     else res_bind (retain p now (rw_window rw) (rw_entries rw)) (\<lambda>entries.
       let rw = rw\<lparr>rw_entries := entries\<rparr> in
       if list_ex (\<lambda>e. re_ts e = ts \<and> re_nonce e = nonce) (rw_entries rw) then Ok (False, rw)
       else Ok (True, rw))))"

text \<open>\<open>while entries.len() > max_size { entries.pop_front(); }\<close>.\<close>

fun pop_front_while :: "nat \<Rightarrow> 'a list \<Rightarrow> 'a list" where
  "pop_front_while max_size [] = []"
| "pop_front_while max_size (e # es) =
     (if length (e # es) > max_size then pop_front_while max_size es else e # es)"

definition replay_add :: "i64 \<Rightarrow> bytes \<Rightarrow> ReplayWindow \<Rightarrow> ReplayWindow" where
  "replay_add ts nonce rw =
     (let entries = rw_entries rw @ [\<lparr>re_ts = ts, re_nonce = nonce\<rparr>]
      in rw\<lparr>rw_entries := pop_front_while (unat (rw_max_size rw)) entries\<rparr>)"

section \<open>The client's window\<close>

record ClientReplayEntry =
  cre_ts :: i64
  cre_nonce :: bytes

record ClientReplayWindow =
  crw_window :: u32
  crw_max_size :: u32
  crw_entries :: "ClientReplayEntry list"

definition client_replay_init :: "u32 \<Rightarrow> u32 \<Rightarrow> ClientReplayWindow" where
  "client_replay_init window max_size =
     \<lparr>crw_window = window, crw_max_size = max_size, crw_entries = []\<rparr>"

fun client_retain ::
  "profile \<Rightarrow> i64 \<Rightarrow> u32 \<Rightarrow> ClientReplayEntry list \<Rightarrow> ClientReplayEntry list res" where
  "client_retain p now window [] = Ok []"
| "client_retain p now window (e # es) =
     res_bind (i64_add p (cre_ts e) (i64_of_u32 window)) (\<lambda>limit.
     res_bind (client_retain p now window es) (\<lambda>es.
     Ok (if sint now \<le> sint limit then e # es else es)))"

definition client_replay_check ::
  "profile \<Rightarrow> i64 \<Rightarrow> i64 \<Rightarrow> bytes \<Rightarrow> ClientReplayWindow \<Rightarrow> (bool \<times> ClientReplayWindow) res" where
  "client_replay_check p now ts nonce rw =
     res_bind (i64_sub p now ts) (\<lambda>d.
     res_bind (i64_abs p d) (\<lambda>dist.
     if sint (i64_of_u32 (crw_window rw)) < sint dist then Ok (False, rw)
     else res_bind (client_retain p now (crw_window rw) (crw_entries rw)) (\<lambda>entries.
       let rw = rw\<lparr>crw_entries := entries\<rparr> in
       if list_ex (\<lambda>e. cre_ts e = ts \<and> cre_nonce e = nonce) (crw_entries rw) then Ok (False, rw)
       else Ok (True, rw))))"

text \<open>\<open>replay_add\<close> of the client returns a \<open>Result\<close> that is always \<open>Ok\<close>.\<close>

definition client_replay_add ::
  "i64 \<Rightarrow> bytes \<Rightarrow> ClientReplayWindow \<Rightarrow> unit res \<times> ClientReplayWindow" where
  "client_replay_add ts nonce rw =
     (let entries = crw_entries rw @ [\<lparr>cre_ts = ts, cre_nonce = nonce\<rparr>]
      in (Ok (), rw\<lparr>crw_entries := pop_front_while (unat (crw_max_size rw)) entries\<rparr>))"

section \<open>Facts about the steps\<close>

lemma pop_front_while_eq: "pop_front_while n es = drop (length es - n) es"
  by (induction n es rule: pop_front_while.induct) (auto simp: Suc_diff_le)

text \<open>Where nothing overflows, the three operations are those on integers.\<close>

lemma i64_dist:
  assumes "\<bar>sint now - sint ts\<bar> < 2 ^ 63"
  obtains d a where "i64_sub p now ts = Ok d" "i64_abs p d = Ok a"
    "sint a = \<bar>sint now - sint ts\<bar>"
proof -
  have r: "in_i64 (sint now - sint ts)" "in_i64 \<bar>sint now - sint ts\<bar>"
    using assms by (auto simp: in_i64_def)
  have "i64_sub p now ts = Ok (word_of_int (sint now - sint ts))"
    unfolding i64_sub_def by (rule i64_result_exact [OF r(1)])
  moreover have "i64_abs p (word_of_int (sint now - sint ts)) = Ok (word_of_int \<bar>sint now - sint ts\<bar>)"
    unfolding i64_abs_def sint_word_of_int64 [OF r(1)] by (rule i64_result_exact [OF r(2)])
  ultimately show ?thesis
    using sint_word_of_int64 [OF r(2)] by (rule that)
qed

lemma i64_limit:
  assumes "in_i64 (sint t + uint w)"
  obtains l where "i64_add p t (i64_of_u32 w) = Ok l" "sint l = sint t + uint w"
proof (rule that)
  have "sint (i64_of_u32 w) = uint w"
    by (rule sint_i64_of_u32)
  then show "i64_add p t (i64_of_u32 w) = Ok (word_of_int (sint t + uint w))"
    unfolding i64_add_def by (simp only: i64_result_exact [OF assms])
  show "sint (word_of_int (sint t + uint w) :: i64) = sint t + uint w"
    by (rule sint_word_of_int64 [OF assms])
qed

lemma retain_eq:
  "\<forall>e \<in> set es. in_i64 (sint (re_ts e) + uint w) \<Longrightarrow>
     retain p now w es = Ok (filter (\<lambda>e. sint now \<le> sint (re_ts e) + uint w) es)"
proof (induction es)
  case Nil
  then show ?case by simp
next
  case (Cons e es)
  then obtain l where "i64_add p (re_ts e) (i64_of_u32 w) = Ok l" "sint l = sint (re_ts e) + uint w"
    using i64_limit [of "re_ts e" w p] by auto
  with Cons show ?case by simp
qed

lemma client_retain_eq:
  "\<forall>e \<in> set es. in_i64 (sint (cre_ts e) + uint w) \<Longrightarrow>
     client_retain p now w es = Ok (filter (\<lambda>e. sint now \<le> sint (cre_ts e) + uint w) es)"
proof (induction es)
  case Nil
  then show ?case by simp
next
  case (Cons e es)
  then obtain l where "i64_add p (cre_ts e) (i64_of_u32 w) = Ok l" "sint l = sint (cre_ts e) + uint w"
    using i64_limit [of "cre_ts e" w p] by auto
  with Cons show ?case by simp
qed

section \<open>The laws hold for both\<close>

definition rw_pairs :: "ReplayWindow \<Rightarrow> (i64 \<times> bytes) list" where
  "rw_pairs rw = map (\<lambda>e. (re_ts e, re_nonce e)) (rw_entries rw)"

definition crw_pairs :: "ClientReplayWindow \<Rightarrow> (i64 \<times> bytes) list" where
  "crw_pairs rw = map (\<lambda>e. (cre_ts e, cre_nonce e)) (crw_entries rw)"

definition client_add_state :: "i64 \<Rightarrow> bytes \<Rightarrow> ClientReplayWindow \<Rightarrow> ClientReplayWindow" where
  "client_add_state ts nonce rw = snd (client_replay_add ts nonce rw)"

lemma unat_u32_bound: "unat (w :: u32) < 2 ^ 32"
  using unsigned_less [of w, where 'a = nat] by simp

lemma near_less:
  assumes "x \<le> int (unat (w :: u32))"
  shows "x < 2 ^ 63"
proof -
  have "int (unat w) < int (2 ^ 32)"
    unfolding of_nat_less_iff by (rule unat_u32_bound)
  also have "\<dots> \<le> 2 ^ 63" by simp
  finally show ?thesis using assms by (rule order.strict_trans1 [rotated])
qed

lemma sint_window: "sint (i64_of_u32 w) = uint w"
  by (rule sint_i64_of_u32)

interpretation server_cache: replay_cache "replay_check p" replay_add rw_pairs
  "\<lambda>rw. unat (rw_window rw)" "\<lambda>rw. unat (rw_max_size rw)" for p
proof
  fix rw :: ReplayWindow and now ts :: i64 and nonce :: bytes
  show "unat (rw_window rw) < 2 ^ 32" by (rule unat_u32_bound)
  show "replay_check p now ts nonce rw = Ok (False, rw)"
    if far: "\<bar>sint now - sint ts\<bar> < 2 ^ 63" "int (unat (rw_window rw)) < \<bar>sint now - sint ts\<bar>"
  proof -
    obtain d a where "i64_sub p now ts = Ok d" "i64_abs p d = Ok a" "sint a = \<bar>sint now - sint ts\<bar>"
      by (rule i64_dist [OF far(1)])
    with far(2) show ?thesis
      by (simp add: replay_check_def sint_window)
  qed
  show "\<exists>rw'. replay_check p now ts nonce rw = Ok ((ts, nonce) \<notin> set (rw_pairs rw'), rw') \<and>
      rw_pairs rw' = filter (\<lambda>(t, n). sint now \<le> sint t + int (unat (rw_window rw))) (rw_pairs rw) \<and>
      unat (rw_window rw') = unat (rw_window rw) \<and> unat (rw_max_size rw') = unat (rw_max_size rw)"
    if near: "\<bar>sint now - sint ts\<bar> \<le> int (unat (rw_window rw))"
      "\<forall>(t, n) \<in> set (rw_pairs rw). in_i64 (sint t + int (unat (rw_window rw)))"
  proof -
    let ?es = "filter (\<lambda>e. sint now \<le> sint (re_ts e) + uint (rw_window rw)) (rw_entries rw)"
    let ?rw = "rw\<lparr>rw_entries := ?es\<rparr>"
    have "\<bar>sint now - sint ts\<bar> < 2 ^ 63"
      by (rule near_less [OF near(1)])
    then obtain d a where "i64_sub p now ts = Ok d" "i64_abs p d = Ok a"
        "sint a = \<bar>sint now - sint ts\<bar>"
      by (rule i64_dist)
    moreover have "retain p now (rw_window rw) (rw_entries rw) = Ok ?es"
      using near(2) by (intro retain_eq) (auto simp: rw_pairs_def)
    ultimately have "replay_check p now ts nonce rw = Ok ((ts, nonce) \<notin> set (rw_pairs ?rw), ?rw)"
      using near(1) by (auto simp: replay_check_def Let_def sint_window list_ex_iff rw_pairs_def image_iff)
    then show ?thesis
      by (intro exI [of _ ?rw]) (simp add: rw_pairs_def filter_map comp_def)
  qed
  show "rw_pairs (replay_add ts nonce rw) =
      drop (length (rw_pairs rw) + 1 - unat (rw_max_size rw)) (rw_pairs rw @ [(ts, nonce)])"
    by (simp add: rw_pairs_def replay_add_def pop_front_while_eq Let_def drop_map [symmetric])
qed (simp_all add: replay_add_def Let_def)

interpretation client_cache: replay_cache "client_replay_check p" client_add_state crw_pairs
  "\<lambda>rw. unat (crw_window rw)" "\<lambda>rw. unat (crw_max_size rw)" for p
proof
  fix rw :: ClientReplayWindow and now ts :: i64 and nonce :: bytes
  show "unat (crw_window rw) < 2 ^ 32" by (rule unat_u32_bound)
  show "client_replay_check p now ts nonce rw = Ok (False, rw)"
    if far: "\<bar>sint now - sint ts\<bar> < 2 ^ 63" "int (unat (crw_window rw)) < \<bar>sint now - sint ts\<bar>"
  proof -
    obtain d a where "i64_sub p now ts = Ok d" "i64_abs p d = Ok a" "sint a = \<bar>sint now - sint ts\<bar>"
      by (rule i64_dist [OF far(1)])
    with far(2) show ?thesis
      by (simp add: client_replay_check_def sint_window)
  qed
  show "\<exists>rw'. client_replay_check p now ts nonce rw = Ok ((ts, nonce) \<notin> set (crw_pairs rw'), rw') \<and>
      crw_pairs rw' = filter (\<lambda>(t, n). sint now \<le> sint t + int (unat (crw_window rw))) (crw_pairs rw) \<and>
      unat (crw_window rw') = unat (crw_window rw) \<and> unat (crw_max_size rw') = unat (crw_max_size rw)"
    if near: "\<bar>sint now - sint ts\<bar> \<le> int (unat (crw_window rw))"
      "\<forall>(t, n) \<in> set (crw_pairs rw). in_i64 (sint t + int (unat (crw_window rw)))"
  proof -
    let ?es = "filter (\<lambda>e. sint now \<le> sint (cre_ts e) + uint (crw_window rw)) (crw_entries rw)"
    let ?rw = "rw\<lparr>crw_entries := ?es\<rparr>"
    have "\<bar>sint now - sint ts\<bar> < 2 ^ 63"
      by (rule near_less [OF near(1)])
    then obtain d a where "i64_sub p now ts = Ok d" "i64_abs p d = Ok a"
        "sint a = \<bar>sint now - sint ts\<bar>"
      by (rule i64_dist)
    moreover have "client_retain p now (crw_window rw) (crw_entries rw) = Ok ?es"
      using near(2) by (intro client_retain_eq) (auto simp: crw_pairs_def)
    ultimately have "client_replay_check p now ts nonce rw = Ok ((ts, nonce) \<notin> set (crw_pairs ?rw), ?rw)"
      using near(1) by (auto simp: client_replay_check_def Let_def sint_window list_ex_iff crw_pairs_def image_iff)
    then show ?thesis
      by (intro exI [of _ ?rw]) (simp add: crw_pairs_def filter_map comp_def)
  qed
  show "crw_pairs (client_add_state ts nonce rw) =
      drop (length (crw_pairs rw) + 1 - unat (crw_max_size rw)) (crw_pairs rw @ [(ts, nonce)])"
    by (simp add: crw_pairs_def client_add_state_def client_replay_add_def pop_front_while_eq Let_def
        drop_map [symmetric])
qed (simp_all add: client_add_state_def client_replay_add_def Let_def)

section \<open>The two windows are the same machine\<close>

definition to_client_entry :: "ReplayEntry \<Rightarrow> ClientReplayEntry" where
  "to_client_entry e = \<lparr>cre_ts = re_ts e, cre_nonce = re_nonce e\<rparr>"

definition to_client :: "ReplayWindow \<Rightarrow> ClientReplayWindow" where
  "to_client rw =
     \<lparr>crw_window = rw_window rw, crw_max_size = rw_max_size rw,
      crw_entries = map to_client_entry (rw_entries rw)\<rparr>"

lemma client_retain_to_client:
  "client_retain p now w (map to_client_entry es) = map_res (map to_client_entry) (retain p now w es)"
proof (induction es)
  case Nil
  then show ?case by simp
next
  case (Cons e es)
  then show ?case
    by (cases "i64_add p (re_ts e) (i64_of_u32 w)"; cases "retain p now w es")
      (simp_all add: to_client_entry_def)
qed

lemma list_ex_to_client:
  "list_ex (\<lambda>e. cre_ts e = ts \<and> cre_nonce e = nonce) (map to_client_entry es) =
     list_ex (\<lambda>e. re_ts e = ts \<and> re_nonce e = nonce) es"
  by (induction es) (simp_all add: to_client_entry_def)

lemma client_replay_check_to_client:
  "client_replay_check p now ts nonce (to_client rw) =
     map_res (map_prod id to_client) (replay_check p now ts nonce rw)"
proof -
  have ex: "(\<exists>x\<in>set es. cre_ts (to_client_entry x) = ts \<and> cre_nonce (to_client_entry x) = nonce) \<longleftrightarrow>
      (\<exists>x\<in>set es. re_ts x = ts \<and> re_nonce x = nonce)" for es
    by (simp add: to_client_entry_def)
  note defs = client_replay_check_def replay_check_def to_client_def client_retain_to_client Let_def
    list_ex_iff ex
  show ?thesis
  proof (cases "i64_sub p now ts")
    case (Ok d)
    then show ?thesis
      by (cases "i64_abs p d"; cases "retain p now (rw_window rw) (rw_entries rw)")
        (auto simp: defs)
  qed (simp_all add: defs)
qed

lemma client_replay_add_to_client:
  "client_replay_add ts nonce (to_client rw) = (Ok (), to_client (replay_add ts nonce rw))"
proof -
  have e: "[\<lparr>cre_ts = ts, cre_nonce = nonce\<rparr>] = map to_client_entry [\<lparr>re_ts = ts, re_nonce = nonce\<rparr>]"
    by (simp add: to_client_entry_def)
  show ?thesis
    by (simp only: client_replay_add_def replay_add_def to_client_def pop_front_while_eq Let_def
        ClientReplayWindow.select_convs ReplayWindow.update_convs ReplayWindow.select_convs e
        map_append [symmetric] drop_map length_map)
      simp
qed

section \<open>A timestamp half the range away\<close>

text \<open>The timestamp whose distance from the clock is exactly \<open>2 ^ 63\<close> seconds.\<close>

definition antipode :: "i64 \<Rightarrow> i64" where
  "antipode now = now + 0x8000000000000000"

lemma sint_antipode:
  assumes "0 \<le> sint now"
  shows "sint (antipode now) = sint now - 2 ^ 63"
proof -
  have "in_i64 (sint now - 2 ^ 63)"
    using assms sint_i64_bounds [of now] by (simp add: in_i64_def)
  moreover have "antipode now = word_of_int (sint now - 2 ^ 63)"
    by (simp add: antipode_def)
  ultimately show ?thesis
    by (simp only: sint_word_of_int64)
qed

lemma sub_antipode:
  assumes "0 \<le> sint now"
  shows "i64_sub Release now (antipode now) = Ok 0x8000000000000000"
    and "i64_sub Debug now (antipode now) = Panic"
  using assms by (simp_all add: i64_sub_def sint_antipode i64_result_def in_i64_def)

lemma abs_least: "i64_abs Release 0x8000000000000000 = Ok 0x8000000000000000"
  by (simp add: i64_abs_def i64_result_def)

lemma window_not_far: "\<not> sint (i64_of_u32 w) < - 9223372036854775808"
proof -
  have "(- 9223372036854775808 :: int) \<le> 0" by simp
  also have "0 \<le> uint w" by simp
  finally show ?thesis by (simp only: sint_i64_of_u32 not_less)
qed

lemma retain_antipode:
  assumes "is_date now"
  shows "retain Release now w [\<lparr>re_ts = antipode now, re_nonce = n\<rparr>] = Ok []"
proof -
  have w: "uint w < 2 ^ 32" "0 \<le> uint w"
    using uint_lt2p [of w] by simp_all
  have "in_i64 (sint (antipode now) + uint w)"
    using assms w by (simp add: sint_antipode is_date_def in_i64_def)
  then have "\<forall>e \<in> set [\<lparr>re_ts = antipode now, re_nonce = n\<rparr>]. in_i64 (sint (re_ts e) + uint w)"
    by simp
  from retain_eq [OF this, of Release now] show ?thesis
    using assms w by (simp add: sint_antipode is_date_def)
qed

text \<open>The whole check on integers.\<close>

lemma replay_check_eq:
  assumes "\<bar>sint now - sint ts\<bar> < 2 ^ 63"
    and "\<forall>e \<in> set (rw_entries rw). in_i64 (sint (re_ts e) + int (unat (rw_window rw)))"
  shows "replay_check p now ts nonce rw =
    (if \<bar>sint now - sint ts\<bar> \<le> int (unat (rw_window rw))
     then Ok ((\<forall>e \<in> set (rw_entries rw). re_ts e \<noteq> ts \<or> re_nonce e \<noteq> nonce),
              rw\<lparr>rw_entries := filter (\<lambda>e. sint now \<le> sint (re_ts e) + int (unat (rw_window rw)))
                 (rw_entries rw)\<rparr>)
     else Ok (False, rw))"
proof -
  obtain d a where da: "i64_sub p now ts = Ok d" "i64_abs p d = Ok a" "sint a = \<bar>sint now - sint ts\<bar>"
    by (rule i64_dist [OF assms(1)])
  have "\<forall>e \<in> set (rw_entries rw). in_i64 (sint (re_ts e) + uint (rw_window rw))"
    using assms(2) by simp
  from retain_eq [OF this, of p now] da show ?thesis
    by (auto simp: replay_check_def Let_def sint_window list_ex_iff)
qed

section \<open>Properties\<close>

lemma room_eq:
  "(\<lambda>rw. length (rw_pairs rw) < unat (rw_max_size rw)) = (\<lambda>rw. length (rw_entries rw) < unat (rw_max_size rw))"
  "(\<lambda>rw. length (crw_pairs rw) < unat (crw_max_size rw)) = (\<lambda>rw. length (crw_entries rw) < unat (crw_max_size rw))"
  by (simp_all add: rw_pairs_def crw_pairs_def)

text \<open>
  C15. The server's replay window, under two conditions: clock readings are dates that do not go back
  and offered timestamps are less than 2^63 seconds away (\<open>timely\<close>), and no recording finds the
  window full (\<open>fits\<close>). Then over any sequence of packets offered and own packets recorded, no packet
  is accepted whose timestamp and nonce were accepted or recorded before, and the run neither panics
  nor fails. What happens without them: \<open>evicted_packet_is_accepted_again\<close> and \<open>release_window_wraps\<close>.
\<close>

theorem server_accepts_no_packet_twice:
  assumes "timely m ops"
    and "fits (replay_check p) replay_add (\<lambda>rw. length (rw_entries rw) < unat (rw_max_size rw))
           ops (replay_new window max_size)"
  shows "\<exists>l. run_ops (replay_check p) replay_add ops (replay_new window max_size) = Ok l \<and>
    no_replay {} l \<and> distinct (map snd (filter fst l))"
proof -
  have "rw_pairs (replay_new window max_size) = []"
    by (simp add: rw_pairs_def replay_new_def)
  from server_cache.run_ops_no_replay_empty [OF this assms(1), of p, unfolded room_eq, OF assms(2)]
  show ?thesis by (auto dest: no_replay_distinct)
qed

theorem server_accepts_no_packet_twice_witness:
  "run_ops (replay_check Release) replay_add
     [Offer 100 95 [1], Record 100 [2], Offer 101 95 [1], Offer 102 100 [2], Offer 103 104 [3]]
     (replay_new 30 8) = Ok [(True, 95, [1]), (False, 100, [2]), (True, 104, [3])] \<and>
   no_replay {} [(True, 95, [1]), (False, 100, [2]), (True, 104, [3])]"
proof -
  let ?ops = "[Offer 100 95 [1], Record 100 [2], Offer 101 95 [1], Offer 102 100 [2], Offer 103 104 [3]]"
  have t: "timely 0 ?ops"
    by (simp add: is_date_def)
  have f: "fits (replay_check Release) replay_add
      (\<lambda>rw. length (rw_entries rw) < unat (rw_max_size rw)) ?ops (replay_new 30 8)"
    by code_simp
  have r: "run_ops (replay_check Release) replay_add ?ops (replay_new 30 8) =
      Ok [(True, 95, [1]), (False, 100, [2]), (True, 104, [3])]"
    by code_simp
  from server_accepts_no_packet_twice [OF t f] r show ?thesis by simp
qed

text \<open>
  C17. The exact decision of \<open>replay_check\<close> where no arithmetic overflows: accept when the
  timestamp is within the window of the clock on either side and the pair is not recorded;
  a timestamp in the window purges the entries that have expired, one outside leaves the
  window as it is.
\<close>

theorem replay_check_decides:
  assumes "\<bar>sint now - sint ts\<bar> < 2 ^ 63"
    and "\<forall>e \<in> set (rw_entries rw). in_i64 (sint (re_ts e) + int (unat (rw_window rw)))"
  shows "replay_check p now ts nonce rw =
    (if \<bar>sint now - sint ts\<bar> \<le> int (unat (rw_window rw))
     then Ok ((\<forall>e \<in> set (rw_entries rw). re_ts e \<noteq> ts \<or> re_nonce e \<noteq> nonce),
              rw\<lparr>rw_entries := filter (\<lambda>e. sint now \<le> sint (re_ts e) + int (unat (rw_window rw)))
                 (rw_entries rw)\<rparr>)
     else Ok (False, rw))"
  by (rule replay_check_eq [OF assms])

theorem replay_check_decides_witness:
  "replay_check Release 100 95 [1] (replay_new 30 8) = Ok (True, replay_new 30 8)"
  using replay_check_decides [of 100 95 "replay_new 30 8" Release "[1]"]
  by (simp add: replay_new_def)

text \<open>
  The window's memory is bounded: recording a pair leaves at most \<open>max_size\<close> entries, the
  most recent ones in order.
\<close>

theorem replay_add_keeps_newest:
  "rw_entries (replay_add ts nonce rw) =
     drop (Suc (length (rw_entries rw)) - unat (rw_max_size rw))
       (rw_entries rw @ [\<lparr>re_ts = ts, re_nonce = nonce\<rparr>]) \<and>
   length (rw_entries (replay_add ts nonce rw)) =
     min (Suc (length (rw_entries rw))) (unat (rw_max_size rw))"
  by (simp add: replay_add_def Let_def pop_front_while_eq)

text \<open>
  C16. What the bound costs: once as many fresh packets as the window has room for have
  followed a packet, that packet is accepted a second time, in the same second.
\<close>

theorem evicted_packet_is_accepted_again:
  assumes "is_date now" and "distinct (n # ns)" and "length ns = unat max_size"
  shows "run_ops (replay_check p) replay_add (map (Offer now now) (n # ns) @ [Offer now now n])
      (replay_new window max_size) = Ok (map (\<lambda>n. (True, now, n)) (n # ns @ [n]))"
  using assms(3) by (intro server_cache.evicted_again [OF assms(1,2)])
    (simp_all add: replay_new_def rw_pairs_def)

theorem evicted_packet_is_accepted_again_witness:
  "run_ops (replay_check Release) replay_add
     (map (Offer 100 100) [[1], [2], [3]] @ [Offer 100 100 [1]]) (replay_new 30 2) =
   Ok (map (\<lambda>n. (True, 100, n)) [[1], [2], [3], [1]])"
  using evicted_packet_is_accepted_again [of 100 "[1]" "[[2], [3]]" 2 Release 30]
  by (simp add: is_date_def)

text \<open>
  C36. The two programs carry the same replay window: the client's check and its recording are
  the server's, entry by entry, overflow panics included.
\<close>

theorem client_window_is_server_window:
  "client_replay_check p now ts nonce (to_client rw) =
     map_res (map_prod id to_client) (replay_check p now ts nonce rw) \<and>
   client_replay_add ts nonce (to_client rw) = (Ok (), to_client (replay_add ts nonce rw))"
  by (rule conjI [OF client_replay_check_to_client client_replay_add_to_client])

text \<open>
  C38. In a release build the window can be passed from outside: the distance of a timestamp
  \<open>2 ^ 63\<close> seconds away wraps to a negative number, the packet is accepted, and since its entry
  is purged at once the same packet is accepted again. A debug build panics on it.
\<close>

theorem release_window_wraps:
  assumes "is_date now"
  shows "run_ops (replay_check Release) replay_add
      [Offer now (antipode now) n, Offer now (antipode now) n] (replay_new window max_size) =
      Ok [(True, antipode now, n), (True, antipode now, n)] \<and>
    replay_check Debug now (antipode now) n rw = Panic"
proof -
  have now: "0 \<le> sint now"
    using assms by (simp add: is_date_def)
  let ?e = "\<lparr>re_ts = antipode now, re_nonce = n\<rparr>"
  have "pop_front_while (unat max_size) [?e] = [] \<or> pop_front_while (unat max_size) [?e] = [?e]"
    by simp
  then have "retain Release now window (pop_front_while (unat max_size) [?e]) = Ok []"
    using retain_antipode [OF assms] by fastforce
  then show ?thesis
    by (simp add: replay_check_def sub_antipode [OF now] abs_least window_not_far replay_new_def
        replay_add_def Let_def)
qed

theorem release_window_wraps_witness:
  "run_ops (replay_check Release) replay_add
     [Offer 1700000000 9223372038554775808 [1], Offer 1700000000 9223372038554775808 [1]]
     (replay_new 30 1024) = Ok [(True, 9223372038554775808, [1]), (True, 9223372038554775808, [1])]"
proof -
  have "is_date 1700000000"
    by (simp add: is_date_def)
  moreover have "antipode 1700000000 = 9223372038554775808"
    by (simp add: antipode_def)
  ultimately show ?thesis
    using release_window_wraps [of 1700000000 "[1]" 30 1024 "replay_new 30 1024"] by simp
qed

end
