(* ===== verification/Packet.thy ===== *)
theory Packet
  imports Replay_Window Net_Addr
begin

text \<open>
  The packets between \<open>tuctl-client\<close> and \<open>tuctl-server\<close>: key derivation, sealing and opening,
  and the padding of commands and responses. Argon2 and XChaCha20-Poly1305 are crates, so
  they are the record \<open>crypto\<close>, an argument of the definitions; \<open>crypto_ok\<close> states what the
  programs rely on. The locale \<open>packet_codec\<close> is the interface between the packet code of one
  program and that of the other; it is interpreted for both directions and for the server
  alone. Random bytes and clock readings are arguments.
\<close>

section \<open>Constants\<close>

definition SALT_LEN :: nat where [simp]: "SALT_LEN = 16"
definition TS_LEN :: nat where [simp]: "TS_LEN = 8"
definition NONCE_LEN :: nat where [simp]: "NONCE_LEN = 24"
definition KEYB :: nat where [simp]: "KEYB = 32"
definition TAG :: nat where [simp]: "TAG = 16"
definition MAX_PT_SIZE :: nat where "MAX_PT_SIZE = 4096"
definition MAX_CT_SIZE :: nat where "MAX_CT_SIZE = SALT_LEN + TS_LEN + NONCE_LEN + MAX_PT_SIZE + TAG"
definition MIN_LEN :: nat where "MIN_LEN = SALT_LEN + TS_LEN + NONCE_LEN + TAG"

definition DEFAULT_SERVER :: string where "DEFAULT_SERVER = ''127.0.0.1''"
definition DEFAULT_SERVER_PORT :: u16 where "DEFAULT_SERVER_PORT = 7000"
definition DEFAULT_WINDOW :: u32 where "DEFAULT_WINDOW = 30"
definition DEFAULT_REPLAY_MAX :: u32 where "DEFAULT_REPLAY_MAX = 1024"

section \<open>The cryptographic crates\<close>

record argon2_params =
  m_cost :: u32
  t_cost :: u32
  p_cost :: u32
  output_len :: "nat option"

text \<open>
  \<open>Params::new\<close> fails with a text or accepts its arguments; \<open>hash_password_into\<close> takes the
  parameters, the password and the salt; \<open>encrypt\<close> and \<open>decrypt\<close> take key, nonce, message and
  associated data.
\<close>

record crypto =
  params_error :: "argon2_params \<Rightarrow> string option"
  hash_password :: "argon2_params \<Rightarrow> bytes \<Rightarrow> bytes \<Rightarrow> string + bytes"
  aead_encrypt :: "bytes \<Rightarrow> bytes \<Rightarrow> bytes \<Rightarrow> bytes \<Rightarrow> string + bytes"
  aead_decrypt :: "bytes \<Rightarrow> bytes \<Rightarrow> bytes \<Rightarrow> bytes \<Rightarrow> bytes option"

text \<open>
  Decryption inverts encryption, a ciphertext is a tag longer than its message, and only a
  ciphertext that encryption makes from some message decrypts (the cipher is deterministic
  for a key and a nonce, and the tag covers message and associated data).
\<close>

definition crypto_ok :: "crypto \<Rightarrow> bool" where
  "crypto_ok C \<longleftrightarrow>
     (\<forall>key nonce msg aad ct. aead_encrypt C key nonce msg aad = Inr ct \<longrightarrow>
        aead_decrypt C key nonce ct aad = Some msg \<and> length ct = length msg + TAG) \<and>
     (\<forall>key nonce msg aad ct. aead_decrypt C key nonce ct aad = Some msg \<longrightarrow>
        aead_encrypt C key nonce msg aad = Inr ct)"

section \<open>Memory limit and key\<close>

text \<open>
  \<open>setup_pwhash_memlimit\<close> for the value of the environment variable, with the line it logs:
  \<open>Inl\<close> an error, \<open>Inr\<close> an information.
\<close>

definition memlimit_env :: string where "memlimit_env = ''TUTUICMPTUNNEL_PWHASH_MEMLIMIT''"

definition setup_pwhash_memlimit :: "string option \<Rightarrow> nat \<times> (string + string) list" where
  "setup_pwhash_memlimit var =
     (let default_mem = 64 * 1024 * 1024 in
      case var of
        None \<Rightarrow> (default_mem, [])
      | Some v \<Rightarrow>
          (case parse_u32 v of
             Inr out \<Rightarrow> (unat out, [Inr (''pwhash memory limit set to '' @ show_nat (unat out))])
           | Inl _ \<Rightarrow> (default_mem, [Inl (''invalid pwhash memory limit value: '' @ v)])))"

definition client_setup_pwhash_memlimit :: "string option \<Rightarrow> nat \<times> (string + string) list" where
  "client_setup_pwhash_memlimit var =
     (let default_mem = 64 * 1024 * 1024 in
      case var of
        None \<Rightarrow> (default_mem, [])
      | Some v \<Rightarrow>
          (case parse_u32 v of
             Inr out \<Rightarrow> (unat out, [Inr (''pwhash memory limit set to '' @ show_nat (unat out))])
           | Inl _ \<Rightarrow> (default_mem, [Inl (''invalid pwhash memory limit value: '' @ v)])))"

definition psk2key :: "crypto \<Rightarrow> string \<Rightarrow> bytes \<Rightarrow> nat \<Rightarrow> bytes res" where
  "psk2key C psk salt memlimit =
     (if length salt \<noteq> SALT_LEN then Err (Msg ''invalid salt length'')
      else (let params = \<lparr>m_cost = of_nat (memlimit div 1024), t_cost = 2, p_cost = 1, output_len = Some KEYB\<rparr> in
        case params_error C params of
          Some e \<Rightarrow> Err (Msg (''argon2 params failed: '' @ e))
        | None \<Rightarrow>
            (case hash_password C params (as_bytes psk) salt of
               Inl e \<Rightarrow> Err (Msg (''derive key failed: '' @ e))
             | Inr key \<Rightarrow> Ok key)))"

definition client_psk2key :: "crypto \<Rightarrow> string \<Rightarrow> bytes \<Rightarrow> nat \<Rightarrow> bytes res" where
  "client_psk2key C psk salt memlimit =
     (if length salt \<noteq> SALT_LEN then Err (Msg ''invalid salt length'')
      else (let params = \<lparr>m_cost = of_nat (memlimit div 1024), t_cost = 2, p_cost = 1, output_len = Some KEYB\<rparr> in
        case params_error C params of
          Some e \<Rightarrow> Err (Msg (''argon2 params failed: '' @ e))
        | None \<Rightarrow>
            (case hash_password C params (as_bytes psk) salt of
               Inl e \<Rightarrow> Err (Msg (''derive key failed: '' @ e))
             | Inr key \<Rightarrow> Ok key)))"

section \<open>The server's packets\<close>

definition encrypt_packet ::
  "crypto \<Rightarrow> string \<Rightarrow> bytes \<Rightarrow> nat \<Rightarrow> i64 \<Rightarrow> bytes \<Rightarrow> bytes \<Rightarrow> (bytes \<times> bytes \<times> i64) res" where
  "encrypt_packet C psk payload memlimit ts salt nonce =
     res_bind (psk2key C psk salt memlimit) (\<lambda>key.
     let aad = salt @ to_be 8 ts in
     case aead_encrypt C key nonce payload aad of
       Inl e \<Rightarrow> Err (Msg (''encryption failed: '' @ e))
     | Inr ct \<Rightarrow> Ok (salt @ to_be 8 ts @ nonce @ ct, nonce, ts))"

definition decrypt_packet ::
  "crypto \<Rightarrow> string \<Rightarrow> bytes \<Rightarrow> nat \<Rightarrow> (bytes \<times> bytes \<times> i64) res" where
  "decrypt_packet C psk pkt_in memlimit =
     (if length pkt_in < MIN_LEN then Err (Msg ''short packet'')
      else (let salt = field 0 SALT_LEN pkt_in;
                ts_b = field SALT_LEN TS_LEN pkt_in;
                nonce = field (SALT_LEN + TS_LEN) NONCE_LEN pkt_in;
                ct = drop (SALT_LEN + TS_LEN + NONCE_LEN) pkt_in;
                ts = from_be ts_b
            in res_bind (psk2key C psk salt memlimit) (\<lambda>key.
               let aad = salt @ ts_b in
               case aead_decrypt C key nonce ct aad of
                 None \<Rightarrow> Err (Msg ''decrypt/auth fail'')
               | Some pt \<Rightarrow> Ok (pt, nonce, ts))))"

section \<open>The client's packets\<close>

datatype client_event =
    CInfo string
  | CError string
  | CUsage string             \<comment> \<open>\<open>print_client_usage(argv0)\<close>\<close>
  | CSend bytes SocketAddr
  | CSleep nat                \<comment> \<open>milliseconds\<close>

text \<open>The replay window of the run and what it has done.\<close>

record cstate =
  cs_win :: ClientReplayWindow
  cs_trace :: "client_event list"

definition cs_emit :: "client_event \<Rightarrow> cstate \<Rightarrow> cstate" where
  "cs_emit e st = st\<lparr>cs_trace := cs_trace st @ [e]\<rparr>"

text \<open>
  \<open>encrypt_and_send_packet\<close>: \<open>sendto\<close> is the error of \<open>send_to\<close>, if it fails. The value is
  \<open>*out_packet_len\<close>.
\<close>

definition encrypt_and_send_packet ::
  "crypto \<Rightarrow> string \<Rightarrow> bytes \<Rightarrow> nat \<Rightarrow> i64 \<Rightarrow> bytes \<Rightarrow> bytes \<Rightarrow> string option \<Rightarrow> SocketAddr \<Rightarrow>
     (cstate, nat) comp" where
  "encrypt_and_send_packet C psk payload memlimit ts salt nonce sendto cli st =
     (case client_psk2key C psk salt memlimit of
        Ok key \<Rightarrow>
          (let aad = salt @ to_be 8 ts in
           case aead_encrypt C key nonce payload aad of
             Inl e \<Rightarrow> (Err (Msg (''encryption failed: '' @ e)), st)
           | Inr ct \<Rightarrow>
               (let packet_len = SALT_LEN + TS_LEN + NONCE_LEN + length ct;
                    packet = salt @ to_be 8 ts @ nonce @ ct
                in case sendto of
                     Some e \<Rightarrow> (Err (Msg (''sendto: '' @ e)), st)
                   | None \<Rightarrow>
                       (let st = cs_emit (CSend packet cli) st;
                            (r, win) = client_replay_add ts nonce (cs_win st);
                            st = st\<lparr>cs_win := win\<rparr>
                        in (res_bind r (\<lambda>_. Ok packet_len), st))))
      | Err e \<Rightarrow> (Err e, st)
      | Panic \<Rightarrow> (Panic, st)
      | Blocked \<Rightarrow> (Blocked, st))"

definition decrypt_and_validate_packet ::
  "crypto \<Rightarrow> profile \<Rightarrow> bytes \<Rightarrow> string \<Rightarrow> SocketAddr \<Rightarrow> nat \<Rightarrow> i64 \<Rightarrow> (cstate, bytes) comp" where
  "decrypt_and_validate_packet C p pkt_in psk cli memlimit now st =
     (if length pkt_in < MIN_LEN then
        (Err (Msg ''short packet''),
         cs_emit (CError (''drop: short packet from '' @ client_addr_to_str cli)) st)
      else (let salt = field 0 SALT_LEN pkt_in;
                ts_b = field SALT_LEN TS_LEN pkt_in;
                nonce = field (SALT_LEN + TS_LEN) NONCE_LEN pkt_in;
                ct = drop (SALT_LEN + TS_LEN + NONCE_LEN) pkt_in;
                ts = from_be ts_b
            in case client_replay_check p now ts nonce (cs_win st) of
                 Ok (fresh, win) \<Rightarrow>
                   (let st = st\<lparr>cs_win := win\<rparr> in
                    if \<not> fresh then
                      (Err (Msg ''replay/window''),
                       cs_emit (CError (''drop: replay/window from '' @ client_addr_to_str cli)) st)
                    else (case client_psk2key C psk salt memlimit of
                        Ok key \<Rightarrow>
                          (let aad = salt @ ts_b in
                           case aead_decrypt C key nonce ct aad of
                             None \<Rightarrow>
                               (Err (Msg ''decrypt/auth fail''),
                                cs_emit (CError (''drop: decrypt/auth fail from '' @ client_addr_to_str cli)) st)
                           | Some pt \<Rightarrow>
                               (let (r, win) = client_replay_add ts nonce (cs_win st)
                                in (res_bind r (\<lambda>_. Ok pt), st\<lparr>cs_win := win\<rparr>)))
                      | Err e \<Rightarrow> (Err e, st)
                      | Panic \<Rightarrow> (Panic, st)
                      | Blocked \<Rightarrow> (Blocked, st)))
               | Err e \<Rightarrow> (Err e, st)
               | Panic \<Rightarrow> (Panic, st)
               | Blocked \<Rightarrow> (Blocked, st)))"

section \<open>Padding\<close>

function remove_padding :: "bytes \<Rightarrow> bytes" where
  "remove_padding pt =
     (if pt \<noteq> [] \<and> last pt = byte_of_char (CHR ''#'') then remove_padding (butlast pt) else pt)"
  by pat_completeness auto
termination
  by (relation "measure length") auto

declare remove_padding.simps [simp del]

definition client_remove_padding :: "bytes \<Rightarrow> bytes" where
  "client_remove_padding pt = (if pt = [] then pt else remove_padding pt)"

text \<open>\<open>build_padded_cmd\<close> with the random byte \<open>r\<close>; subtraction on \<^typ>\<open>nat\<close> is \<open>saturating_sub\<close>.\<close>

definition build_padded_cmd :: "string \<Rightarrow> u8 \<Rightarrow> bytes" where
  "build_padded_cmd script r =
     (let cmd = as_bytes script;
          pad_len = (if 0 < MAX_PT_SIZE then unat r mod 256 else 0);
          pad_len = (if length cmd + pad_len > MAX_PT_SIZE - 1
                     then MAX_PT_SIZE - 1 - length cmd else pad_len)
      in cmd @ replicate pad_len (byte_of_char (CHR ''#'')))"

text \<open>
  The padding of a response in \<open>process_packet\<close> with the random byte \<open>r\<close>. The last step pushes a
  byte and takes it off again.
\<close>

definition pad_response :: "bytes \<Rightarrow> u8 \<Rightarrow> bytes" where
  "pad_response resp r =
     (let resp =
        (if length resp < MAX_PT_SIZE - 2 then
           (let padding_len = unat r mod 256;
                padding_len = (if length resp + padding_len \<ge> MAX_PT_SIZE
                               then MAX_PT_SIZE - length resp - 1 else padding_len)
            in resp @ replicate padding_len (byte_of_char (CHR ''#'')))
         else resp)
      in if length resp < MAX_PT_SIZE then butlast (resp @ [0]) else resp)"

end
