(* ===== verification/Packet_Channel.thy ===== *)
theory Packet_Channel
  imports Packet
begin

text \<open>
  The interface between the program that seals a packet and the program that opens it
  (locale \<open>packet_codec\<close>), its interpretations on the model's functions for the commands, the
  responses and the server alone, and the properties of packets and padding.
\<close>

section \<open>The contract\<close>

locale packet_codec =
  fixes seal :: "crypto \<Rightarrow> string \<Rightarrow> nat \<Rightarrow> i64 \<Rightarrow> bytes \<Rightarrow> bytes \<Rightarrow> bytes \<Rightarrow> bytes res"
    and opn :: "crypto \<Rightarrow> string \<Rightarrow> nat \<Rightarrow> bytes \<Rightarrow> (bytes \<times> bytes \<times> i64) res"
  assumes seal_header:
      "seal C psk m ts salt nonce pt = Ok pkt \<Longrightarrow>
         \<exists>ct. pkt = salt @ to_be 8 ts @ nonce @ ct \<and> length salt = SALT_LEN \<and>
           (crypto_ok C \<longrightarrow> length ct = length pt + TAG)"
    and open_seal:
      "\<lbrakk>crypto_ok C; seal C psk m ts salt nonce pt = Ok pkt; length nonce = NONCE_LEN\<rbrakk> \<Longrightarrow>
         opn C psk m pkt = Ok (pt, nonce, ts)"
    and seal_open:
      "\<lbrakk>crypto_ok C; opn C psk m pkt = Ok (pt, nonce, ts)\<rbrakk> \<Longrightarrow>
         length nonce = NONCE_LEN \<and> (\<exists>salt. seal C psk m ts salt nonce pt = Ok pkt)"
begin

lemma seal_length:
  "\<lbrakk>crypto_ok C; seal C psk m ts salt nonce pt = Ok pkt; length nonce = NONCE_LEN\<rbrakk> \<Longrightarrow>
     length pkt = MIN_LEN + length pt"
  using seal_header [of C psk m ts salt nonce pt pkt] by (auto simp: MIN_LEN_def)

text \<open>The header of a packet that opens is the timestamp and the nonce it yields.\<close>

lemma open_header:
  assumes "crypto_ok C" "opn C psk m pkt = Ok (pt, nonce, ts)"
  shows "field SALT_LEN TS_LEN pkt = to_be 8 ts" and "field (SALT_LEN + TS_LEN) NONCE_LEN pkt = nonce"
    and "length pkt = MIN_LEN + length pt"
proof -
  obtain salt where n: "length nonce = NONCE_LEN" and s: "seal C psk m ts salt nonce pt = Ok pkt"
    using seal_open [OF assms] by blast
  obtain ct where pkt: "pkt = salt @ to_be 8 ts @ nonce @ ct" "length salt = SALT_LEN"
    using seal_header [OF s] by blast
  show "field SALT_LEN TS_LEN pkt = to_be 8 ts" "field (SALT_LEN + TS_LEN) NONCE_LEN pkt = nonce"
    using pkt n by (simp_all add: codec_simps)
  show "length pkt = MIN_LEN + length pt"
    by (rule seal_length [OF assms(1) s n])
qed

text \<open>Two packets that open to the same timestamp and nonce under one salt are the same packet
  or carry different messages.\<close>

lemma open_injective:
  assumes "crypto_ok C" "opn C psk m pkt = Ok (pt, nonce, ts)" "opn C psk m pkt' = Ok (pt, nonce, ts)"
    and "take SALT_LEN pkt = take SALT_LEN pkt'"
  shows "pkt = pkt'"
proof -
  obtain salt salt' where s: "seal C psk m ts salt nonce pt = Ok pkt" "seal C psk m ts salt' nonce pt = Ok pkt'"
    using seal_open [OF assms(1,2)] seal_open [OF assms(1,3)] by blast
  then have "take SALT_LEN pkt = salt" "take SALT_LEN pkt' = salt'"
    using seal_header [OF s(1)] seal_header [OF s(2)] by auto
  with assms(4) s show ?thesis by simp
qed

end

section \<open>The functions of the two programs\<close>

definition server_seal :: "crypto \<Rightarrow> string \<Rightarrow> nat \<Rightarrow> i64 \<Rightarrow> bytes \<Rightarrow> bytes \<Rightarrow> bytes \<Rightarrow> bytes res" where
  "server_seal C psk m ts salt nonce pt = map_res fst (encrypt_packet C psk pt m ts salt nonce)"

definition server_open :: "crypto \<Rightarrow> string \<Rightarrow> nat \<Rightarrow> bytes \<Rightarrow> (bytes \<times> bytes \<times> i64) res" where
  "server_open C psk m pkt = decrypt_packet C psk pkt m"

text \<open>The client's two functions without their replay window.\<close>

definition client_seal :: "crypto \<Rightarrow> string \<Rightarrow> nat \<Rightarrow> i64 \<Rightarrow> bytes \<Rightarrow> bytes \<Rightarrow> bytes \<Rightarrow> bytes res" where
  "client_seal C psk m ts salt nonce pt =
     res_bind (client_psk2key C psk salt m) (\<lambda>key.
     case aead_encrypt C key nonce pt (salt @ to_be 8 ts) of
       Inl e \<Rightarrow> Err (Msg (''encryption failed: '' @ e))
     | Inr ct \<Rightarrow> Ok (salt @ to_be 8 ts @ nonce @ ct))"

definition client_open :: "crypto \<Rightarrow> string \<Rightarrow> nat \<Rightarrow> bytes \<Rightarrow> (bytes \<times> bytes \<times> i64) res" where
  "client_open C psk m pkt =
     (if length pkt < MIN_LEN then Err (Msg ''short packet'')
      else res_bind (client_psk2key C psk (field 0 SALT_LEN pkt) m) (\<lambda>key.
        case aead_decrypt C key (field (SALT_LEN + TS_LEN) NONCE_LEN pkt)
               (drop (SALT_LEN + TS_LEN + NONCE_LEN) pkt) (field 0 SALT_LEN pkt @ field SALT_LEN TS_LEN pkt) of
          None \<Rightarrow> Err (Msg ''decrypt/auth fail'')
        | Some pt \<Rightarrow>
            Ok (pt, field (SALT_LEN + TS_LEN) NONCE_LEN pkt, from_be (field SALT_LEN TS_LEN pkt))))"

lemma client_psk2key_eq: "client_psk2key = psk2key"
  by (intro ext) (simp add: client_psk2key_def psk2key_def)

lemma client_seal_eq: "client_seal = server_seal"
proof (intro ext)
  fix C psk m ts salt nonce pt
  show "client_seal C psk m ts salt nonce pt = server_seal C psk m ts salt nonce pt"
    by (cases "psk2key C psk salt m")
      (simp_all add: client_seal_def server_seal_def encrypt_packet_def client_psk2key_eq Let_def split: sum.split)
qed

lemma client_open_eq: "client_open = server_open"
  unfolding client_open_def [abs_def] server_open_def [abs_def] decrypt_packet_def client_psk2key_eq Let_def
  by (rule refl)

lemma encrypt_and_send_eq:
  "encrypt_and_send_packet C psk payload m ts salt nonce sendto cli st =
     (case client_seal C psk m ts salt nonce payload of
        Ok pkt \<Rightarrow>
          (case sendto of
             Some e \<Rightarrow> (Err (Msg (''sendto: '' @ e)), st)
           | None \<Rightarrow> (Ok (SALT_LEN + TS_LEN + NONCE_LEN + (length pkt - (length salt + 8 + length nonce))),
               cs_emit (CSend pkt cli) st\<lparr>cs_win := client_add_state ts nonce (cs_win st)\<rparr>))
      | Err e \<Rightarrow> (Err e, st) | Panic \<Rightarrow> (Panic, st) | Blocked \<Rightarrow> (Blocked, st))"
  by (cases "client_psk2key C psk salt m")
    (auto simp: encrypt_and_send_packet_def client_seal_def cs_emit_def Let_def client_add_state_def
      client_replay_add_def split: sum.split option.split)

lemma decrypt_and_validate_eq:
  assumes "client_open C psk m pkt = Ok (pt, nonce, ts)"
    and "client_replay_check p now ts nonce (cs_win st) = Ok (True, win)"
  shows "decrypt_and_validate_packet C p pkt psk cli m now st =
    (Ok pt, st\<lparr>cs_win := client_add_state ts nonce win\<rparr>)"
proof -
  have len: "\<not> length pkt < MIN_LEN"
    using assms(1) by (auto simp: client_open_def)
  then obtain key where key: "client_psk2key C psk (field 0 16 pkt) m = Ok key"
    using assms(1) by (auto simp: client_open_def res_bind_Ok_iff)
  with assms(1) len have d: "aead_decrypt C key (field 24 24 pkt) (drop 48 pkt) (field 0 16 pkt @ field 16 8 pkt) = Some pt"
    and n: "nonce = field 24 24 pkt" "ts = from_be (field 16 8 pkt)"
    by (auto simp: client_open_def split: option.splits)
  from assms(2) len key d show ?thesis
    by (simp add: decrypt_and_validate_packet_def n Let_def client_add_state_def client_replay_add_def)
qed

section \<open>The contract holds\<close>

lemma crypto_ok_encrypt:
  "crypto_ok C \<Longrightarrow> aead_encrypt C key nonce msg aad = Inr ct \<Longrightarrow>
     aead_decrypt C key nonce ct aad = Some msg \<and> length ct = length msg + 16"
  unfolding crypto_ok_def TAG_def by blast

lemma crypto_ok_decrypt:
  "crypto_ok C \<Longrightarrow> aead_decrypt C key nonce ct aad = Some msg \<Longrightarrow>
     aead_encrypt C key nonce msg aad = Inr ct"
  unfolding crypto_ok_def by blast

lemma server_seal_Ok_iff:
  "server_seal C psk m ts salt nonce pt = Ok pkt \<longleftrightarrow>
     (\<exists>key ct. psk2key C psk salt m = Ok key \<and>
        aead_encrypt C key nonce pt (salt @ to_be 8 ts) = Inr ct \<and> pkt = salt @ to_be 8 ts @ nonce @ ct)"
  by (cases "psk2key C psk salt m") (auto simp: server_seal_def encrypt_packet_def Let_def split: sum.split)

lemma encrypt_packet_pair:
  "encrypt_packet C psk pt m ts salt nonce = Ok (pkt, nonce', ts') \<Longrightarrow> nonce' = nonce \<and> ts' = ts"
  by (cases "psk2key C psk salt m") (auto simp: encrypt_packet_def Let_def split: sum.splits)

lemma server_seal_encrypt:
  "server_seal C psk m ts salt nonce pt = Ok pkt \<Longrightarrow>
     encrypt_packet C psk pt m ts salt nonce = Ok (pkt, nonce, ts)"
  by (auto simp: server_seal_Ok_iff encrypt_packet_def Let_def)

lemma server_seal_of_encrypt:
  "encrypt_packet C psk pt m ts salt nonce = Ok (pkt, nonce', ts') \<Longrightarrow>
     server_seal C psk m ts salt nonce pt = Ok pkt"
  by (simp add: server_seal_def)

lemma psk2key_salt: "psk2key C psk salt m = Ok key \<Longrightarrow> length salt = 16"
  by (auto simp: psk2key_def split: if_splits)

lemma decrypt_packet_Ok_iff:
  "decrypt_packet C psk pkt m = Ok (pt, nonce, ts) \<longleftrightarrow>
     MIN_LEN \<le> length pkt \<and> nonce = field 24 24 pkt \<and> ts = from_be (field 16 8 pkt) \<and>
     (\<exists>key. psk2key C psk (field 0 16 pkt) m = Ok key \<and>
        aead_decrypt C key nonce (drop 48 pkt) (field 0 16 pkt @ field 16 8 pkt) = Some pt)"
  by (auto simp: decrypt_packet_def Let_def res_bind_Ok_iff not_less split: option.splits)

lemma packet_parts:
  assumes "MIN_LEN \<le> length pkt"
  shows "pkt = field 0 16 pkt @ to_be 8 (from_be (field 16 8 pkt) :: i64) @ field 24 24 pkt @ drop 48 pkt"
proof -
  have l: "64 \<le> length pkt"
    using assms by (simp add: MIN_LEN_def)
  have ts: "to_be 8 (from_be (field 16 8 pkt) :: i64) = field 16 8 pkt"
    using l by (simp add: codec_simps)
  have "field 0 16 pkt @ field 16 8 pkt @ field 24 24 pkt = field 0 48 pkt"
    using field_append_field [of 0 16 pkt 8] field_append_field [of 0 24 pkt 24]
    by (simp flip: append_assoc)
  then have "(field 0 16 pkt @ field 16 8 pkt @ field 24 24 pkt) @ drop 48 pkt = pkt"
    by (simp add: field_def)
  then show ?thesis
    unfolding ts by simp
qed

interpretation server_codec: packet_codec server_seal server_open
proof
  fix C psk m ts salt nonce pt pkt
  show "\<exists>ct. pkt = salt @ to_be 8 ts @ nonce @ ct \<and> length salt = SALT_LEN \<and>
      (crypto_ok C \<longrightarrow> length ct = length pt + TAG)"
    if s: "server_seal C psk m ts salt nonce pt = Ok pkt"
  proof -
    obtain key ct where "psk2key C psk salt m = Ok key"
      and e: "aead_encrypt C key nonce pt (salt @ to_be 8 ts) = Inr ct"
      and "pkt = salt @ to_be 8 ts @ nonce @ ct"
      using s by (auto simp: server_seal_Ok_iff)
    moreover have "crypto_ok C \<longrightarrow> length ct = length pt + TAG"
      using crypto_ok_encrypt [OF _ e] by simp
    ultimately show ?thesis
      using psk2key_salt [of C psk salt m key] by simp
  qed
  show "server_open C psk m pkt = Ok (pt, nonce, ts)"
    if ok: "crypto_ok C" and s: "server_seal C psk m ts salt nonce pt = Ok pkt" and n: "length nonce = NONCE_LEN"
  proof -
    obtain key ct where k: "psk2key C psk salt m = Ok key"
      and e: "aead_encrypt C key nonce pt (salt @ to_be 8 ts) = Inr ct"
      and pkt: "pkt = salt @ to_be 8 ts @ nonce @ ct"
      using s by (auto simp: server_seal_Ok_iff)
    have d: "aead_decrypt C key nonce ct (salt @ to_be 8 ts) = Some pt" "length ct = length pt + 16"
      using crypto_ok_encrypt [OF ok e] by simp_all
    have l: "length salt = 16" by (rule psk2key_salt [OF k])
    with n k d show ?thesis
      by (simp add: server_open_def decrypt_packet_Ok_iff pkt MIN_LEN_def codec_simps)
  qed
  show "length nonce = NONCE_LEN \<and> (\<exists>salt. server_seal C psk m ts salt nonce pt = Ok pkt)"
    if ok: "crypto_ok C" and o: "server_open C psk m pkt = Ok (pt, nonce, ts)"
  proof
    obtain key where d: "MIN_LEN \<le> length pkt" "nonce = field 24 24 pkt" "ts = from_be (field 16 8 pkt)"
      "psk2key C psk (field 0 16 pkt) m = Ok key"
      "aead_decrypt C key nonce (drop 48 pkt) (field 0 16 pkt @ field 16 8 pkt) = Some pt"
      using o by (auto simp: server_open_def decrypt_packet_Ok_iff)
    then show "length nonce = NONCE_LEN"
      by (simp add: MIN_LEN_def codec_simps)
    have e: "aead_encrypt C key nonce pt (field 0 16 pkt @ field 16 8 pkt) = Inr (drop 48 pkt)"
      by (rule crypto_ok_decrypt [OF ok d(5)])
    have "to_be 8 ts = field 16 8 pkt"
      using d(1) by (simp add: d(3) MIN_LEN_def codec_simps)
    with packet_parts [OF d(1)] d e have "server_seal C psk m ts (field 0 16 pkt) nonce pt = Ok pkt"
      by (auto simp: server_seal_Ok_iff)
    then show "\<exists>salt. server_seal C psk m ts salt nonce pt = Ok pkt" ..
  qed
qed

interpretation command_codec: packet_codec client_seal server_open
  unfolding client_seal_eq by (rule server_codec.packet_codec_axioms)

interpretation response_codec: packet_codec server_seal client_open
  unfolding client_open_eq by (rule server_codec.packet_codec_axioms)

section \<open>Padding\<close>

abbreviation hash_byte :: u8 where
  "hash_byte \<equiv> byte_of_char (CHR ''#'')"

lemma remove_padding_append:
  "remove_padding (pt @ replicate n hash_byte) = remove_padding pt"
proof (induction n)
  case 0
  then show ?case by simp
next
  case (Suc n)
  have "pt @ replicate (Suc n) hash_byte = (pt @ replicate n hash_byte) @ [hash_byte]"
    by (simp flip: replicate_append_same)
  have "remove_padding (pt @ replicate (Suc n) hash_byte) = remove_padding (pt @ replicate n hash_byte)"
    unfolding \<open>pt @ replicate (Suc n) hash_byte = _\<close> by (subst remove_padding.simps) (simp add: butlast_append)
  with Suc show ?case
    by simp
qed

lemma remove_padding_id: "pt = [] \<or> last pt \<noteq> hash_byte \<Longrightarrow> remove_padding pt = pt"
  by (subst remove_padding.simps) auto

lemma remove_padding_prefix: "\<exists>n. pt = remove_padding pt @ replicate n hash_byte"
proof (induction pt rule: remove_padding.induct)
  case (1 pt)
  show ?case
  proof (cases "pt \<noteq> [] \<and> last pt = hash_byte")
    case True
    then obtain n where "butlast pt = remove_padding (butlast pt) @ replicate n hash_byte"
      using 1 by auto
    then have "pt = remove_padding (butlast pt) @ replicate (Suc n) hash_byte"
      using True by (metis append_assoc append_butlast_last_id replicate_Suc replicate_append_same)
    moreover have "remove_padding pt = remove_padding (butlast pt)"
      using True by (subst remove_padding.simps) simp
    ultimately show ?thesis by metis
  next
    case False
    then have "remove_padding pt = pt"
      by (intro remove_padding_id) blast
    then show ?thesis
      by (intro exI [of _ 0]) simp
  qed
qed

lemma client_remove_padding_eq: "client_remove_padding = remove_padding"
  by (rule ext) (simp add: client_remove_padding_def remove_padding.simps)

lemma pad_response_eq: "\<exists>n. pad_response resp r = resp @ replicate n hash_byte"
proof -
  have "resp = resp @ replicate 0 hash_byte" by simp
  then show ?thesis
    unfolding pad_response_def Let_def butlast_snoc if_cancel by metis
qed

lemma length_pad_response: "length (pad_response resp r) \<le> max (length resp) (MAX_PT_SIZE - 1)"
  by (auto simp: pad_response_def Let_def MAX_PT_SIZE_def)

lemma length_build_padded_cmd:
  "length (build_padded_cmd script r) = max (length script) (min (length script + unat r) (MAX_PT_SIZE - 1))"
proof -
  have "unat r mod 256 = unat r"
    using unsigned_less [of r, where 'a = nat] by simp
  then show ?thesis
    by (auto simp: build_padded_cmd_def Let_def MAX_PT_SIZE_def)
qed

section \<open>A cipher to evaluate with\<close>

text \<open>
  A key made of password and salt, and a message in the clear behind which the key is the tag:
  enough to run the programs on, and it satisfies \<open>crypto_ok\<close>.
\<close>

definition sample_tag :: "bytes \<Rightarrow> bytes" where
  "sample_tag key = take 16 (key @ replicate 16 0)"

definition sample_crypto :: crypto where
  "sample_crypto =
     \<lparr>params_error = (\<lambda>_. None),
      hash_password = (\<lambda>_ psk salt. Inr (take 32 (psk @ salt @ replicate 32 0))),
      aead_encrypt = (\<lambda>key nonce msg aad. Inr (msg @ sample_tag key)),
      aead_decrypt = (\<lambda>key nonce ct aad.
        if 16 \<le> length ct \<and> drop (length ct - 16) ct = sample_tag key
        then Some (take (length ct - 16) ct) else None)\<rparr>"

lemma sample_crypto_ok: "crypto_ok sample_crypto"
proof -
  have l: "length (sample_tag key) = 16" for key
    by (simp add: sample_tag_def)
  show ?thesis
    unfolding crypto_ok_def
    by (auto simp: sample_crypto_def l split: if_splits) (metis append_take_drop_id)
qed

section \<open>Properties\<close>

text \<open>
  C26. A command travels: what the client sends is one datagram to the server's address, 64
  bytes longer than the payload, which the server's \<open>decrypt_packet\<close> opens under the same
  secret and memory limit to the payload, the nonce and the timestamp the client recorded in
  its own window.
\<close>

theorem command_reaches_server:
  assumes "crypto_ok C" and "length nonce = NONCE_LEN"
    and "encrypt_and_send_packet C psk payload m ts salt nonce None cli st = (Ok n, st')"
  shows "\<exists>pkt. cs_trace st' = cs_trace st @ [CSend pkt cli] \<and>
    decrypt_packet C psk pkt m = Ok (payload, nonce, ts) \<and>
    n = length pkt \<and> length pkt = MIN_LEN + length payload \<and>
    (length pkt \<le> MAX_CT_SIZE \<longleftrightarrow> length payload \<le> MAX_PT_SIZE) \<and>
    cs_win st' = snd (client_replay_add ts nonce (cs_win st))"
proof -
  obtain pkt where s: "client_seal C psk m ts salt nonce payload = Ok pkt"
    using assms(3) by (cases "client_seal C psk m ts salt nonce payload") (auto simp: encrypt_and_send_eq)
  obtain ct where "pkt = salt @ to_be 8 ts @ nonce @ ct" "length salt = SALT_LEN"
    using command_codec.seal_header [OF s] by blast
  moreover have "decrypt_packet C psk pkt m = Ok (payload, nonce, ts)"
    using command_codec.open_seal [OF assms(1) s assms(2)] by (simp add: server_open_def)
  ultimately show ?thesis
    using assms(2,3) command_codec.seal_length [OF assms(1) s assms(2)] s
    by (intro exI [of _ pkt])
      (auto simp: encrypt_and_send_eq cs_emit_def client_add_state_def MAX_CT_SIZE_def MIN_LEN_def MAX_PT_SIZE_def)
qed

theorem command_reaches_server_witness:
  "\<exists>pkt. cs_trace (snd (encrypt_and_send_packet sample_crypto ''password'' [1, 2] 1024 100
        (replicate 16 5) (replicate 24 6) None (SockV4 [127, 0, 0, 1] 7000)
        \<lparr>cs_win = client_replay_init 30 1024, cs_trace = []\<rparr>)) = [CSend pkt (SockV4 [127, 0, 0, 1] 7000)] \<and>
     decrypt_packet sample_crypto ''password'' pkt 1024 = Ok ([1, 2], replicate 24 6, 100)"
proof -
  let ?r = "encrypt_and_send_packet sample_crypto ''password'' [1, 2] 1024 100
        (replicate 16 5) (replicate 24 6) None (SockV4 [127, 0, 0, 1] 7000)
        \<lparr>cs_win = client_replay_init 30 1024, cs_trace = []\<rparr>"
  have "length (replicate 24 6) = NONCE_LEN"
    by simp
  moreover have "?r = (Ok 66, snd ?r)"
    by (simp add: encrypt_and_send_packet_def client_psk2key_def sample_crypto_def sample_tag_def Let_def
        client_replay_add_def)
  ultimately show ?thesis
    using command_reaches_server [OF sample_crypto_ok, of "replicate 24 6" "''password''" "[1, 2]" 1024 100
        "replicate 16 5" "SockV4 [127, 0, 0, 1] 7000" "\<lparr>cs_win = client_replay_init 30 1024, cs_trace = []\<rparr>"
        66 "snd ?r"] by auto
qed

text \<open>
  A response travels: what the server's \<open>encrypt_packet\<close> makes, the client's
  \<open>decrypt_and_validate_packet\<close> opens to the payload when its replay window accepts the
  timestamp and nonce, and the pair is recorded then.
\<close>

theorem response_reaches_client:
  assumes "crypto_ok C" and "length nonce = NONCE_LEN"
    and "encrypt_packet C psk payload m ts salt nonce = Ok (pkt, nonce', ts')"
    and "client_replay_check p now ts nonce (cs_win st) = Ok (True, win)"
  shows "decrypt_and_validate_packet C p pkt psk cli m now st =
    (Ok payload, st\<lparr>cs_win := snd (client_replay_add ts nonce win)\<rparr>) \<and> nonce' = nonce \<and> ts' = ts"
proof -
  have s: "server_seal C psk m ts salt nonce payload = Ok pkt"
    using assms(3) by (simp add: server_seal_def)
  have "nonce' = nonce" "ts' = ts"
    using encrypt_packet_pair [OF assms(3)] by simp_all
  with decrypt_and_validate_eq [OF response_codec.open_seal [OF assms(1) s assms(2)] assms(4)]
  show ?thesis
    by (simp add: client_add_state_def)
qed

theorem response_reaches_client_witness:
  "\<exists>pkt. encrypt_packet sample_crypto ''password'' [111, 107] 1024 100 (replicate 16 5) (replicate 24 6) =
       Ok (pkt, replicate 24 6, 100) \<and>
     fst (decrypt_and_validate_packet sample_crypto Release pkt ''password'' (SockV4 [127, 0, 0, 1] 7000) 1024 101
       \<lparr>cs_win = client_replay_init 30 1024, cs_trace = []\<rparr>) = Ok [111, 107]"
proof -
  let ?st = "\<lparr>cs_win = client_replay_init 30 1024, cs_trace = []\<rparr>"
  obtain pkt where pkt: "encrypt_packet sample_crypto ''password'' [111, 107] 1024 100 (replicate 16 5) (replicate 24 6) =
       Ok (pkt, replicate 24 6, 100)"
    by (simp add: encrypt_packet_def psk2key_def sample_crypto_def sample_tag_def Let_def)
  have n: "length (replicate 24 (6 :: u8)) = NONCE_LEN"
    by simp
  have w: "client_replay_check Release 101 100 (replicate 24 6) (cs_win ?st) = Ok (True, cs_win ?st)"
    by (simp add: client_replay_init_def, code_simp)
  show ?thesis
    using response_reaches_client [OF sample_crypto_ok n pkt w, of "SockV4 [127, 0, 0, 1] 7000"] pkt by auto
qed

text \<open>
  C27. Only sealed packets open: whatever bytes arrive, \<open>decrypt_packet\<close> yields a command only
  for a packet that \<open>encrypt_packet\<close> makes from that command, timestamp and nonce under the
  same secret and some salt. So a packet whose timestamp or nonce was changed on the way does
  not yield its command with the changed pair, and one that is too short never opens.
\<close>

theorem only_sealed_packets_open:
  assumes "crypto_ok C" and "decrypt_packet C psk pkt m = Ok (pt, nonce, ts)"
  shows "(\<exists>salt. encrypt_packet C psk pt m ts salt nonce = Ok (pkt, nonce, ts)) \<and>
    field SALT_LEN TS_LEN pkt = to_be 8 ts \<and> field (SALT_LEN + TS_LEN) NONCE_LEN pkt = nonce \<and>
    length pkt = MIN_LEN + length pt"
proof -
  have o: "server_open C psk m pkt = Ok (pt, nonce, ts)"
    using assms(2) by (simp add: server_open_def)
  obtain salt where "server_seal C psk m ts salt nonce pt = Ok pkt"
    using server_codec.seal_open [OF assms(1) o] by blast
  then have "encrypt_packet C psk pt m ts salt nonce = Ok (pkt, nonce, ts)"
    by (rule server_seal_encrypt)
  with server_codec.open_header [OF assms(1) o] show ?thesis by blast
qed

theorem only_sealed_packets_open_witness:
  "\<exists>salt. encrypt_packet sample_crypto ''password'' [7] 1024 0 salt (replicate 24 2) =
     Ok (replicate 16 1 @ replicate 8 0 @ replicate 24 2 @ [7] @ as_bytes ''password'' @ replicate 8 1, replicate 24 2, 0)"
proof -
  have "decrypt_packet sample_crypto ''password''
      (replicate 16 1 @ replicate 8 0 @ replicate 24 2 @ [7] @ as_bytes ''password'' @ replicate 8 1) 1024 =
      Ok ([7], replicate 24 2, 0)"
    by code_simp
  from only_sealed_packets_open [OF sample_crypto_ok this] show ?thesis by blast
qed

text \<open>
  C34. Padding: the padded command fits the plaintext limit when the script does, and removing
  the padding, in either program, gives the script without its trailing hash signs, so the
  script itself when it does not end with one.
\<close>

theorem padding_round_trip:
  "remove_padding (build_padded_cmd script r) = remove_padding (as_bytes script) \<and>
   (script = [] \<or> last script \<noteq> CHR ''#'' \<longrightarrow> remove_padding (build_padded_cmd script r) = as_bytes script) \<and>
   (length script < MAX_PT_SIZE \<longrightarrow> length (build_padded_cmd script r) < MAX_PT_SIZE) \<and>
   client_remove_padding (pad_response resp r) = client_remove_padding resp \<and>
   length (pad_response resp r) \<le> max (length resp) (MAX_PT_SIZE - 1)"
proof -
  have cmd: "remove_padding (build_padded_cmd script r) = remove_padding (as_bytes script)"
    by (simp add: build_padded_cmd_def Let_def remove_padding_append)
  have "last (as_bytes script) = byte_of_char (last script)" if "script \<noteq> []"
    using that by (simp add: as_bytes_def last_map)
  then have "script = [] \<or> last script \<noteq> CHR ''#'' \<longrightarrow> remove_padding (as_bytes script) = as_bytes script"
    by (intro impI remove_padding_id) auto
  moreover have "client_remove_padding (pad_response resp r) = client_remove_padding resp"
    using pad_response_eq [of resp r] by (auto simp: client_remove_padding_eq remove_padding_append)
  ultimately show ?thesis
    using cmd length_pad_response [of resp r]
    by (auto simp: length_build_padded_cmd MAX_PT_SIZE_def)
qed

theorem padding_round_trip_witness:
  "remove_padding (build_padded_cmd ''status'' 77) = as_bytes ''status''"
proof -
  have "last ''status'' \<noteq> CHR ''#''"
    by simp
  with padding_round_trip [of "''status''" 77 "[]"] show ?thesis
    by blast
qed

end
