(* ===== verification/F64.thy ===== *)
theory F64
  imports Prelude Complex_Main
begin

text \<open>
  The \<open>f64\<close> arithmetic of the rate limiter: addition, subtraction and multiplication of
  rationals rounded to the nearest number with 53 significant bits, ties to even.
  The values that occur are zero or between \<open>2 ^ -60\<close> and \<open>2 ^ 70\<close>, so the exponent range of
  the format plays no part and there is no infinity and no NaN.
\<close>

section \<open>Rounding\<close>

function bit_length :: "int \<Rightarrow> nat" where
  "bit_length n = (if n \<le> 0 then 0 else Suc (bit_length (n div 2)))"
  by pat_completeness auto
termination
  by (relation "measure nat") auto

declare bit_length.simps [simp del]

text \<open>The integer nearest to \<open>n / d\<close>, the even one of two.\<close>

definition round_even :: "int \<Rightarrow> int \<Rightarrow> int" where
  "round_even n d =
     (let q = n div d; r = n mod d in
      if 2 * r < d \<or> (2 * r = d \<and> even q) then q else q + 1)"

text \<open>
  A positive \<open>n / d\<close> is scaled by a power of two so that it lies between \<open>2 ^ 52\<close> and
  \<open>2 ^ 53\<close>: \<open>k\<close> is the exponent, one less when the first guess is too large.
\<close>

definition round_pos :: "int \<Rightarrow> int \<Rightarrow> rat" where
  "round_pos n d =
     (let k = 52 + int (bit_length d) - int (bit_length n);
          up = (\<lambda>k. (n * 2 ^ nat k, d * 2 ^ nat (- k)));
          (a, b) = up k;
          k' = (if b * 2 ^ 52 \<le> a then k else k + 1);
          (a', b') = up k'
      in of_int (round_even a' b') * 2 ^ nat (- k') / 2 ^ nat k')"

definition rnd :: "rat \<Rightarrow> rat" where
  "rnd x =
     (case quotient_of x of (n, d) \<Rightarrow>
        if n = 0 then 0 else if 0 < n then round_pos n d else - round_pos (- n) d)"

definition f64_add :: "rat \<Rightarrow> rat \<Rightarrow> rat" where "f64_add x y = rnd (x + y)"
definition f64_sub :: "rat \<Rightarrow> rat \<Rightarrow> rat" where "f64_sub x y = rnd (x - y)"
definition f64_mul :: "rat \<Rightarrow> rat \<Rightarrow> rat" where "f64_mul x y = rnd (x * y)"
definition f64_div :: "rat \<Rightarrow> rat \<Rightarrow> rat" where "f64_div x y = rnd (x / y)"

text \<open>\<open>Duration::as_secs_f64\<close> of a duration in nanoseconds.\<close>

definition as_secs_f64 :: "int \<Rightarrow> rat" where
  "as_secs_f64 d =
     f64_add (rnd (of_int (d div 1000000000))) (f64_div (of_int (d mod 1000000000)) 1000000000)"

section \<open>The error of one rounding\<close>

definition ulp :: rat where "ulp = 1 / 2 ^ 53"

lemma bit_length_le: "0 < n \<Longrightarrow> 2 ^ bit_length n \<le> 2 * n \<and> n < 2 ^ bit_length n"
proof (induction n rule: bit_length.induct)
  case (1 n)
  show ?case
  proof (cases "n = 1")
    case True
    then show ?thesis
      by (simp add: bit_length.simps [of 1] bit_length.simps [of 0])
  next
    case False
    with 1 have IH: "2 ^ bit_length (n div 2) \<le> 2 * (n div 2)" "n div 2 < 2 ^ bit_length (n div 2)"
      by auto
    have "bit_length n = Suc (bit_length (n div 2))"
      using "1.prems" by (subst bit_length.simps) simp
    with IH show ?thesis by auto
  qed
qed

lemma round_even_error:
  assumes "0 < d"
  shows "\<bar>2 * (round_even n d * d - n)\<bar> \<le> d"
proof -
  define q r where "q = n div d" and "r = n mod d"
  have n: "n = q * d + r" and r: "0 \<le> r" "r < d"
    using assms by (simp_all add: q_def r_def)
  have "round_even n d = (if 2 * r < d \<or> (2 * r = d \<and> even q) then q else q + 1)"
    by (simp add: round_even_def Let_def q_def r_def)
  then have "(round_even n d * d - n = - r \<and> 2 * r \<le> d) \<or> (round_even n d * d - n = d - r \<and> d \<le> 2 * r)"
    by (simp add: n algebra_simps)
  with r show ?thesis by auto
qed

lemma scale_powi: "(2 :: rat) ^ nat k / 2 ^ nat (- k) = 2 powi k"
  by (cases "0 \<le> k") (simp_all add: power_int_def field_simps)

lemma scaled_round_error:
  fixes k :: int
  assumes "0 < n" "0 < d" and "2 ^ 52 \<le> (of_int n / of_int d :: rat) * 2 powi k"
  shows "\<bar>of_int (round_even (n * 2 ^ nat k) (d * 2 ^ nat (- k))) * 2 ^ nat (- k) / 2 ^ nat k
            - (of_int n / of_int d :: rat)\<bar> \<le> (of_int n / of_int d) * ulp"
proof -
  define a b where "a = n * 2 ^ nat k" and "b = d * 2 ^ nat (- k)"
  define s :: rat where "s = 2 powi k"
  define x :: rat where "x = of_int n / of_int d"
  define R where "R = round_even a b"
  have b: "0 < b" and s: "0 < s" and x: "0 < x"
    using assms by (simp_all add: b_def s_def x_def)
  have ab: "of_int a / of_int b = x * s"
    unfolding a_def b_def x_def s_def scale_powi [symmetric] by (simp add: field_simps)
  have "\<bar>2 * (R * b - a)\<bar> \<le> b"
    unfolding R_def by (rule round_even_error [OF b])
  then have "\<bar>2 * (of_int R * of_int b - of_int a)\<bar> \<le> (of_int b :: rat)"
    by (metis of_int_abs of_int_diff of_int_le_iff of_int_mult of_int_numeral)
  then have "\<bar>2 * (of_int R - x * s)\<bar> \<le> 1"
    using b unfolding ab [symmetric] by (simp add: field_simps abs_if split: if_splits)
  also have "1 \<le> 2 * (x * s * ulp)"
    using assms(3) unfolding x_def [symmetric] s_def [symmetric] ulp_def by (simp add: field_simps)
  finally have e: "\<bar>of_int R - x * s\<bar> \<le> x * s * ulp"
    by (simp add: abs_mult flip: mult.assoc)
  have "of_int R * 2 ^ nat (- k) / 2 ^ nat k - x = (of_int R - x * s) / s"
    using s unfolding s_def scale_powi [symmetric] by (simp add: field_simps)
  then have "\<bar>of_int R * 2 ^ nat (- k) / 2 ^ nat k - x\<bar> = \<bar>of_int R - x * s\<bar> / s"
    using s by simp
  also have "\<dots> \<le> x * s * ulp / s"
    using divide_right_mono [OF e, of s] s by simp
  finally show ?thesis
    using s by (simp add: R_def a_def b_def x_def)
qed

lemma first_guess:
  assumes "0 < n" "0 < d"
  shows "2 ^ 51 \<le> (of_int n / of_int d :: rat) * 2 powi (52 + int (bit_length d) - int (bit_length n))"
proof -
  have "2 ^ bit_length n \<le> (2 * of_int n :: rat)" "(of_int d :: rat) \<le> 2 ^ bit_length d"
    using bit_length_le [OF assms(1)] bit_length_le [OF assms(2)]
    by (metis of_int_le_iff of_int_mult of_int_numeral of_int_power,
        metis less_imp_le of_int_le_iff of_int_numeral of_int_power)
  then have "2 ^ bit_length n * of_int d \<le> (2 * of_int n) * (2 ^ bit_length d :: rat)"
    using assms by (intro mult_mono) simp_all
  then show ?thesis
    using assms by (simp add: power_int_diff power_int_add field_simps)
qed

lemma round_pos_error:
  assumes "0 < n" "0 < d"
  shows "\<bar>round_pos n d - of_int n / of_int d\<bar> \<le> (of_int n / of_int d) * ulp"
proof -
  define k where "k = 52 + int (bit_length d) - int (bit_length n)"
  define k' where "k' = (if d * 2 ^ nat (- k) * 2 ^ 52 \<le> n * 2 ^ nat k then k else k + 1)"
  have "2 ^ 52 \<le> (of_int n / of_int d :: rat) * 2 powi k'"
  proof (cases "d * 2 ^ nat (- k) * 2 ^ 52 \<le> n * 2 ^ nat k")
    case True
    then have "(of_int (d * 2 ^ nat (- k) * 2 ^ 52) :: rat) \<le> of_int (n * 2 ^ nat k)"
      by (simp only: of_int_le_iff)
    then have "(of_int d * 2 ^ nat (- k) * 2 ^ 52 :: rat) \<le> of_int n * 2 ^ nat k"
      by (simp only: of_int_mult of_int_power of_int_numeral)
    then have "(2 ^ 52 :: rat) \<le> of_int n / of_int d * (2 ^ nat k / 2 ^ nat (- k))"
      using assms by (simp add: field_simps)
    with True show ?thesis
      by (simp only: k'_def scale_powi if_True)
  next
    case False
    then have "(2 :: rat) powi k' = 2 * 2 powi k"
      by (simp add: k'_def power_int_add)
    then have "(of_int n / of_int d :: rat) * 2 powi k' = 2 * (of_int n / of_int d * 2 powi k)"
      by simp
    moreover have "(2 :: rat) ^ 52 = 2 * 2 ^ 51" by simp
    ultimately show ?thesis
      using first_guess [OF assms, folded k_def] by linarith
  qed
  from scaled_round_error [OF assms this] show ?thesis
    unfolding round_pos_def Let_def prod.case k_def [symmetric] k'_def [symmetric] .
qed

lemma rnd_error: "\<bar>rnd x - x\<bar> \<le> \<bar>x\<bar> * ulp"
proof -
  obtain n d where q: "quotient_of x = (n, d)" by (cases "quotient_of x")
  have x: "x = of_int n / of_int d" and d: "0 < d"
    using q by (auto simp: quotient_of_div quotient_of_denom_pos)
  have r: "rnd x = (if n = 0 then 0 else if 0 < n then round_pos n d else - round_pos (- n) d)"
    by (simp add: rnd_def q)
  consider "n = 0" | "0 < n" | "n < 0" by linarith
  then show ?thesis
  proof cases
    case 1
    with r show ?thesis by (simp add: x)
  next
    case 2
    with round_pos_error [OF 2 d] d r show ?thesis
      by (simp add: x)
  next
    case 3
    then have "0 < - n" by simp
    note e = round_pos_error [OF this d]
    have "rnd x - x = - (round_pos (- n) d - of_int (- n) / of_int d)" "\<bar>x\<bar> = of_int (- n) / of_int d"
      using r 3 d by (simp_all add: x)
    with e show ?thesis
      by (simp only: abs_minus_cancel)
  qed
qed

lemma rnd_nonneg:
  assumes "0 \<le> x"
  shows "0 \<le> rnd x" and "rnd x \<le> x * (1 + ulp)" and "x * (1 - ulp) \<le> rnd x"
proof -
  have e: "rnd x - x \<le> x * ulp" "x - rnd x \<le> x * ulp"
    using rnd_error [of x] assms by (simp_all add: abs_le_iff)
  then show "rnd x \<le> x * (1 + ulp)" "x * (1 - ulp) \<le> rnd x"
    by (simp_all add: algebra_simps)
  have "0 \<le> x * (1 - ulp)"
    using assms by (simp add: ulp_def)
  then show "0 \<le> rnd x"
    using e by (simp add: algebra_simps)
qed

lemma rnd_0 [simp]: "rnd 0 = 0"
  by (simp add: rnd_def)

end
