(* ===== verification/Rate_Limiter.thy ===== *)
theory Rate_Limiter
  imports F64 Net_Addr
begin

text \<open>
  \<open>struct AsyncRateLimiter\<close> of \<open>tuctl-server/src/main.rs\<close>: a token bucket for each IP address.
  An \<open>Instant\<close> is its distance in nanoseconds from a common origin, the \<open>HashMap\<close> a map.
  \<open>duration_since\<close> of a later instant is zero.
\<close>

section \<open>State and operations\<close>

record Bucket =
  tokens :: rat
  last_refill :: int
  last_seen :: int

record RateLimiter =
  rl_map :: "IpAddr \<Rightarrow> Bucket option"
  burst_tokens :: rat
  refill_rate :: rat
  idle_evict_sec :: u64

definition rate_limiter_new :: "rat \<Rightarrow> rat \<Rightarrow> u64 \<Rightarrow> RateLimiter" where
  "rate_limiter_new burst rate idle =
     \<lparr>rl_map = (\<lambda>_. None), burst_tokens = burst, refill_rate = rate, idle_evict_sec = idle\<rparr>"

definition duration_since :: "int \<Rightarrow> int \<Rightarrow> int" where
  "duration_since now earlier = max 0 (now - earlier)"

definition duration_as_secs :: "int \<Rightarrow> int" where
  "duration_as_secs d = d div 1000000000"

text \<open>\<open>map.retain(|_, v| now.duration_since(v.last_seen).as_secs() <= idle_evict_sec)\<close>.\<close>

definition retain_seen :: "int \<Rightarrow> u64 \<Rightarrow> (IpAddr \<Rightarrow> Bucket option) \<Rightarrow> IpAddr \<Rightarrow> Bucket option" where
  "retain_seen now idle m = (\<lambda>ip.
     case m ip of
       Some v \<Rightarrow> if duration_as_secs (duration_since now (last_seen v)) \<le> uint idle then Some v else None
     | None \<Rightarrow> None)"

definition allow :: "int \<Rightarrow> SocketAddr \<Rightarrow> RateLimiter \<Rightarrow> bool \<times> RateLimiter" where
  "allow now addr rl =
     (let ip = sock_ip addr;
          m = retain_seen now (idle_evict_sec rl) (rl_map rl);
          entry = (case m ip of
                     Some v \<Rightarrow> v
                   | None \<Rightarrow> \<lparr>tokens = burst_tokens rl, last_refill = now, last_seen = now\<rparr>);
          dt = as_secs_f64 (duration_since now (last_refill entry));
          entry =
            (if dt > 0 then
               (let t = f64_add (tokens entry) (f64_mul dt (refill_rate rl));
                    t = (if t > burst_tokens rl then burst_tokens rl else t)
                in entry\<lparr>tokens := t, last_refill := now\<rparr>)
             else entry);
          entry = entry\<lparr>last_seen := now\<rparr>
      in if tokens entry \<ge> 1 then
           (let entry = entry\<lparr>tokens := f64_sub (tokens entry) 1\<rparr>
            in (True, rl\<lparr>rl_map := m(ip := Some entry)\<rparr>))
         else (False, rl\<lparr>rl_map := m(ip := Some entry)\<rparr>))"

text \<open>Offers in order: each packet with its arrival time and sender.\<close>

fun allow_all :: "(int \<times> SocketAddr) list \<Rightarrow> RateLimiter \<Rightarrow> bool list" where
  "allow_all [] rl = []"
| "allow_all ((now, addr) # ps) rl =
     (case allow now addr rl of (b, rl') \<Rightarrow> b # allow_all ps rl')"

fun sorted_from :: "int \<Rightarrow> (int \<times> SocketAddr) list \<Rightarrow> bool" where
  "sorted_from t [] = True"
| "sorted_from t ((now, addr) # ps) = (t \<le> now \<and> sorted_from now ps)"

section \<open>One bucket\<close>

text \<open>
  \<open>allow\<close> looks at the sender's bucket only: \<open>current\<close> is that bucket when it is not too old,
  \<open>serve\<close> what the call makes of it.
\<close>

definition current :: "int \<Rightarrow> RateLimiter \<Rightarrow> IpAddr \<Rightarrow> Bucket" where
  "current now rl ip =
     (case retain_seen now (idle_evict_sec rl) (rl_map rl) ip of
        Some v \<Rightarrow> v
      | None \<Rightarrow> \<lparr>tokens = burst_tokens rl, last_refill = now, last_seen = now\<rparr>)"

definition refill :: "rat \<Rightarrow> rat \<Rightarrow> int \<Rightarrow> Bucket \<Rightarrow> rat" where
  "refill burst rate now e =
     (let dt = as_secs_f64 (duration_since now (last_refill e)) in
      if dt > 0 then min burst (f64_add (tokens e) (f64_mul dt rate)) else tokens e)"

definition serve :: "rat \<Rightarrow> rat \<Rightarrow> int \<Rightarrow> Bucket \<Rightarrow> bool \<times> Bucket" where
  "serve burst rate now e =
     (let t = refill burst rate now e;
          lr = (if as_secs_f64 (duration_since now (last_refill e)) > 0 then now else last_refill e)
      in (1 \<le> t, \<lparr>tokens = (if 1 \<le> t then f64_sub t 1 else t), last_refill = lr, last_seen = now\<rparr>))"

lemma allow_eq:
  "allow now addr rl =
     (let (b, e) = serve (burst_tokens rl) (refill_rate rl) now (current now rl (sock_ip addr))
      in (b, rl\<lparr>rl_map := (retain_seen now (idle_evict_sec rl) (rl_map rl))(sock_ip addr := Some e)\<rparr>))"
  by (cases "current now rl (sock_ip addr)")
    (simp add: allow_def serve_def refill_def Let_def current_def [symmetric] min_def)

fun allow_run :: "(int \<times> SocketAddr) list \<Rightarrow> RateLimiter \<Rightarrow> RateLimiter" where
  "allow_run [] rl = rl"
| "allow_run ((now, addr) # ps) rl = allow_run ps (snd (allow now addr rl))"

text \<open>The verdicts on one address.\<close>

definition verdicts :: "IpAddr \<Rightarrow> (int \<times> SocketAddr) list \<Rightarrow> RateLimiter \<Rightarrow> bool list" where
  "verdicts ip ps rl = map snd (filter (\<lambda>((now, addr), b). sock_ip addr = ip) (zip ps (allow_all ps rl)))"

lemma verdicts_simps [simp]:
  "verdicts ip [] rl = []"
  "verdicts ip ((now, addr) # ps) rl =
     (if sock_ip addr = ip then [fst (allow now addr rl)] else []) @ verdicts ip ps (snd (allow now addr rl))"
  by (simp_all add: verdicts_def split: prod.split)

section \<open>The other addresses\<close>

lemma allow_params [simp]:
  "burst_tokens (snd (allow now addr rl)) = burst_tokens rl"
  "refill_rate (snd (allow now addr rl)) = refill_rate rl"
  "idle_evict_sec (snd (allow now addr rl)) = idle_evict_sec rl"
  by (simp_all add: allow_eq Let_def split: prod.split)

lemma allow_map:
  "rl_map (snd (allow now addr rl)) =
     (retain_seen now (idle_evict_sec rl) (rl_map rl))
       (sock_ip addr := Some (snd (serve (burst_tokens rl) (refill_rate rl) now (current now rl (sock_ip addr)))))"
  by (simp add: allow_eq Let_def split: prod.split)

lemma fst_allow:
  "fst (allow now addr rl) = fst (serve (burst_tokens rl) (refill_rate rl) now (current now rl (sock_ip addr)))"
  by (simp add: allow_eq Let_def split: prod.split)

lemma retain_seen_retain:
  assumes "t \<le> now"
  shows "retain_seen now idle (retain_seen t idle m) ip = retain_seen now idle m ip"
proof -
  have "duration_since t x \<le> duration_since now x" for x
    using assms by (simp add: duration_since_def)
  then have "duration_as_secs (duration_since t x) \<le> duration_as_secs (duration_since now x)" for x
    unfolding duration_as_secs_def by (intro zdiv_mono1) simp_all
  then show ?thesis
    by (auto simp: retain_seen_def split: option.split) (meson order.trans)
qed

lemma current_other:
  assumes "sock_ip addr \<noteq> ip" "t \<le> now"
  shows "current now (snd (allow t addr rl)) ip = current now rl ip"
proof -
  have "retain_seen now (idle_evict_sec rl) (rl_map (snd (allow t addr rl))) ip =
      retain_seen now (idle_evict_sec rl) (retain_seen t (idle_evict_sec rl) (rl_map rl)) ip"
    using assms(1) by (simp add: allow_map retain_seen_def)
  then show ?thesis
    by (simp add: current_def retain_seen_retain [OF assms(2)] split: option.split)
qed

lemma current_cong:
  "rl_map rl ip = rl_map rl' ip \<Longrightarrow> burst_tokens rl = burst_tokens rl' \<Longrightarrow>
     idle_evict_sec rl = idle_evict_sec rl' \<Longrightarrow> current now rl ip = current now rl' ip"
  by (simp add: current_def retain_seen_def split: option.split)

text \<open>Two limiters that treat an address alike from a time on.\<close>

definition alike :: "int \<Rightarrow> IpAddr \<Rightarrow> RateLimiter \<Rightarrow> RateLimiter \<Rightarrow> bool" where
  "alike t ip rl rl' \<longleftrightarrow>
     burst_tokens rl = burst_tokens rl' \<and> refill_rate rl = refill_rate rl' \<and>
     idle_evict_sec rl = idle_evict_sec rl' \<and> (\<forall>now \<ge> t. current now rl ip = current now rl' ip)"

lemma alike_own:
  assumes "alike t ip rl rl'" "sock_ip addr = ip" "t \<le> now"
  shows "fst (allow now addr rl) = fst (allow now addr rl')"
    and "alike now ip (snd (allow now addr rl)) (snd (allow now addr rl'))"
proof -
  have c: "current now rl ip = current now rl' ip"
    using assms by (simp add: alike_def)
  with assms show "fst (allow now addr rl) = fst (allow now addr rl')"
    by (simp add: fst_allow alike_def)
  have "rl_map (snd (allow now addr rl)) ip = rl_map (snd (allow now addr rl')) ip"
    using assms c by (simp add: allow_map alike_def)
  then show "alike now ip (snd (allow now addr rl)) (snd (allow now addr rl'))"
    using assms(1) by (auto simp: alike_def intro: current_cong)
qed

lemma verdicts_alike:
  "alike t ip rl rl' \<Longrightarrow> sorted_from t ps \<Longrightarrow>
     verdicts ip ps rl = allow_all (filter (\<lambda>(now, addr). sock_ip addr = ip) ps) rl'"
proof (induction ps arbitrary: t rl rl')
  case Nil
  then show ?case by simp
next
  case (Cons a ps)
  obtain now addr where a: "a = (now, addr)" by (cases a)
  have t: "t \<le> now" and s: "sorted_from now ps"
    using Cons.prems by (simp_all add: a)
  show ?case
  proof (cases "sock_ip addr = ip")
    case True
    note own = alike_own [OF Cons.prems(1) True t]
    show ?thesis
      using Cons.IH [OF own(2) s] own(1) by (simp add: a True split: prod.split)
  next
    case False
    have "alike now ip (snd (allow now addr rl)) rl'"
      using Cons.prems(1) t by (simp add: alike_def current_other [OF False])
    from Cons.IH [OF this s] show ?thesis
      by (simp add: a False)
  qed
qed

section \<open>What a bucket can hold\<close>

definition secs :: "int \<Rightarrow> rat" where
  "secs d = of_int d / 1000000000"

lemma as_secs_f64_bounds:
  assumes "0 \<le> d"
  shows "0 \<le> as_secs_f64 d" "as_secs_f64 d \<le> secs d * (1 + ulp) ^ 2" "secs d * (1 - ulp) ^ 2 \<le> as_secs_f64 d"
proof -
  define a b where "a = (of_int (d div 1000000000) :: rat)"
    and "b = (of_int (d mod 1000000000) / 1000000000 :: rat)"
  have u: "0 \<le> ulp" "0 \<le> 1 - ulp"
    by (simp_all add: ulp_def)
  have nn: "0 \<le> a" "0 \<le> b"
    using assms by (simp_all add: a_def b_def pos_imp_zdiv_nonneg_iff)
  have "(of_int d :: rat) = of_int (1000000000 * (d div 1000000000) + d mod 1000000000)"
    by simp
  also have "\<dots> = 1000000000 * of_int (d div 1000000000) + of_int (d mod 1000000000)"
    by (simp only: of_int_add of_int_mult of_int_numeral)
  finally have sum: "a + b = secs d"
    unfolding secs_def a_def b_def by (simp add: add_divide_distrib)
  have s: "as_secs_f64 d = rnd (rnd a + rnd b)"
    by (simp add: as_secs_f64_def f64_add_def f64_div_def a_def b_def)
  have lo: "secs d * (1 - ulp) \<le> rnd a + rnd b" and hi: "rnd a + rnd b \<le> secs d * (1 + ulp)"
    using rnd_nonneg(2,3) [OF nn(1)] rnd_nonneg(2,3) [OF nn(2)]
    by (simp_all add: sum [symmetric] algebra_simps)
  have nn': "0 \<le> rnd a + rnd b"
    using rnd_nonneg(1) [OF nn(1)] rnd_nonneg(1) [OF nn(2)] by simp
  note r = rnd_nonneg [OF nn']
  show "0 \<le> as_secs_f64 d"
    using r(1) by (simp add: s)
  show "as_secs_f64 d \<le> secs d * (1 + ulp) ^ 2"
    unfolding s power2_eq_square mult.assoc [symmetric]
    by (rule order.trans [OF r(2) mult_right_mono [OF hi]]) (simp add: u)
  show "secs d * (1 - ulp) ^ 2 \<le> as_secs_f64 d"
    unfolding s power2_eq_square mult.assoc [symmetric]
    by (rule order.trans [OF mult_right_mono [OF lo] r(3)]) (rule u)
qed

lemma as_secs_f64_pos:
  assumes "0 < d"
  shows "0 < as_secs_f64 d"
proof -
  have "0 < secs d * (1 - ulp) ^ 2"
    using assms by (simp add: secs_def ulp_def)
  also have "\<dots> \<le> as_secs_f64 d"
    using assms by (intro as_secs_f64_bounds) simp
  finally show ?thesis .
qed

lemma as_secs_f64_0 [simp]: "as_secs_f64 0 = 0"
  by (simp add: as_secs_f64_def f64_add_def f64_div_def)

text \<open>The invariant of a bucket at time \<open>now\<close>.\<close>

definition bucket_ok :: "rat \<Rightarrow> int \<Rightarrow> Bucket \<Rightarrow> bool" where
  "bucket_ok burst now e \<longleftrightarrow>
     0 \<le> tokens e \<and> tokens e \<le> burst \<and> last_refill e = last_seen e \<and> last_seen e \<le> now"

lemma refill_eq:
  assumes "bucket_ok burst t e" "t \<le> now"
  shows "refill burst rate now e =
    (if last_seen e = now then tokens e
     else min burst (f64_add (tokens e) (f64_mul (as_secs_f64 (now - last_seen e)) rate)))"
  using assms as_secs_f64_pos [of "now - last_seen e"]
  by (auto simp: refill_def Let_def bucket_ok_def duration_since_def max_def)

lemma refill_bounds:
  assumes "bucket_ok burst t e" "t \<le> now" "0 \<le> rate"
  shows "0 \<le> refill burst rate now e" "refill burst rate now e \<le> burst"
    and "refill burst rate now e \<le> tokens e * (1 + ulp) + secs (now - last_seen e) * rate * (1 + ulp) ^ 4"
    and "last_seen e < now \<Longrightarrow>
      min burst (secs (now - last_seen e) * rate * (1 - ulp) ^ 4) \<le> refill burst rate now e"
proof -
  define s d x where "s = secs (now - last_seen e)" and "d = as_secs_f64 (now - last_seen e)"
    and "x = f64_mul d rate"
  have u: "0 \<le> ulp" "0 \<le> 1 - ulp"
    by (simp_all add: ulp_def)
  have e: "0 \<le> tokens e" "tokens e \<le> burst" "0 \<le> now - last_seen e"
    using assms by (simp_all add: bucket_ok_def)
  note b = as_secs_f64_bounds [OF e(3), folded s_def d_def]
  have s: "0 \<le> s"
    using e(3) by (simp add: s_def secs_def)
  have dr: "0 \<le> d * rate" using b(1) assms(3) by simp
  have x: "0 \<le> x" "x \<le> s * rate * (1 + ulp) ^ 3" "s * rate * (1 - ulp) ^ 3 \<le> x"
    using rnd_nonneg [OF dr] mult_right_mono [OF b(2), of "rate * (1 + ulp)"]
      mult_right_mono [OF b(3), of "rate * (1 - ulp)"] assms(3) u
    by (simp_all add: x_def f64_mul_def power2_eq_square power3_eq_cube mult.commute mult.left_commute)
  have tx: "0 \<le> tokens e + x" using e x by simp
  define r where "r = f64_add (tokens e) x"
  have r: "0 \<le> r" "r \<le> (tokens e + x) * (1 + ulp)" "(tokens e + x) * (1 - ulp) \<le> r"
    using rnd_nonneg [OF tx] by (simp_all add: r_def f64_add_def)
  have four: "y ^ 4 = y ^ 3 * y" for y :: rat
    by (simp add: power3_eq_cube eval_nat_numeral mult.assoc)
  have "(tokens e + x) * (1 + ulp) \<le> tokens e * (1 + ulp) + s * rate * (1 + ulp) ^ 4"
    using mult_right_mono [OF x(2), of "1 + ulp"] u by (simp add: four algebra_simps)
  with r have hi: "r \<le> tokens e * (1 + ulp) + s * rate * (1 + ulp) ^ 4" by linarith
  have "s * rate * (1 - ulp) ^ 4 \<le> (tokens e + x) * (1 - ulp)"
    using mult_right_mono [OF x(3), of "1 - ulp"] mult_nonneg_nonneg [OF e(1) u(2)] u
    by (simp add: four algebra_simps)
  with r have lo: "s * rate * (1 - ulp) ^ 4 \<le> r" by linarith
  have eq: "refill burst rate now e = (if last_seen e = now then tokens e else min burst r)"
    using refill_eq [OF assms(1,2)] by (simp add: r_def x_def d_def)
  have tu: "tokens e \<le> tokens e * (1 + ulp) + s * rate * (1 + ulp) ^ 4"
    using e u s assms(3) by (simp add: algebra_simps)
  show "0 \<le> refill burst rate now e" "refill burst rate now e \<le> burst"
    using eq e r by simp_all
  show "refill burst rate now e \<le> tokens e * (1 + ulp) + secs (now - last_seen e) * rate * (1 + ulp) ^ 4"
    using eq hi tu unfolding s_def [symmetric] by (auto simp: min_def split: if_splits)
  show "min burst (secs (now - last_seen e) * rate * (1 - ulp) ^ 4) \<le> refill burst rate now e"
    if "last_seen e < now"
    using eq lo that by (auto simp: s_def)
qed

section \<open>The level of a bucket over time\<close>

text \<open>
  An upper bound on what the bucket could give out at \<open>now\<close>, in tokens: what it holds and what
  time has added since, up to the burst. It grows with time at the rate and each grant takes
  one away, up to the rounding of two operations.
\<close>

definition growth :: "rat \<Rightarrow> int \<Rightarrow> rat" where
  "growth rate d = secs d * rate * (1 + ulp) ^ 4"

definition level_of :: "rat \<Rightarrow> rat \<Rightarrow> int \<Rightarrow> Bucket \<Rightarrow> rat" where
  "level_of burst rate now e = min burst (tokens e + growth rate (now - last_seen e))"

definition level :: "IpAddr \<Rightarrow> int \<Rightarrow> RateLimiter \<Rightarrow> rat" where
  "level ip now rl =
     (case rl_map rl ip of
        None \<Rightarrow> burst_tokens rl
      | Some e \<Rightarrow> level_of (burst_tokens rl) (refill_rate rl) now e)"

text \<open>
  The limiter's invariant. The parameters are as the server sets them: an idle bucket is full
  again before it is evicted.
\<close>

definition limiter_ok :: "int \<Rightarrow> RateLimiter \<Rightarrow> bool" where
  "limiter_ok now rl \<longleftrightarrow>
     1 \<le> burst_tokens rl \<and> burst_tokens rl \<le> 2 ^ 50 \<and> 0 \<le> refill_rate rl \<and>
     burst_tokens rl \<le> refill_rate rl * of_int (uint (idle_evict_sec rl) + 1) \<and>
     (\<forall>ip e. rl_map rl ip = Some e \<longrightarrow> bucket_ok (burst_tokens rl) now e)"

lemma growth_add: "growth rate (d + d') = growth rate d + growth rate d'"
  by (simp add: growth_def secs_def add_divide_distrib algebra_simps)

lemma growth_nonneg: "0 \<le> rate \<Longrightarrow> 0 \<le> d \<Longrightarrow> 0 \<le> growth rate d"
  by (simp add: growth_def secs_def ulp_def)

lemma bucket_ok_mono: "bucket_ok burst t e \<Longrightarrow> t \<le> now \<Longrightarrow> bucket_ok burst now e"
  by (simp add: bucket_ok_def)

lemma bucket_ok_new: "0 \<le> burst \<Longrightarrow> bucket_ok burst now \<lparr>tokens = burst, last_refill = now, last_seen = now\<rparr>"
  by (simp add: bucket_ok_def)

lemma serve_simps:
  assumes "bucket_ok burst t e" "t \<le> now"
  shows "fst (serve burst rate now e) \<longleftrightarrow> 1 \<le> refill burst rate now e"
    and "snd (serve burst rate now e) =
      \<lparr>tokens = (if 1 \<le> refill burst rate now e then f64_sub (refill burst rate now e) 1
                 else refill burst rate now e), last_refill = now, last_seen = now\<rparr>"
  using assms as_secs_f64_pos [of "now - last_seen e"]
  by (cases "last_seen e < now"; auto simp: serve_def Let_def bucket_ok_def duration_since_def max_def)+

lemma serve_ok:
  assumes "bucket_ok burst t e" "t \<le> now" "0 \<le> rate" "burst \<le> 2 ^ 50"
  shows "bucket_ok burst now (snd (serve burst rate now e))"
    and "level_of burst rate now (snd (serve burst rate now e)) + of_bool (fst (serve burst rate now e))
      \<le> level_of burst rate now e + 2 * burst * ulp"
proof -
  define r where "r = refill burst rate now e"
  note b = refill_bounds [OF assms(1-3), folded r_def]
  note s = serve_simps [OF assms(1,2), of rate, folded r_def]
  have burst: "0 \<le> burst"
    using assms(1) by (simp add: bucket_ok_def)
  have tb: "tokens e \<le> burst" "0 \<le> tokens e" "last_seen e \<le> now"
    using assms(1,2) by (simp_all add: bucket_ok_def)
  have u: "0 \<le> ulp" by (simp add: ulp_def)
  define g where "g = growth rate (now - last_seen e)"
  have "tokens e * ulp \<le> burst * ulp"
    using tb u by (intro mult_right_mono)
  moreover have "r \<le> tokens e + tokens e * ulp + g"
    using b(3) by (simp add: g_def growth_def algebra_simps)
  moreover have "0 \<le> burst * ulp"
    using burst u by simp
  ultimately have up: "r \<le> min burst (tokens e + g) + burst * ulp"
    using b(2) by (cases "burst \<le> tokens e + g") (simp_all add: min_def)
  have sub: "0 \<le> f64_sub r 1 \<and> f64_sub r 1 \<le> r - 1 + burst * ulp \<and> f64_sub r 1 \<le> burst" if "1 \<le> r"
  proof -
    have n: "0 \<le> r - 1" using that by simp
    have "(r - 1) * ulp \<le> burst * ulp"
      using b(2) u by (intro mult_right_mono) simp_all
    moreover have "burst * ulp \<le> 1"
      using assms(4) by (simp add: ulp_def field_simps)
    ultimately show ?thesis
      using rnd_nonneg [OF n] b(2) by (simp add: f64_sub_def algebra_simps)
  qed
  show "bucket_ok burst now (snd (serve burst rate now e))"
    using sub b s by (simp add: bucket_ok_def)
  have g0: "growth rate 0 = 0"
    by (simp add: growth_def secs_def)
  have two: "2 * burst * ulp = burst * ulp + burst * ulp" "0 \<le> burst * ulp"
    using burst u by simp_all
  have "level_of burst rate now (snd (serve burst rate now e)) + of_bool (fst (serve burst rate now e))
      \<le> r + burst * ulp"
  proof (cases "1 \<le> r")
    case True
    with s sub [OF True] show ?thesis by (simp add: level_of_def g0)
  next
    case False
    with s two(2) show ?thesis by (simp add: level_of_def g0)
  qed
  also have "\<dots> \<le> level_of burst rate now e + 2 * burst * ulp"
    using up unfolding two(1) level_of_def g_def [symmetric] by linarith
  finally show "level_of burst rate now (snd (serve burst rate now e)) + of_bool (fst (serve burst rate now e))
      \<le> level_of burst rate now e + 2 * burst * ulp" .
qed

lemma level_retain:
  assumes "limiter_ok t rl" "t \<le> now" "rl_map rl' = retain_seen now (idle_evict_sec rl) (rl_map rl)"
    and "burst_tokens rl' = burst_tokens rl" "refill_rate rl' = refill_rate rl"
  shows "level ip now rl' = level ip now rl"
proof (cases "rl_map rl ip")
  case None
  then show ?thesis
    using assms by (simp add: level_def retain_seen_def)
next
  case (Some e)
  have ok: "bucket_ok (burst_tokens rl) t e"
    using assms(1) Some by (auto simp: limiter_ok_def)
  let ?d = "now - last_seen e"
  have d: "0 \<le> ?d" "duration_since now (last_seen e) = ?d"
    using ok assms(2) by (simp_all add: bucket_ok_def duration_since_def)
  show ?thesis
  proof (cases "duration_as_secs ?d \<le> uint (idle_evict_sec rl)")
    case True
    then show ?thesis
      using assms Some d by (simp add: level_def retain_seen_def)
  next
    case False
    then have "uint (idle_evict_sec rl) + 1 \<le> ?d div 1000000000"
      by (simp add: duration_as_secs_def)
    then have "(uint (idle_evict_sec rl) + 1) * 1000000000 \<le> (?d div 1000000000) * 1000000000"
      by simp
    also have "\<dots> \<le> ?d"
      using minus_mod_eq_div_mult [of ?d 1000000000] pos_mod_sign [of 1000000000 ?d] by linarith
    finally have "(uint (idle_evict_sec rl) + 1) * 1000000000 \<le> ?d" .
    then have "(of_int ((uint (idle_evict_sec rl) + 1) * 1000000000) :: rat) \<le> of_int ?d"
      by (simp only: of_int_le_iff)
    then have "of_int (uint (idle_evict_sec rl) + 1) \<le> secs ?d"
      by (simp add: secs_def field_simps)
    then have "refill_rate rl * of_int (uint (idle_evict_sec rl) + 1) \<le> refill_rate rl * secs ?d"
      using assms(1) by (intro mult_left_mono) (simp_all add: limiter_ok_def)
    moreover have "burst_tokens rl \<le> refill_rate rl * of_int (uint (idle_evict_sec rl) + 1)"
      using assms(1) by (simp add: limiter_ok_def)
    moreover have "refill_rate rl * secs ?d * 1 \<le> refill_rate rl * secs ?d * (1 + ulp) ^ 4"
      using assms(1) d by (intro mult_left_mono) (simp_all add: limiter_ok_def secs_def ulp_def)
    ultimately have "burst_tokens rl \<le> growth (refill_rate rl) ?d"
      by (simp add: growth_def mult.commute mult.left_commute)
    then have "level_of (burst_tokens rl) (refill_rate rl) now e = burst_tokens rl"
      using ok by (simp add: level_of_def bucket_ok_def)
    then show ?thesis
      using assms Some d False by (simp add: level_def retain_seen_def)
  qed
qed

section \<open>The limiter step by step\<close>

lemma current_ok:
  assumes "limiter_ok t rl" "t \<le> now"
  shows "bucket_ok (burst_tokens rl) now (current now rl ip)"
  using assms by (auto simp: current_def retain_seen_def limiter_ok_def
      intro!: bucket_ok_new intro: bucket_ok_mono split: option.splits if_splits)

lemma limiter_ok_allow:
  assumes "limiter_ok t rl" "t \<le> now"
  shows "limiter_ok now (snd (allow now addr rl))"
proof -
  let ?m = "retain_seen now (idle_evict_sec rl) (rl_map rl)"
  have "bucket_ok (burst_tokens rl) now e" if "?m ip = Some e" for ip e
    using that assms by (auto simp: retain_seen_def limiter_ok_def intro: bucket_ok_mono
        split: option.splits if_splits)
  moreover have "bucket_ok (burst_tokens rl) now
      (snd (serve (burst_tokens rl) (refill_rate rl) now (current now rl (sock_ip addr))))"
    using assms(1) by (intro serve_ok(1) [OF current_ok [OF assms] order.refl]) (simp_all add: limiter_ok_def)
  ultimately show ?thesis
    using assms(1) by (auto simp: limiter_ok_def allow_map split: if_splits)
qed

fun last_time :: "int \<Rightarrow> (int \<times> SocketAddr) list \<Rightarrow> int" where
  "last_time t [] = t"
| "last_time t ((now, addr) # ps) = last_time now ps"

lemma last_time_le: "sorted_from t ps \<Longrightarrow> t \<le> last_time t ps"
  by (induction t ps rule: sorted_from.induct) auto

lemma sorted_from_append:
  "sorted_from t (ps @ qs) \<longleftrightarrow> sorted_from t ps \<and> sorted_from (last_time t ps) qs"
  by (induction t ps rule: sorted_from.induct) auto

lemma limiter_ok_run:
  "limiter_ok t rl \<Longrightarrow> sorted_from t ps \<Longrightarrow> limiter_ok (last_time t ps) (allow_run ps rl)"
  by (induction t ps arbitrary: rl rule: sorted_from.induct) (auto intro: limiter_ok_allow)

lemma allow_run_params [simp]:
  "burst_tokens (allow_run ps rl) = burst_tokens rl"
  "refill_rate (allow_run ps rl) = refill_rate rl"
  "idle_evict_sec (allow_run ps rl) = idle_evict_sec rl"
  by (induction ps rl rule: allow_run.induct) simp_all

lemma level_current:
  assumes "limiter_ok t rl" "t \<le> now"
  shows "level_of (burst_tokens rl) (refill_rate rl) now (current now rl ip) = level ip now rl"
proof -
  let ?rl = "rl\<lparr>rl_map := retain_seen now (idle_evict_sec rl) (rl_map rl)\<rparr>"
  have "level ip now ?rl = level ip now rl"
    by (rule level_retain [OF assms]) simp_all
  moreover have "level_of (burst_tokens rl) (refill_rate rl) now
      \<lparr>tokens = burst_tokens rl, last_refill = now, last_seen = now\<rparr> = burst_tokens rl"
    by (simp add: level_of_def growth_def secs_def)
  ultimately show ?thesis
    by (auto simp: level_def current_def split: option.split)
qed

lemma level_allow:
  assumes "limiter_ok t rl" "t \<le> now"
  shows "level ip now (snd (allow now addr rl)) + of_bool (sock_ip addr = ip \<and> fst (allow now addr rl))
    \<le> level ip now rl + (if sock_ip addr = ip then 2 * burst_tokens rl * ulp else 0)"
proof (cases "sock_ip addr = ip")
  case True
  let ?e = "current now rl ip"
  have "level ip now (snd (allow now addr rl)) =
      level_of (burst_tokens rl) (refill_rate rl) now (snd (serve (burst_tokens rl) (refill_rate rl) now ?e))"
    using True by (simp add: level_def allow_map)
  moreover have "level_of (burst_tokens rl) (refill_rate rl) now (snd (serve (burst_tokens rl) (refill_rate rl) now ?e))
      + of_bool (fst (serve (burst_tokens rl) (refill_rate rl) now ?e))
      \<le> level_of (burst_tokens rl) (refill_rate rl) now ?e + 2 * burst_tokens rl * ulp"
    using assms(1) by (intro serve_ok(2) [OF current_ok [OF assms] order.refl]) (simp_all add: limiter_ok_def)
  ultimately show ?thesis
    using True level_current [OF assms, of ip] by (simp add: fst_allow)
next
  case False
  let ?rl = "rl\<lparr>rl_map := retain_seen now (idle_evict_sec rl) (rl_map rl)\<rparr>"
  have "level ip now (snd (allow now addr rl)) = level ip now ?rl"
    using False by (simp add: level_def allow_map split: option.split)
  also have "\<dots> = level ip now rl"
    by (rule level_retain [OF assms]) simp_all
  finally show ?thesis
    using False by simp
qed

lemma level_later:
  assumes "limiter_ok t rl" "t \<le> now" "now \<le> now'"
  shows "level ip now' rl \<le> level ip now rl + growth (refill_rate rl) (now' - now)"
proof -
  have g: "0 \<le> growth (refill_rate rl) (now' - now)"
    using assms by (intro growth_nonneg) (simp_all add: limiter_ok_def)
  show ?thesis
  proof (cases "rl_map rl ip")
    case None
    with g show ?thesis by (simp add: level_def)
  next
    case (Some e)
    have "growth (refill_rate rl) (now' - last_seen e) =
        growth (refill_rate rl) (now - last_seen e) + growth (refill_rate rl) (now' - now)"
      using growth_add [of "refill_rate rl" "now - last_seen e" "now' - now"] by simp
    with g show ?thesis
      by (simp add: level_def level_of_def Some min_def)
  qed
qed

text \<open>The grants of a stretch of packets, against the level at its start.\<close>

lemma grants_bound:
  "limiter_ok t rl \<Longrightarrow> t \<le> t0 \<Longrightarrow> sorted_from t0 ps \<Longrightarrow>
     of_nat (count_list (verdicts ip ps rl) True) \<le>
       level ip t0 rl + growth (refill_rate rl) (last_time t0 ps - t0)
       + of_nat (length (verdicts ip ps rl)) * (2 * burst_tokens rl * ulp)"
proof (induction ps arbitrary: t t0 rl)
  case Nil
  have "0 \<le> level ip t0 rl"
    using Nil by (auto simp: level_def level_of_def limiter_ok_def bucket_ok_def
        intro!: add_nonneg_nonneg growth_nonneg split: option.split) force+
  then show ?case
    by (simp add: growth_def secs_def)
next
  case (Cons p ps)
  obtain now addr where p: "p = (now, addr)" by (cases p)
  have now: "t0 \<le> now" "t \<le> now" "sorted_from now ps"
    using Cons.prems by (simp_all add: p)
  let ?rl = "snd (allow now addr rl)"
  have IH: "of_nat (count_list (verdicts ip ps ?rl) True) \<le>
       level ip now ?rl + growth (refill_rate rl) (last_time now ps - now)
       + of_nat (length (verdicts ip ps ?rl)) * (2 * burst_tokens rl * ulp)"
    using Cons.IH [OF limiter_ok_allow [OF Cons.prems(1) now(2)] order.refl now(3)] by simp
  have step: "level ip now ?rl + of_bool (sock_ip addr = ip \<and> fst (allow now addr rl))
      \<le> level ip now rl + (if sock_ip addr = ip then 2 * burst_tokens rl * ulp else 0)"
    by (rule level_allow [OF Cons.prems(1) now(2)])
  have later: "level ip now rl \<le> level ip t0 rl + growth (refill_rate rl) (now - t0)"
    by (rule level_later [OF Cons.prems(1,2) now(1)])
  have g: "growth (refill_rate rl) (last_time now ps - t0) =
      growth (refill_rate rl) (now - t0) + growth (refill_rate rl) (last_time now ps - now)"
    using growth_add [of "refill_rate rl" "now - t0" "last_time now ps - now"] by simp
  define K where "K = 2 * burst_tokens rl * ulp"
  show ?case
  proof (cases "sock_ip addr = ip")
    case True
    have "of_nat (length (verdicts ip (p # ps) rl)) * K = of_nat (length (verdicts ip ps ?rl)) * K + K"
      by (simp add: p True distrib_right)
    moreover have "of_nat (count_list (verdicts ip (p # ps) rl) True) =
        (of_nat (count_list (verdicts ip ps ?rl) True) :: rat) + of_bool (fst (allow now addr rl))"
      by (simp add: p True)
    moreover have "last_time t0 (p # ps) = last_time now ps"
      by (simp add: p)
    ultimately show ?thesis
      using IH step later g True unfolding K_def [symmetric] by simp
  next
    case False
    then show ?thesis
      using IH step later g unfolding K_def [symmetric] by (simp add: p)
  qed
qed

text \<open>A bucket was last seen when its address last sent.\<close>

lemma last_seen_run:
  "rl_map (allow_run ps rl) ip = Some e \<Longrightarrow>
     rl_map rl ip = Some e \<or> (\<exists>(t, a) \<in> set ps. sock_ip a = ip \<and> last_seen e = t)"
proof (induction ps arbitrary: rl)
  case Nil
  then show ?case by simp
next
  case (Cons p ps)
  obtain now addr where p: "p = (now, addr)" by (cases p)
  let ?rl = "snd (allow now addr rl)"
  have "rl_map ?rl ip = Some e \<Longrightarrow> rl_map rl ip = Some e \<or> (sock_ip addr = ip \<and> last_seen e = now)"
    by (auto simp: allow_map retain_seen_def serve_def Let_def split: if_splits option.splits)
  with Cons.IH [of ?rl] Cons.prems show ?case
    by (auto simp: p)
qed

section \<open>Properties\<close>

text \<open>
  The limiter as \<open>main\<close> makes it: bursts of 10, 5 packets a second, buckets kept for 60 idle
  seconds.
\<close>

abbreviation server_limiter :: RateLimiter where
  "server_limiter \<equiv> rate_limiter_new 10 5 60"

lemma rate_limiter_new_simps [simp]:
  "rl_map (rate_limiter_new b r i) ip = None" "burst_tokens (rate_limiter_new b r i) = b"
  "refill_rate (rate_limiter_new b r i) = r" "idle_evict_sec (rate_limiter_new b r i) = i"
  by (simp_all add: rate_limiter_new_def)

lemma server_limiter_ok: "limiter_ok t server_limiter"
  by (simp add: limiter_ok_def rate_limiter_new_def)

text \<open>
  C11. The rate: in any stretch of time, whatever came before and whatever else arrives, an
  address is granted at most 10 packets plus 5 a second, up to a rounding of \<open>2 ^ -51\<close> of that
  rate and \<open>20 * 2 ^ -53\<close> for each packet offered. Eviction of idle buckets gives nothing away.
\<close>

theorem rate_is_bounded:
  assumes "sorted_from t (hist @ (t0, a) # ps)"
  shows "let vs = verdicts ip ((t0, a) # ps) (allow_run hist server_limiter) in
    of_nat (count_list vs True) \<le>
      10 + 5 * secs (last_time t0 ps - t0) * (1 + ulp) ^ 4 + of_nat (length vs) * (20 * ulp)"
proof -
  let ?rl = "allow_run hist server_limiter"
  have s: "sorted_from t hist" "last_time t hist \<le> t0" "sorted_from t0 ((t0, a) # ps)"
    using assms by (simp_all add: sorted_from_append)
  have ok: "limiter_ok (last_time t hist) ?rl"
    by (rule limiter_ok_run [OF server_limiter_ok s(1)])
  have p: "burst_tokens ?rl = 10" "refill_rate ?rl = 5"
    by simp_all
  have "level ip t0 ?rl \<le> 10"
    by (auto simp: level_def level_of_def p split: option.split)
  with grants_bound [OF ok s(2,3), of ip] show ?thesis
    unfolding Let_def by (simp add: p growth_def mult.commute)
qed

theorem rate_is_bounded_witness:
  "let vs = verdicts (V4 [1, 2, 3, 4]) (replicate 3 (1000, SockV4 [1, 2, 3, 4] 99)) server_limiter in
   of_nat (count_list vs True) \<le> 10 + 0 * ulp + of_nat (length vs) * (20 * ulp)"
  using rate_is_bounded [of 0 "[]" 1000 "SockV4 [1, 2, 3, 4] 99"
      "replicate 2 (1000, SockV4 [1, 2, 3, 4] 99)" "V4 [1, 2, 3, 4]"]
  by (simp add: Let_def numeral_3_eq_3 numeral_2_eq_2 secs_def del: verdicts_simps)

text \<open>
  Isolation: what an address is granted depends on its own packets only. The verdicts on
  its packets in any traffic are those it would get alone, so no other address can use up its
  tokens, and evicting idle buckets is never noticed.
\<close>

theorem addresses_are_isolated:
  assumes "sorted_from t ps"
  shows "verdicts ip ps rl = allow_all (filter (\<lambda>(now, addr). sock_ip addr = ip) ps) rl"
  using assms by (intro verdicts_alike [of t]) (simp add: alike_def)

theorem addresses_are_isolated_witness:
  "verdicts (V4 [1, 2, 3, 4]) [(5, SockV4 [9, 9, 9, 9] 1), (6, SockV4 [1, 2, 3, 4] 2)] server_limiter =
     allow_all [(6, SockV4 [1, 2, 3, 4] 2)] server_limiter"
  using addresses_are_isolated [of 0 "[(5, SockV4 [9, 9, 9, 9] 1), (6, SockV4 [1, 2, 3, 4] 2)]"
      "V4 [1, 2, 3, 4]" server_limiter]
  by (simp del: verdicts_simps)

text \<open>
  C35. Service: a packet that comes a second or more after the last packet of its address, or is
  its first, is granted, whatever the others do.
\<close>

theorem patient_client_is_served:
  assumes "sorted_from t (hist @ [(now, addr)])"
    and "\<forall>(t', a) \<in> set hist. sock_ip a = sock_ip addr \<longrightarrow> t' + 1000000000 \<le> now"
  shows "fst (allow now addr (allow_run hist server_limiter))"
proof -
  let ?rl = "allow_run hist server_limiter" and ?ip = "sock_ip addr"
  have s: "sorted_from t hist" "last_time t hist \<le> now"
    using assms(1) by (simp_all add: sorted_from_append)
  have ok: "limiter_ok (last_time t hist) ?rl"
    by (rule limiter_ok_run [OF server_limiter_ok s(1)])
  have p: "burst_tokens ?rl = 10" "refill_rate ?rl = 5"
    by simp_all
  let ?e = "current now ?rl ?ip"
  have e: "bucket_ok 10 now ?e"
    using current_ok [OF ok s(2), of ?ip] by (simp add: p)
  have "tokens ?e = 10 \<and> last_seen ?e = now \<or> last_seen ?e + 1000000000 \<le> now"
  proof (cases "retain_seen now (idle_evict_sec ?rl) (rl_map ?rl) ?ip")
    case None
    then show ?thesis by (simp add: current_def p)
  next
    case (Some b)
    then have "rl_map ?rl ?ip = Some b"
      by (auto simp: retain_seen_def split: option.splits if_splits)
    from last_seen_run [OF this] assms(2) Some show ?thesis
      by (auto simp: current_def)
  qed
  then have "1 \<le> refill 10 5 now ?e"
  proof
    assume "tokens ?e = 10 \<and> last_seen ?e = now"
    then show ?thesis
      using refill_eq [OF e order.refl, of 5] by simp
  next
    assume le: "last_seen ?e + 1000000000 \<le> now"
    then have "(of_int 1000000000 :: rat) \<le> of_int (now - last_seen ?e)"
      by (simp only: of_int_le_iff)
    then have "1 \<le> secs (now - last_seen ?e)"
      by (simp add: secs_def)
    then have "1 * (5 * (1 - ulp) ^ 4) \<le> secs (now - last_seen ?e) * (5 * (1 - ulp) ^ 4)"
      by (intro mult_right_mono) (simp_all add: ulp_def)
    moreover have "1 \<le> 5 * (1 - ulp) ^ 4"
      by (simp add: ulp_def eval_nat_numeral)
    ultimately have "1 \<le> min 10 (secs (now - last_seen ?e) * 5 * (1 - ulp) ^ 4)"
      by (simp add: mult.assoc)
    also have "\<dots> \<le> refill 10 5 now ?e"
      using le by (intro refill_bounds(4) [OF e order.refl]) simp_all
    finally show ?thesis .
  qed
  then show ?thesis
    using serve_simps(1) [OF e order.refl] by (simp add: fst_allow p)
qed

theorem patient_client_is_served_witness:
  "fst (allow 3000000000 (SockV4 [1, 2, 3, 4] 5)
     (allow_run [(1000000000, SockV4 [1, 2, 3, 4] 5), (2500000000, SockV4 [9, 9, 9, 9] 5)] server_limiter))"
  by (rule patient_client_is_served [of 0]) simp_all

end
