(* ===== verification/Server.thy ===== *)
theory Server
  imports Packet_Channel Rate_Limiter
begin

text \<open>
  \<open>tuctl-server/src/main.rs\<close>: the child process that runs a command, the handling of one packet,
  and \<open>main\<close>. \<open>process_packet\<close> is a task; the points where it takes the lock of the replay window
  or awaits split it into the segments \<open>admit\<close>, \<open>run_command\<close>, \<open>seal_response\<close>,
  \<open>record_response\<close> and \<open>send_response\<close>, which tasks interleave. Environment variables, the
  child, clock readings, random bytes and socket results are inputs.
\<close>

section \<open>What the server does\<close>

text \<open>
  The trace of the server. \<open>SAccept\<close> and \<open>SRecord\<close> mark the two places where the replay window
  records a pair; \<open>SExec\<close> carries the pair of the packet whose command is run. It stands for a child
  that was started and offered the command on its standard input: when writing to it fails the child
  may have read only a first part.
\<close>

datatype srv_event =
    SInfo string
  | SError string
  | SAccept i64 bytes
  | SExec i64 bytes "string list" bytes
  | SRecord i64 bytes
  | SSend bytes SocketAddr

record srv =
  sr_replay :: ReplayWindow
  sr_limiter :: RateLimiter
  sr_trace :: "srv_event list"

definition sr_emit :: "srv_event list \<Rightarrow> srv \<Rightarrow> srv" where
  "sr_emit es s = s\<lparr>sr_trace := sr_trace s @ es\<rparr>"

lemma sr_emit_simps [simp]:
  "sr_replay (sr_emit es s) = sr_replay s" "sr_limiter (sr_emit es s) = sr_limiter s"
  "sr_trace (sr_emit es s) = sr_trace s @ es"
  by (simp_all add: sr_emit_def)

record srv_config =
  cf_crypto :: crypto
  cf_psk :: string
  cf_memlimit :: nat
  cf_profile :: profile

section \<open>Running a command\<close>

text \<open>The environment: variables that are set to valid Unicode, and the loaded module.\<close>

record srv_env =
  env_var :: "string \<Rightarrow> string option"
  module_exists :: bool

definition env_nonzero :: "string option \<Rightarrow> bool" where
  "env_nonzero var =
     (case var of
        Some val \<Rightarrow> (case parse_u32 val of Inr v \<Rightarrow> v \<noteq> 0 | Inl _ \<Rightarrow> False)
      | None \<Rightarrow> False)"

definition detect_ktuctl :: "srv_env \<Rightarrow> bool" where
  "detect_ktuctl env =
     (if env_nonzero (env_var env ''TUTUICMPTUNNEL_USE_KTUCTL'') then True else module_exists env)"

definition sudo_enabled :: "srv_env \<Rightarrow> bool" where
  "sudo_enabled env =
     (if env_nonzero (env_var env ''TUTUICMPTUNNEL_DISABLE_SUDO'') then False else True)"

text \<open>What becomes of a child with this argument vector and standard input.\<close>

datatype child = SpawnFailed string | WriteFailed string | WaitFailed string | Output bytes bytes

definition command_line :: "srv_env \<Rightarrow> string list" where
  "command_line env =
     (let tuctl_prog = (if detect_ktuctl env then ''ktuctl'' else ''tuctl'')
      in if sudo_enabled env then [''sudo'', tuctl_prog, ''script'', ''-'']
         else [tuctl_prog, ''script'', ''-''])"

definition execute_command ::
  "srv_env \<Rightarrow> (string list \<Rightarrow> bytes \<Rightarrow> child) \<Rightarrow> i64 \<Rightarrow> bytes \<Rightarrow> bytes \<Rightarrow> (srv, bytes) comp" where
  "execute_command env run_child ts nonce cmd s =
     (let sudo = sudo_enabled env;
          s = (if detect_ktuctl env then sr_emit [SInfo ''Use ktuctl instead of tuctl''] s else s);
          argv = command_line env
      in case run_child argv cmd of
           SpawnFailed e \<Rightarrow>
             (Err (Msg (''spawn failed: '' @ e)),
              if sudo then sr_emit [SError ''sudo enabled, please check sudo setting''] s else s)
         | WriteFailed e \<Rightarrow>
             (Err (Msg (''write child stdin failed: '' @ e)), sr_emit [SExec ts nonce argv cmd] s)
         | WaitFailed e \<Rightarrow>
             (Err (Msg (''wait child failed: '' @ e)), sr_emit [SExec ts nonce argv cmd] s)
         | Output stdout stderr \<Rightarrow>
             (let resp = stdout @ stderr;
                  resp = (if MAX_PT_SIZE < length resp then take MAX_PT_SIZE resp else resp)
              in (Ok resp, sr_emit [SExec ts nonce argv cmd] s)))"

section \<open>The segments of \<open>process_packet\<close>\<close>

text \<open>Under the lock: decrypt, check, record. \<open>t\<close> is the system time.\<close>

definition admit :: "srv_config \<Rightarrow> int \<Rightarrow> SocketAddr \<Rightarrow> bytes \<Rightarrow> srv \<Rightarrow> (bytes \<times> bytes \<times> i64) option \<times> srv" where
  "admit cfg t peer packet s =
     (case decrypt_packet (cf_crypto cfg) (cf_psk cfg) packet (cf_memlimit cfg) of
        Ok (pt, nonce, ts) \<Rightarrow>
          (case replay_check (cf_profile cfg) (current_unix_time t) ts nonce (sr_replay s) of
             Ok (fresh, rw) \<Rightarrow>
               (if \<not> fresh then
                  (None, sr_emit [SError (''drop: replay/window from '' @ addr_to_str peer)]
                           (s\<lparr>sr_replay := rw\<rparr>))
                else (Some (pt, nonce, ts), sr_emit [SAccept ts nonce] (s\<lparr>sr_replay := replay_add ts nonce rw\<rparr>)))
           | _ \<Rightarrow> (None, s))
      | Err e \<Rightarrow> (None, sr_emit [SError (''drop: '' @ error_display e @ '' from '' @ addr_to_str peer)] s)
      | _ \<Rightarrow> (None, s))"

definition run_command ::
  "srv_env \<Rightarrow> (string list \<Rightarrow> bytes \<Rightarrow> child) \<Rightarrow> SocketAddr \<Rightarrow> bytes \<Rightarrow> i64 \<Rightarrow> bytes \<Rightarrow> srv \<Rightarrow> bytes option \<times> srv" where
  "run_command env run_child peer nonce ts pt s =
     (let pt = remove_padding pt;
          s = sr_emit [SInfo (''command from '' @ addr_to_str peer @ '' ('' @ show_nat (length pt) @ '' bytes)''),
                       SInfo (''  '' @ from_utf8_lossy pt)] s
      in case execute_command env run_child ts nonce pt s of
           (Ok resp, s) \<Rightarrow> (Some resp, s)
         | (Err e, s) \<Rightarrow> (None, sr_emit [SError (''command execution failed: '' @ error_display e)] s)
         | (_, s) \<Rightarrow> (None, s))"

definition seal_response ::
  "srv_config \<Rightarrow> u8 \<Rightarrow> int \<Rightarrow> bytes \<Rightarrow> bytes \<Rightarrow> bytes \<Rightarrow> srv \<Rightarrow> (bytes \<times> bytes \<times> i64) option \<times> srv" where
  "seal_response cfg r t salt nonce resp s =
     (let resp = pad_response resp r;
          s = sr_emit [SInfo (''response: '' @ show_nat (length resp) @ '' bytes'')] s
      in case encrypt_packet (cf_crypto cfg) (cf_psk cfg) resp (cf_memlimit cfg) (current_unix_time t) salt nonce of
           Ok v \<Rightarrow> (Some v, s)
         | Err e \<Rightarrow> (None, sr_emit [SError (''failed to encrypt response: '' @ error_display e)] s)
         | _ \<Rightarrow> (None, s))"

definition record_response :: "bytes \<Rightarrow> i64 \<Rightarrow> srv \<Rightarrow> srv" where
  "record_response nonce2 ts2 s =
     sr_emit [SRecord ts2 nonce2] (s\<lparr>sr_replay := replay_add ts2 nonce2 (sr_replay s)\<rparr>)"

definition send_response :: "string option \<Rightarrow> bytes \<Rightarrow> SocketAddr \<Rightarrow> srv \<Rightarrow> srv" where
  "send_response send_err enc peer s =
     (case send_err of
        None \<Rightarrow> sr_emit [SSend enc peer] s
      | Some e \<Rightarrow> sr_emit [SError (''failed to send response: '' @ e)] s)"

text \<open>The inputs of one run of \<open>process_packet\<close>, and the run when no other task comes between.\<close>

record packet_inputs =
  pi_time :: int
  pi_env :: srv_env
  pi_child :: "string list \<Rightarrow> bytes \<Rightarrow> child"
  pi_pad :: u8
  pi_time2 :: int
  pi_salt :: bytes
  pi_nonce :: bytes
  pi_send_err :: "string option"

definition process_packet :: "srv_config \<Rightarrow> packet_inputs \<Rightarrow> SocketAddr \<Rightarrow> bytes \<Rightarrow> srv \<Rightarrow> srv" where
  "process_packet cfg i peer packet s =
     (case admit cfg (pi_time i) peer packet s of
        (None, s) \<Rightarrow> s
      | (Some (pt, nonce, ts), s) \<Rightarrow>
          (case run_command (pi_env i) (pi_child i) peer nonce ts pt s of
             (None, s) \<Rightarrow> s
           | (Some resp, s) \<Rightarrow>
               (case seal_response cfg (pi_pad i) (pi_time2 i) (pi_salt i) (pi_nonce i) resp s of
                  (None, s) \<Rightarrow> s
                | (Some (enc, nonce2, ts2), s) \<Rightarrow>
                    send_response (pi_send_err i) enc peer (record_response nonce2 ts2 s))))"

section \<open>\<open>main\<close>\<close>

record server_args =
  sa_bind :: string
  sa_port :: u16
  sa_psk :: string
  sa_window :: u32
  sa_replay_max :: u32

datatype 'a start = Exit int | BindError string | LocalAddrError string | Running 'a

text \<open>
  Up to the loop: \<open>var\<close> is the variable of the memory limit, \<open>bind\<close> the result of binding the
  socket to the text of the address: the error, or what \<open>local_addr\<close> says of the bound socket.
\<close>

definition memlimit_log :: "string + string \<Rightarrow> srv_event" where
  "memlimit_log l = (case l of Inl e \<Rightarrow> SError e | Inr i \<Rightarrow> SInfo i)"

definition server_start ::
  "server_args \<Rightarrow> string option \<Rightarrow> (string \<Rightarrow> string + (string + SocketAddr)) \<Rightarrow> crypto \<Rightarrow> profile \<Rightarrow>
     (srv_config \<times> srv) start \<times> srv_event list" where
  "server_start args var bind C p =
     (if length (sa_psk args) < 8 then (Exit 2, [SError ''PSK must be at least 8 characters long''])
      else (let (memlimit, logs) = setup_pwhash_memlimit var;
                logs = map memlimit_log logs
            in case bind (sa_bind args @ '':'' @ show_word (sa_port args)) of
                 Inl e \<Rightarrow> (BindError e, logs)
               | Inr (Inl e) \<Rightarrow> (LocalAddrError e, logs)
               | Inr (Inr local) \<Rightarrow>
                   (let logs = logs @ [SInfo (''Server listen '' @ addr_to_str local @
                           '', replay window = '' @ show_word (sa_window args) @ ''s, max='' @
                           show_word (sa_replay_max args))]
                    in (Running
                          (\<lparr>cf_crypto = C, cf_psk = sa_psk args, cf_memlimit = memlimit, cf_profile = p\<rparr>,
                           \<lparr>sr_replay = replay_new (sa_window args) (sa_replay_max args),
                            sr_limiter = rate_limiter_new 10 5 60, sr_trace = logs\<rparr>), logs))))"

text \<open>
  One turn of the loop: the result of \<open>recv_from\<close> at an instant. The buffer cuts a datagram to
  \<open>MAX_CT_SIZE\<close> bytes. The value is the packet a new task is spawned for.
\<close>

definition receive :: "int \<Rightarrow> string + (bytes \<times> SocketAddr) \<Rightarrow> srv \<Rightarrow> (SocketAddr \<times> bytes) option \<times> srv" where
  "receive instant r s =
     (case r of
        Inl e \<Rightarrow> (None, sr_emit [SError (''recvfrom error: '' @ e)] s)
      | Inr (datagram, peer) \<Rightarrow>
          (let buf = take MAX_CT_SIZE datagram;
               (ok, rl) = allow instant peer (sr_limiter s);
               s = s\<lparr>sr_limiter := rl\<rparr>
           in if \<not> ok then
                (None, sr_emit [SInfo (''too many requests from '' @ addr_to_str peer @ '', dropping'')] s)
              else (Some (peer, buf), s)))"

end
