(* ===== verification/Server_System.thy ===== *)
theory Server_System
  imports Server "HOL-Library.Multiset"
begin

text \<open>
  The running server as a state machine: the loop of \<open>main\<close> spawns tasks, tasks run the segments
  of \<open>process_packet\<close> in any order among each other. Reachability, the invariants, and what holds
  of every run: authenticity, no command twice, responses recorded before they are sent.
\<close>

section \<open>Tasks and steps\<close>

text \<open>Where a task is: what it holds when it next takes a lock or awaits.\<close>

datatype task =
    TReceived SocketAddr bytes
  | TAccepted SocketAddr bytes bytes i64
  | TExecuted SocketAddr bytes
  | TSealed SocketAddr bytes bytes i64
  | TRecorded SocketAddr bytes

text \<open>
  One segment of a task with the inputs it uses, and the use it makes of the replay window.
\<close>

fun task_step :: "srv_config \<Rightarrow> packet_inputs \<Rightarrow> task \<Rightarrow> srv \<Rightarrow> task option \<times> srv" where
  "task_step cfg i (TReceived peer packet) s =
     (case admit cfg (pi_time i) peer packet s of
        (None, s) \<Rightarrow> (None, s)
      | (Some (pt, nonce, ts), s) \<Rightarrow> (Some (TAccepted peer pt nonce ts), s))"
| "task_step cfg i (TAccepted peer pt nonce ts) s =
     (case run_command (pi_env i) (pi_child i) peer nonce ts pt s of
        (None, s) \<Rightarrow> (None, s)
      | (Some resp, s) \<Rightarrow> (Some (TExecuted peer resp), s))"
| "task_step cfg i (TExecuted peer resp) s =
     (case seal_response cfg (pi_pad i) (pi_time2 i) (pi_salt i) (pi_nonce i) resp s of
        (None, s) \<Rightarrow> (None, s)
      | (Some (enc, nonce2, ts2), s) \<Rightarrow> (Some (TSealed peer enc nonce2 ts2), s))"
| "task_step cfg i (TSealed peer enc nonce2 ts2) s = (Some (TRecorded peer enc), record_response nonce2 ts2 s)"
| "task_step cfg i (TRecorded peer enc) s = (None, send_response (pi_send_err i) enc peer s)"

fun task_op :: "srv_config \<Rightarrow> packet_inputs \<Rightarrow> task \<Rightarrow> cache_op list" where
  "task_op cfg i (TReceived peer packet) =
     (case decrypt_packet (cf_crypto cfg) (cf_psk cfg) packet (cf_memlimit cfg) of
        Ok (pt, nonce, ts) \<Rightarrow> [Offer (current_unix_time (pi_time i)) ts nonce]
      | _ \<Rightarrow> [])"
| "task_op cfg i (TSealed peer enc nonce2 ts2) = [Record ts2 nonce2]"
| "task_op cfg i _ = []"

text \<open>The state: server, tasks, and the uses of the window in the order of the lock.\<close>

record sys =
  sys_srv :: srv
  sys_tasks :: "task list"
  sys_ops :: "cache_op list"
  sys_received :: "bytes list"

definition replace_task :: "nat \<Rightarrow> task option \<Rightarrow> task list \<Rightarrow> task list" where
  "replace_task n t ts = take n ts @ (case t of Some t \<Rightarrow> [t] | None \<Rightarrow> []) @ drop (Suc n) ts"

text \<open>Salt and nonce are arrays of their declared lengths.\<close>

definition valid_inputs :: "packet_inputs \<Rightarrow> bool" where
  "valid_inputs i \<longleftrightarrow> length (pi_salt i) = SALT_LEN \<and> length (pi_nonce i) = NONCE_LEN"

inductive srv_step :: "srv_config \<Rightarrow> sys \<Rightarrow> sys \<Rightarrow> bool" for cfg where
  step_receive:
    "receive instant r (sys_srv y) = (spawned, s) \<Longrightarrow>
       srv_step cfg y (y\<lparr>sys_srv := s,
         sys_tasks := sys_tasks y @ (case spawned of Some (peer, buf) \<Rightarrow> [TReceived peer buf] | None \<Rightarrow> []),
         sys_received := sys_received y @ (case spawned of Some (peer, buf) \<Rightarrow> [buf] | None \<Rightarrow> [])\<rparr>)"
| step_task:
    "n < length (sys_tasks y) \<Longrightarrow> valid_inputs i \<Longrightarrow> task_step cfg i (sys_tasks y ! n) (sys_srv y) = (t, s) \<Longrightarrow>
       srv_step cfg y (y\<lparr>sys_srv := s, sys_tasks := replace_task n t (sys_tasks y),
         sys_ops := sys_ops y @ task_op cfg i (sys_tasks y ! n)\<rparr>)"

definition initial :: "u32 \<Rightarrow> u32 \<Rightarrow> srv_event list \<Rightarrow> sys" where
  "initial window max_size logs =
     \<lparr>sys_srv = \<lparr>sr_replay = replay_new window max_size, sr_limiter = rate_limiter_new 10 5 60, sr_trace = logs\<rparr>,
      sys_tasks = [], sys_ops = [], sys_received = []\<rparr>"

text \<open>The logs \<open>main\<close> has written before its loop are lines of text.\<close>

fun is_log :: "srv_event \<Rightarrow> bool" where
  "is_log (SInfo _) = True"
| "is_log (SError _) = True"
| "is_log _ = False"

inductive reachable :: "srv_config \<Rightarrow> u32 \<Rightarrow> u32 \<Rightarrow> sys \<Rightarrow> bool" for cfg window max_size where
  reach_init: "list_all is_log logs \<Longrightarrow> reachable cfg window max_size (initial window max_size logs)"
| reach_step: "reachable cfg window max_size y \<Longrightarrow> srv_step cfg y y' \<Longrightarrow> reachable cfg window max_size y'"

inductive_cases srv_stepE: "srv_step cfg y y'"

section \<open>Reading a trace\<close>

text \<open>The uses of the window that recorded a pair, the commands run and the datagrams sent.\<close>

fun window_log :: "srv_event list \<Rightarrow> cache_log" where
  "window_log [] = []"
| "window_log (SAccept ts nonce # es) = (True, ts, nonce) # window_log es"
| "window_log (SRecord ts nonce # es) = (False, ts, nonce) # window_log es"
| "window_log (_ # es) = window_log es"

fun executed :: "srv_event list \<Rightarrow> (i64 \<times> bytes \<times> bytes) list" where
  "executed [] = []"
| "executed (SExec ts nonce argv cmd # es) = (ts, nonce, cmd) # executed es"
| "executed (_ # es) = executed es"

lemma window_log_append [simp]: "window_log (es @ fs) = window_log es @ window_log fs"
  by (induction es rule: window_log.induct) simp_all

lemma set_window_log:
  "(True, ts, nonce) \<in> set (window_log es) \<longleftrightarrow> SAccept ts nonce \<in> set es"
  "(False, ts, nonce) \<in> set (window_log es) \<longleftrightarrow> SRecord ts nonce \<in> set es"
  by (induction es rule: window_log.induct) simp_all

lemma executed_append [simp]: "executed (es @ fs) = executed es @ executed fs"
  by (induction es rule: executed.induct) simp_all

lemma logs_only:
  assumes "list_all is_log es"
  shows "window_log es = [] \<and> executed es = [] \<and> (\<forall>e \<in> set es. \<forall>x p. e \<noteq> SSend x p)"
  using assms by (induction es) (auto elim: is_log.elims)

section \<open>What the segments do\<close>

lemma execute_command_simps:
  "snd (execute_command env run_child ts nonce cmd s) = snd (execute_command env run_child ts nonce cmd s)
    \<lparr>sr_replay := sr_replay s, sr_limiter := sr_limiter s\<rparr>"
  "window_log (sr_trace (snd (execute_command env run_child ts nonce cmd s))) = window_log (sr_trace s)"
  "executed (sr_trace (snd (execute_command env run_child ts nonce cmd s))) =
     executed (sr_trace s) @
       (case run_child (command_line env) cmd of SpawnFailed _ \<Rightarrow> [] | _ \<Rightarrow> [(ts, nonce, cmd)])"
  by (auto simp: execute_command_def Let_def sr_emit_def split: child.split)

lemma run_command_simps:
  "sr_replay (snd (run_command env run_child peer nonce ts pt s)) = sr_replay s"
  "window_log (sr_trace (snd (run_command env run_child peer nonce ts pt s))) = window_log (sr_trace s)"
  "executed (sr_trace (snd (run_command env run_child peer nonce ts pt s))) =
     executed (sr_trace s) @
       (case run_child (command_line env) (remove_padding pt) of
          SpawnFailed _ \<Rightarrow> [] | _ \<Rightarrow> [(ts, nonce, remove_padding pt)])"
  by (auto simp: run_command_def execute_command_def Let_def split: child.split)

lemma seal_response_simps:
  "sr_replay (snd (seal_response cfg r t salt nonce resp s)) = sr_replay s"
  "window_log (sr_trace (snd (seal_response cfg r t salt nonce resp s))) = window_log (sr_trace s)"
  "executed (sr_trace (snd (seal_response cfg r t salt nonce resp s))) = executed (sr_trace s)"
  by (auto simp: seal_response_def Let_def split: res.split)

lemma record_response_simps:
  "sr_replay (record_response nonce ts s) = replay_add ts nonce (sr_replay s)"
  "window_log (sr_trace (record_response nonce ts s)) = window_log (sr_trace s) @ [(False, ts, nonce)]"
  "executed (sr_trace (record_response nonce ts s)) = executed (sr_trace s)"
  by (simp_all add: record_response_def)

lemma send_response_simps:
  "sr_replay (send_response err enc peer s) = sr_replay s"
  "window_log (sr_trace (send_response err enc peer s)) = window_log (sr_trace s)"
  "executed (sr_trace (send_response err enc peer s)) = executed (sr_trace s)"
  by (simp_all add: send_response_def split: option.split)

lemma receive_simps:
  "sr_replay (snd (receive instant r s)) = sr_replay s"
  "window_log (sr_trace (snd (receive instant r s))) = window_log (sr_trace s)"
  "executed (sr_trace (snd (receive instant r s))) = executed (sr_trace s)"
  by (auto simp: receive_def Let_def split: sum.split prod.split)

lemma admit_executed: "executed (sr_trace (snd (admit cfg t peer packet s))) = executed (sr_trace s)"
  by (auto simp: admit_def split: res.split prod.split)

lemma admit_Some:
  "admit cfg t peer packet s = (Some (pt, nonce, ts), s') \<Longrightarrow>
     decrypt_packet (cf_crypto cfg) (cf_psk cfg) packet (cf_memlimit cfg) = Ok (pt, nonce, ts)"
  by (auto simp: admit_def split: res.splits prod.splits if_splits)

section \<open>The window is what the lock order makes it\<close>

abbreviation window_exec :: "profile \<Rightarrow> cache_op list \<Rightarrow> ReplayWindow \<Rightarrow> (cache_log \<times> ReplayWindow) res" where
  "window_exec p \<equiv> exec_ops (replay_check p) replay_add"

definition window_inv :: "srv_config \<Rightarrow> u32 \<Rightarrow> u32 \<Rightarrow> sys \<Rightarrow> bool" where
  "window_inv cfg window max_size y \<longleftrightarrow>
     (\<forall>l rw. window_exec (cf_profile cfg) (sys_ops y) (replay_new window max_size) = Ok (l, rw) \<longrightarrow>
        window_log (sr_trace (sys_srv y)) = l \<and> sr_replay (sys_srv y) = rw)"

text \<open>A segment does to the window what its use of the cache does.\<close>

lemma task_step_window:
  assumes "task_step cfg i t s = (t', s')"
    and "window_exec (cf_profile cfg) (task_op cfg i t) (sr_replay s) = Ok (l, rw)"
  shows "window_log (sr_trace s') = window_log (sr_trace s) @ l \<and> sr_replay s' = rw"
proof (cases t)
  case (TReceived peer packet)
  then have s': "s' = snd (admit cfg (pi_time i) peer packet s)"
    using assms(1) by (auto split: prod.splits option.splits)
  show ?thesis
  proof (cases "decrypt_packet (cf_crypto cfg) (cf_psk cfg) packet (cf_memlimit cfg)")
    case (Ok v)
    obtain pt nonce ts where v: "v = (pt, nonce, ts)" by (cases v)
    show ?thesis
    proof (cases "replay_check (cf_profile cfg) (current_unix_time (pi_time i)) ts nonce (sr_replay s)")
      case (Ok r)
      then show ?thesis
        using assms(2) \<open>decrypt_packet _ _ _ _ = Ok v\<close>
        by (cases r) (auto simp: TReceived v s' admit_def split: if_splits)
    qed (use assms(2) Ok in \<open>simp_all add: TReceived v\<close>)
  qed (use assms(2) in \<open>auto simp: TReceived s' admit_def\<close>)
next
  case (TAccepted peer pt nonce ts)
  then have "s' = snd (run_command (pi_env i) (pi_child i) peer nonce ts pt s)"
    using assms(1) by (auto split: prod.splits option.splits)
  with assms(2) show ?thesis by (simp add: TAccepted run_command_simps)
next
  case (TExecuted peer resp)
  then have "s' = snd (seal_response cfg (pi_pad i) (pi_time2 i) (pi_salt i) (pi_nonce i) resp s)"
    using assms(1) by (auto split: prod.splits option.splits)
  with assms(2) show ?thesis by (simp add: TExecuted seal_response_simps)
next
  case (TSealed peer enc nonce2 ts2)
  with assms show ?thesis by (auto simp: record_response_simps)
next
  case (TRecorded peer enc)
  with assms show ?thesis by (auto simp: send_response_simps)
qed

lemma reachable_window:
  "reachable cfg window max_size y \<Longrightarrow> window_inv cfg window max_size y"
proof (induction rule: reachable.induct)
  case (reach_init logs)
  then show ?case
    using logs_only by (auto simp: window_inv_def initial_def)
next
  case (reach_step y y')
  from reach_step.hyps(2) show ?case
  proof (cases rule: srv_step.cases)
    case (step_receive instant r spawned s)
    then have "s = snd (receive instant r (sys_srv y))" by simp
    then show ?thesis
      using reach_step.IH by (simp add: step_receive(1) window_inv_def receive_simps)
  next
    case (step_task n i t s)
    show ?thesis
      unfolding window_inv_def
    proof (intro allI impI)
      fix l rw
      assume "window_exec (cf_profile cfg) (sys_ops y') (replay_new window max_size) = Ok (l, rw)"
      then obtain l1 rw1 l2 where
        1: "window_exec (cf_profile cfg) (sys_ops y) (replay_new window max_size) = Ok (l1, rw1)" and
        2: "window_exec (cf_profile cfg) (task_op cfg i (sys_tasks y ! n)) rw1 = Ok (l2, rw)" and
        l: "l = l1 @ l2"
        by (auto simp: step_task(1) exec_ops_append res_bind_Ok_iff)
      have w: "window_log (sr_trace (sys_srv y)) = l1" "sr_replay (sys_srv y) = rw1"
        using reach_step.IH 1 by (auto simp: window_inv_def)
      from task_step_window [OF step_task(4)] 2 w l
      show "window_log (sr_trace (sys_srv y')) = l \<and> sr_replay (sys_srv y') = rw"
        by (simp add: step_task(1))
    qed
  qed
qed

section \<open>Where commands come from\<close>

definition opened_from :: "srv_config \<Rightarrow> bytes list \<Rightarrow> bytes \<Rightarrow> bytes \<Rightarrow> i64 \<Rightarrow> bool" where
  "opened_from cfg packets pt nonce ts \<longleftrightarrow>
     (\<exists>packet \<in> set packets.
        decrypt_packet (cf_crypto cfg) (cf_psk cfg) packet (cf_memlimit cfg) = Ok (pt, nonce, ts))"

definition accepted :: "srv_event list \<Rightarrow> (i64 \<times> bytes) list" where
  "accepted es = map snd (filter fst (window_log es))"

fun pending1 :: "task \<Rightarrow> (i64 \<times> bytes) list" where
  "pending1 (TAccepted peer pt nonce ts) = [(ts, nonce)]"
| "pending1 _ = []"

definition pending :: "task list \<Rightarrow> (i64 \<times> bytes) multiset" where
  "pending ts = mset (concat (map pending1 ts))"

fun task_ok :: "srv_config \<Rightarrow> bytes list \<Rightarrow> task \<Rightarrow> bool" where
  "task_ok cfg packets (TReceived peer packet) = (packet \<in> set packets)"
| "task_ok cfg packets (TAccepted peer pt nonce ts) = opened_from cfg packets pt nonce ts"
| "task_ok cfg packets _ = True"

definition exec_pairs :: "srv_event list \<Rightarrow> (i64 \<times> bytes) multiset" where
  "exec_pairs es = mset (map (\<lambda>(ts, nonce, cmd). (ts, nonce)) (executed es))"

definition exec_inv :: "srv_config \<Rightarrow> sys \<Rightarrow> bool" where
  "exec_inv cfg y \<longleftrightarrow>
     list_all (task_ok cfg (sys_received y)) (sys_tasks y) \<and>
     (\<forall>(ts, nonce, cmd) \<in> set (executed (sr_trace (sys_srv y))).
        \<exists>pt. opened_from cfg (sys_received y) pt nonce ts \<and> cmd = remove_padding pt) \<and>
     exec_pairs (sr_trace (sys_srv y)) + pending (sys_tasks y) \<subseteq># mset (accepted (sr_trace (sys_srv y)))"

lemma task_ok_mono: "task_ok cfg packets t \<Longrightarrow> set packets \<subseteq> set packets' \<Longrightarrow> task_ok cfg packets' t"
  by (cases t) (auto simp: opened_from_def)

lemma pending_append [simp]: "pending (ts @ ts') = pending ts + pending ts'"
  by (simp add: pending_def)

lemma pending_replace:
  assumes "n < length ts"
  shows "pending (replace_task n t ts) + mset (pending1 (ts ! n)) =
    pending ts + mset (case t of Some t \<Rightarrow> pending1 t | None \<Rightarrow> [])"
proof -
  have "pending ts = pending (take n ts @ ts ! n # drop (Suc n) ts)"
    using assms by (simp flip: id_take_nth_drop)
  then show ?thesis
    by (simp add: replace_task_def pending_def split: option.split)
qed

lemma list_all_replace:
  "list_all P ts \<Longrightarrow> (\<And>x. t = Some x \<Longrightarrow> P x) \<Longrightarrow> list_all P (replace_task n t ts)"
  by (auto simp: replace_task_def list_all_iff dest: in_set_takeD in_set_dropD split: option.split)

text \<open>What a segment adds to the three parts of the invariant.\<close>

lemma task_step_exec:
  assumes "task_step cfg i t s = (t', s')" and "task_ok cfg packets t"
  shows "\<And>x. t' = Some x \<Longrightarrow> task_ok cfg packets x"
    and "\<exists>new. executed (sr_trace s') = executed (sr_trace s) @ new \<and>
      (\<forall>(ts, nonce, cmd) \<in> set new. \<exists>pt. opened_from cfg packets pt nonce ts \<and> cmd = remove_padding pt)"
    and "\<exists>acc. mset (accepted (sr_trace s')) = mset (accepted (sr_trace s)) + acc \<and>
      exec_pairs (sr_trace s') + mset (case t' of Some t \<Rightarrow> pending1 t | None \<Rightarrow> []) \<subseteq>#
        exec_pairs (sr_trace s) + mset (pending1 t) + acc"
proof -
  have "(\<forall>x. t' = Some x \<longrightarrow> task_ok cfg packets x) \<and>
    (\<exists>new. executed (sr_trace s') = executed (sr_trace s) @ new \<and>
      (\<forall>(ts, nonce, cmd) \<in> set new. \<exists>pt. opened_from cfg packets pt nonce ts \<and> cmd = remove_padding pt)) \<and>
    (\<exists>acc. mset (accepted (sr_trace s')) = mset (accepted (sr_trace s)) + acc \<and>
      exec_pairs (sr_trace s') + mset (case t' of Some t \<Rightarrow> pending1 t | None \<Rightarrow> []) \<subseteq>#
        exec_pairs (sr_trace s) + mset (pending1 t) + acc)"
  proof (cases t)
    case (TReceived peer packet)
    let ?r = "admit cfg (pi_time i) peer packet s"
    have s': "s' = snd ?r" and t': "t' = map_option (\<lambda>(pt, nonce, ts). TAccepted peer pt nonce ts) (fst ?r)"
      using assms(1) by (auto simp: TReceived split: prod.splits option.splits)
    have ex: "executed (sr_trace s') = executed (sr_trace s)"
      by (simp add: s' admit_executed)
    show ?thesis
    proof (cases "fst ?r")
      case None
      then have "accepted (sr_trace s') = accepted (sr_trace s)"
        unfolding s' accepted_def admit_def
        by (auto split: res.splits prod.splits if_splits)
      with None ex show ?thesis
        by (simp add: t' exec_pairs_def TReceived)
    next
      case (Some v)
      obtain pt nonce ts where v: "v = (pt, nonce, ts)" by (cases v)
      have "?r = (Some (pt, nonce, ts), s')"
        using Some s' v by (cases ?r) simp
      from admit_Some [OF this] have "opened_from cfg packets pt nonce ts"
        using assms(2) by (auto simp: TReceived opened_from_def)
      moreover have "accepted (sr_trace s') = accepted (sr_trace s) @ [(ts, nonce)]"
        using \<open>?r = _\<close> by (auto simp: accepted_def admit_def split: res.splits prod.splits if_splits)
      ultimately show ?thesis
        using ex Some by (simp add: t' v exec_pairs_def TReceived)
    qed
  next
    case (TAccepted peer pt nonce ts)
    let ?r = "run_command (pi_env i) (pi_child i) peer nonce ts pt s"
    have s': "s' = snd ?r" and t': "t' = map_option (TExecuted peer) (fst ?r)"
      using assms(1) by (auto simp: TAccepted split: prod.splits option.splits)
    have "opened_from cfg packets pt nonce ts"
      using assms(2) by (simp add: TAccepted)
    moreover have "accepted (sr_trace s') = accepted (sr_trace s)"
      by (simp add: s' accepted_def run_command_simps)
    moreover have "(case t' of Some t \<Rightarrow> pending1 t | None \<Rightarrow> []) = []"
      by (simp add: t' split: option.split)
    ultimately show ?thesis
      by (auto simp: s' t' TAccepted exec_pairs_def run_command_simps split: child.split)
  next
    case (TExecuted peer resp)
    let ?r = "seal_response cfg (pi_pad i) (pi_time2 i) (pi_salt i) (pi_nonce i) resp s"
    have s': "s' = snd ?r" and t': "t' = map_option (\<lambda>(enc, nonce2, ts2). TSealed peer enc nonce2 ts2) (fst ?r)"
      using assms(1) by (auto simp: TExecuted split: prod.splits option.splits)
    show ?thesis
      using t' by (auto simp: s' TExecuted exec_pairs_def accepted_def seal_response_simps split: option.split)
  next
    case (TSealed peer enc nonce2 ts2)
    with assms show ?thesis
      by (auto simp: exec_pairs_def accepted_def record_response_simps)
  next
    case (TRecorded peer enc)
    with assms show ?thesis
      by (auto simp: exec_pairs_def accepted_def send_response_simps)
  qed
  then show "\<And>x. t' = Some x \<Longrightarrow> task_ok cfg packets x"
    and "\<exists>new. executed (sr_trace s') = executed (sr_trace s) @ new \<and>
      (\<forall>(ts, nonce, cmd) \<in> set new. \<exists>pt. opened_from cfg packets pt nonce ts \<and> cmd = remove_padding pt)"
    and "\<exists>acc. mset (accepted (sr_trace s')) = mset (accepted (sr_trace s)) + acc \<and>
      exec_pairs (sr_trace s') + mset (case t' of Some t \<Rightarrow> pending1 t | None \<Rightarrow> []) \<subseteq>#
        exec_pairs (sr_trace s) + mset (pending1 t) + acc"
    by blast+
qed

lemma reachable_exec:
  "reachable cfg window max_size y \<Longrightarrow> exec_inv cfg y"
proof (induction rule: reachable.induct)
  case (reach_init logs)
  then show ?case
    using logs_only by (auto simp: exec_inv_def initial_def exec_pairs_def pending_def)
next
  case (reach_step y y')
  note inv = reach_step.IH [unfolded exec_inv_def]
  from reach_step.hyps(2) show ?case
  proof (cases rule: srv_step.cases)
    case (step_receive instant r spawned s)
    let ?new = "case spawned of Some (peer, buf) \<Rightarrow> [buf] | None \<Rightarrow> []"
    have s: "s = snd (receive instant r (sys_srv y))"
      using step_receive(2) by simp
    have ok: "list_all (task_ok cfg (sys_received y @ ?new)) (sys_tasks y)"
      using inv by (auto simp: list_all_iff intro: task_ok_mono)
    have "opened_from cfg (sys_received y) pt nonce ts \<Longrightarrow> opened_from cfg (sys_received y @ ?new) pt nonce ts"
      for pt nonce ts by (auto simp: opened_from_def)
    then have ex: "\<forall>(ts, nonce, cmd) \<in> set (executed (sr_trace s)).
        \<exists>pt. opened_from cfg (sys_received y @ ?new) pt nonce ts \<and> cmd = remove_padding pt"
      using inv by (fastforce simp: s receive_simps)
    have "pending (case spawned of Some (peer, buf) \<Rightarrow> [TReceived peer buf] | None \<Rightarrow> []) = {#}"
      by (cases spawned) (auto simp: pending_def)
    with ok ex inv show ?thesis
      by (auto simp: exec_inv_def step_receive(1) s receive_simps exec_pairs_def accepted_def
          split: option.split prod.split)
  next
    case (step_task n i t s)
    let ?t = "sys_tasks y ! n" and ?tr = "sr_trace (sys_srv y)"
    have tok: "task_ok cfg (sys_received y) ?t"
      using inv step_task(2) by (simp add: list_all_iff)
    note st = task_step_exec [OF step_task(4) tok]
    have 1: "list_all (task_ok cfg (sys_received y)) (replace_task n t (sys_tasks y))"
      using inv st(1) by (auto intro: list_all_replace)
    obtain new where "executed (sr_trace s) = executed ?tr @ new"
      "\<forall>(ts, nonce, cmd) \<in> set new. \<exists>pt. opened_from cfg (sys_received y) pt nonce ts \<and> cmd = remove_padding pt"
      using st(2) by blast
    then have 2: "\<forall>(ts, nonce, cmd) \<in> set (executed (sr_trace s)).
        \<exists>pt. opened_from cfg (sys_received y) pt nonce ts \<and> cmd = remove_padding pt"
      using inv by fastforce
    obtain acc where acc: "mset (accepted (sr_trace s)) = mset (accepted ?tr) + acc"
      and le: "exec_pairs (sr_trace s) + mset (case t of Some t \<Rightarrow> pending1 t | None \<Rightarrow> []) \<subseteq>#
        exec_pairs ?tr + mset (pending1 ?t) + acc"
      using st(3) by blast
    let ?p = "pending (replace_task n t (sys_tasks y))"
    have "exec_pairs (sr_trace s) + ?p + mset (pending1 ?t) =
        exec_pairs (sr_trace s) + mset (case t of Some t \<Rightarrow> pending1 t | None \<Rightarrow> []) + pending (sys_tasks y)"
      using pending_replace [OF step_task(2), of t] by (simp add: ac_simps)
    also have "\<dots> \<subseteq># exec_pairs ?tr + mset (pending1 ?t) + acc + pending (sys_tasks y)"
      using le by (rule mset_subset_eq_mono_add) simp
    also have "\<dots> = (exec_pairs ?tr + pending (sys_tasks y)) + acc + mset (pending1 ?t)"
      by (simp add: ac_simps)
    also have "\<dots> \<subseteq># mset (accepted ?tr) + acc + mset (pending1 ?t)"
      using inv by (intro mset_subset_eq_mono_add) simp_all
    finally have 3: "exec_pairs (sr_trace s) + ?p \<subseteq># mset (accepted (sr_trace s))"
      by (simp add: acc)
    from 1 2 3 show ?thesis
      by (simp add: exec_inv_def step_task(1))
  qed
qed

section \<open>Responses are recorded before they are sent\<close>

definition sealed_as :: "srv_config \<Rightarrow> bytes \<Rightarrow> i64 \<Rightarrow> bytes \<Rightarrow> bool" where
  "sealed_as cfg enc ts nonce \<longleftrightarrow>
     length nonce = NONCE_LEN \<and>
     (\<exists>salt resp. encrypt_packet (cf_crypto cfg) (cf_psk cfg) resp (cf_memlimit cfg) ts salt nonce = Ok (enc, nonce, ts))"

fun task_sealed :: "srv_config \<Rightarrow> srv_event list \<Rightarrow> task \<Rightarrow> bool" where
  "task_sealed cfg es (TSealed peer enc nonce ts) = sealed_as cfg enc ts nonce"
| "task_sealed cfg es (TRecorded peer enc) = (\<exists>ts nonce. SRecord ts nonce \<in> set es \<and> sealed_as cfg enc ts nonce)"
| "task_sealed cfg es _ = True"

definition sends_ok :: "srv_config \<Rightarrow> srv_event list \<Rightarrow> bool" where
  "sends_ok cfg es \<longleftrightarrow>
     (\<forall>xs enc peer ys. es = xs @ SSend enc peer # ys \<longrightarrow>
        (\<exists>ts nonce. SRecord ts nonce \<in> set xs \<and> sealed_as cfg enc ts nonce))"

lemma sends_ok_append:
  assumes "sends_ok cfg es" and "\<And>enc peer. SSend enc peer \<notin> set fs"
  shows "sends_ok cfg (es @ fs)"
  unfolding sends_ok_def
proof (intro allI impI)
  fix xs enc peer ys
  assume "es @ fs = xs @ SSend enc peer # ys"
  then consider us where "es = xs @ us" "us @ fs = SSend enc peer # ys"
    | us where "es @ us = xs" "fs = us @ SSend enc peer # ys"
    by (auto simp: append_eq_append_conv2)
  then have "\<exists>us'. es = xs @ SSend enc peer # us'"
  proof cases
    case (1 us)
    with assms(2) [of enc peer] show ?thesis by (cases us) auto
  next
    case (2 us)
    with assms(2) [of enc peer] show ?thesis by simp
  qed
  then show "\<exists>ts nonce. SRecord ts nonce \<in> set xs \<and> sealed_as cfg enc ts nonce"
    using assms(1) by (auto simp: sends_ok_def)
qed

lemma sends_ok_snoc:
  assumes "sends_ok cfg es" and "SRecord ts nonce \<in> set es" and "sealed_as cfg enc ts nonce"
  shows "sends_ok cfg (es @ [SSend enc peer])"
  unfolding sends_ok_def
proof (intro allI impI)
  fix xs enc' peer' ys
  assume e: "es @ [SSend enc peer] = xs @ SSend enc' peer' # ys"
  show "\<exists>ts nonce. SRecord ts nonce \<in> set xs \<and> sealed_as cfg enc' ts nonce"
  proof (cases ys rule: rev_cases)
    case Nil
    with e assms(2,3) show ?thesis by auto
  next
    case (snoc zs z)
    with e have "es = xs @ SSend enc' peer' # zs" by simp
    with assms(1) show ?thesis by (auto simp: sends_ok_def)
  qed
qed

text \<open>A segment other than the last sends nothing; the events it adds.\<close>

lemma task_step_sends:
  assumes "valid_inputs i" "task_step cfg i t s = (t', s')" "task_sealed cfg (sr_trace s) t" "sends_ok cfg (sr_trace s)"
  shows "sends_ok cfg (sr_trace s') \<and> set (sr_trace s) \<subseteq> set (sr_trace s') \<and>
    (\<forall>x. t' = Some x \<longrightarrow> task_sealed cfg (sr_trace s') x)"
proof (cases t)
  case (TReceived peer packet)
  have "\<exists>fs. sr_trace (snd (admit cfg (pi_time i) peer packet s)) = sr_trace s @ fs \<and>
      (\<forall>enc peer. SSend enc peer \<notin> set fs)"
    by (auto simp: admit_def split: res.split prod.split)
  with assms(2,4) show ?thesis
    by (auto simp: TReceived intro: sends_ok_append split: prod.splits option.splits)
next
  case (TAccepted peer pt nonce ts)
  have "\<exists>fs. sr_trace (snd (run_command (pi_env i) (pi_child i) peer nonce ts pt s)) = sr_trace s @ fs \<and>
      (\<forall>enc peer. SSend enc peer \<notin> set fs)"
    by (auto simp: run_command_def execute_command_def Let_def split: child.split)
  with assms(2,4) show ?thesis
    by (auto simp: TAccepted intro: sends_ok_append split: prod.splits option.splits)
next
  case (TExecuted peer resp)
  let ?r = "seal_response cfg (pi_pad i) (pi_time2 i) (pi_salt i) (pi_nonce i) resp s"
  have "\<exists>fs. sr_trace (snd ?r) = sr_trace s @ fs \<and> (\<forall>enc peer. SSend enc peer \<notin> set fs)"
    by (auto simp: seal_response_def Let_def split: res.split)
  moreover have "fst ?r = Some (enc, nonce2, ts2) \<Longrightarrow> sealed_as cfg enc ts2 nonce2" for enc nonce2 ts2
    using assms(1) by (auto simp: seal_response_def Let_def sealed_as_def valid_inputs_def dest: encrypt_packet_pair split: res.splits)
  ultimately show ?thesis
    using assms(2,4) by (cases ?r) (auto simp: TExecuted intro: sends_ok_append split: prod.splits option.splits)
next
  case (TSealed peer enc nonce2 ts2)
  have "sends_ok cfg (sr_trace s @ [SRecord ts2 nonce2])"
    by (rule sends_ok_append [OF assms(4)]) simp
  moreover have "t' = Some (TRecorded peer enc)" "s' = record_response nonce2 ts2 s"
    using assms(2) by (simp_all add: TSealed)
  ultimately show ?thesis
    using assms(3) by (fastforce simp: TSealed record_response_def)
next
  case (TRecorded peer enc)
  have err: "sends_ok cfg (sr_trace s @ [SError e])" for e
    by (rule sends_ok_append [OF assms(4)]) simp
  have "sends_ok cfg (sr_trace s @ [SSend enc peer])"
    using assms(3) sends_ok_snoc [OF assms(4)] by (auto simp: TRecorded)
  with assms(2) err show ?thesis
    by (auto simp: TRecorded send_response_def split: option.splits)
qed

lemma task_sealed_mono: "task_sealed cfg es t \<Longrightarrow> set es \<subseteq> set fs \<Longrightarrow> task_sealed cfg fs t"
  by (cases t) auto

lemma reachable_sends:
  "reachable cfg window max_size y \<Longrightarrow>
     sends_ok cfg (sr_trace (sys_srv y)) \<and> list_all (task_sealed cfg (sr_trace (sys_srv y))) (sys_tasks y)"
proof (induction rule: reachable.induct)
  case (reach_init logs)
  then have "sends_ok cfg logs"
    using logs_only [of logs] by (auto simp: sends_ok_def)
  then show ?case
    by (simp add: initial_def)
next
  case (reach_step y y')
  from reach_step.hyps(2) show ?case
  proof (cases rule: srv_step.cases)
    case (step_receive instant r spawned s)
    have "\<exists>fs. sr_trace s = sr_trace (sys_srv y) @ fs \<and> (\<forall>enc peer. SSend enc peer \<notin> set fs)"
      using step_receive(2) by (auto simp: receive_def Let_def split: sum.splits prod.splits if_splits)
    then obtain fs where fs: "sr_trace s = sr_trace (sys_srv y) @ fs" "\<And>enc peer. SSend enc peer \<notin> set fs"
      by blast
    have "list_all (task_sealed cfg (sr_trace s)) (sys_tasks y)"
      using reach_step.IH by (auto simp: list_all_iff fs(1) intro: task_sealed_mono)
    with reach_step.IH sends_ok_append [OF _ fs(2), of cfg "sr_trace (sys_srv y)"] show ?thesis
      by (auto simp: step_receive(1) fs(1) split: option.split)
  next
    case (step_task n i t s)
    have "task_sealed cfg (sr_trace (sys_srv y)) (sys_tasks y ! n)"
      using reach_step.IH step_task(2) by (simp add: list_all_iff)
    with task_step_sends [OF step_task(3,4)] reach_step.IH
    have st: "sends_ok cfg (sr_trace s)" "set (sr_trace (sys_srv y)) \<subseteq> set (sr_trace s)"
      "\<And>x. t = Some x \<Longrightarrow> task_sealed cfg (sr_trace s) x"
      by blast+
    moreover have "list_all (task_sealed cfg (sr_trace s)) (sys_tasks y)"
      using reach_step.IH st(2) by (auto simp: list_all_iff intro: task_sealed_mono)
    ultimately show ?thesis
      by (simp add: step_task(1) list_all_replace)
  qed
qed

section \<open>\<open>process_packet\<close> as one schedule\<close>

text \<open>A task run to its end, with the uses of the window it makes.\<close>

fun run_task :: "nat \<Rightarrow> srv_config \<Rightarrow> packet_inputs \<Rightarrow> task \<Rightarrow> srv \<Rightarrow> cache_op list \<times> task option \<times> srv" where
  "run_task 0 cfg i t s = ([], Some t, s)"
| "run_task (Suc k) cfg i t s =
     (case task_step cfg i t s of
        (None, s) \<Rightarrow> (task_op cfg i t, None, s)
      | (Some t', s) \<Rightarrow> (case run_task k cfg i t' s of (ops, r) \<Rightarrow> (task_op cfg i t @ ops, r)))"

text \<open>A task has at most five segments.\<close>

lemma run_task_process:
  "snd (run_task 5 cfg i (TReceived peer packet) s) = (None, process_packet cfg i peer packet s)"
proof -
  have five: "5 = Suc (Suc (Suc (Suc (Suc 0))))" by simp
  show ?thesis
    unfolding five
    by (simp add: process_packet_def split: option.split prod.split)
qed

lemma reachable_run_task:
  assumes "reachable cfg window max_size y" "sys_tasks y = ts @ [t]" "valid_inputs i"
    and "run_task k cfg i t (sys_srv y) = (ops, t', s)"
  shows "\<exists>y'. reachable cfg window max_size y' \<and> sys_srv y' = s \<and>
    sys_tasks y' = ts @ (case t' of Some t \<Rightarrow> [t] | None \<Rightarrow> []) \<and>
    sys_ops y' = sys_ops y @ ops \<and> sys_received y' = sys_received y"
  using assms
proof (induction k arbitrary: y t ops)
  case 0
  then show ?case by (intro exI [of _ y]) auto
next
  case (Suc k)
  obtain t1 s1 where st: "task_step cfg i t (sys_srv y) = (t1, s1)" by fastforce
  let ?y = "y\<lparr>sys_srv := s1, sys_tasks := replace_task (length ts) t1 (sys_tasks y),
      sys_ops := sys_ops y @ task_op cfg i (sys_tasks y ! length ts)\<rparr>"
  have "task_step cfg i (sys_tasks y ! length ts) (sys_srv y) = (t1, s1)"
    using st Suc.prems(2) by simp
  then have r: "reachable cfg window max_size ?y"
    using Suc.prems by (intro reach_step [OF Suc.prems(1)] step_task) simp_all
  show ?case
  proof (cases t1)
    case None
    with Suc.prems st r show ?thesis
      by (intro exI [of _ ?y]) (auto simp: replace_task_def)
  next
    case (Some t2)
    then obtain ops2 where r2: "run_task k cfg i t2 s1 = (ops2, t', s)" and ops: "ops = task_op cfg i t @ ops2"
      using Suc.prems(4) st by (auto split: prod.splits)
    have "sys_tasks ?y = ts @ [t2]"
      using Suc.prems(2) Some by (simp add: replace_task_def)
    from Suc.IH [OF r this Suc.prems(3)] r2 obtain y' where
      "reachable cfg window max_size y'" "sys_srv y' = s"
      "sys_tasks y' = ts @ (case t' of Some t \<Rightarrow> [t] | None \<Rightarrow> [])"
      "sys_ops y' = sys_ops ?y @ ops2" "sys_received y' = sys_received ?y"
      by auto
    then show ?thesis
      using Suc.prems(2) ops by (intro exI [of _ y']) simp
  qed
qed

text \<open>A packet of a sender that is not limited, handled at once.\<close>

lemma receive_first:
  "receive instant (Inr (datagram, peer)) s =
     (Some (peer, take MAX_CT_SIZE datagram), s\<lparr>sr_limiter := snd (allow instant peer (sr_limiter s))\<rparr>)"
  if "fst (allow instant peer (sr_limiter s))"
  using that by (auto simp: receive_def Let_def split: prod.split)

lemma allow_new: "fst (allow instant peer server_limiter)"
  by (simp add: fst_allow serve_def refill_def current_def retain_seen_def duration_since_def)

lemma reachable_process:
  assumes "reachable cfg window max_size y" "sys_tasks y = []" "valid_inputs i"
    and "fst (allow instant peer (sr_limiter (sys_srv y)))" "length packet \<le> MAX_CT_SIZE"
  shows "\<exists>y'. reachable cfg window max_size y' \<and> sys_tasks y' = [] \<and>
    sys_srv y' = process_packet cfg i peer packet
      (sys_srv y\<lparr>sr_limiter := snd (allow instant peer (sr_limiter (sys_srv y)))\<rparr>) \<and>
    sys_ops y' = sys_ops y @ fst (run_task 5 cfg i (TReceived peer packet)
      (sys_srv y\<lparr>sr_limiter := snd (allow instant peer (sr_limiter (sys_srv y)))\<rparr>)) \<and>
    sys_received y' = sys_received y @ [packet]"
proof -
  let ?s = "sys_srv y\<lparr>sr_limiter := snd (allow instant peer (sr_limiter (sys_srv y)))\<rparr>"
  let ?y = "y\<lparr>sys_srv := ?s, sys_tasks := [TReceived peer packet], sys_received := sys_received y @ [packet]\<rparr>"
  have "receive instant (Inr (packet, peer)) (sys_srv y) = (Some (peer, packet), ?s)"
    using receive_first [OF assms(4), of packet] assms(5) by simp
  from step_receive [OF this, of cfg] assms(2) have "srv_step cfg y ?y"
    by simp
  with assms(1) have r: "reachable cfg window max_size ?y"
    by (rule reach_step)
  have "run_task 5 cfg i (TReceived peer packet) (sys_srv ?y) =
      (fst (run_task 5 cfg i (TReceived peer packet) ?s), None, process_packet cfg i peer packet ?s)"
    using run_task_process [of cfg i peer packet ?s] by (simp add: prod_eq_iff)
  from reachable_run_task [OF r _ assms(3) this, of "[]"] show ?thesis
    by auto
qed

section \<open>A packet from end to end\<close>

lemma run_command_output:
  assumes "run_child (command_line env) (remove_padding pt) = Output stdout stderr"
  shows "\<exists>logs. list_all is_log logs \<and>
    run_command env run_child peer nonce ts pt s =
      (Some (take MAX_PT_SIZE (stdout @ stderr)),
       sr_emit (logs @ [SExec ts nonce (command_line env) (remove_padding pt)]) s)"
proof -
  let ?l = "[SInfo (''command from '' @ addr_to_str peer @ '' ('' @ show_nat (length (remove_padding pt)) @ '' bytes)''),
      SInfo (''  '' @ from_utf8_lossy (remove_padding pt))]"
  have "(if MAX_PT_SIZE < length r then take MAX_PT_SIZE r else r) = take MAX_PT_SIZE r" for r :: bytes
    by simp
  then show ?thesis
    using assms
    by (intro exI [of _ "?l @ (if detect_ktuctl env then [SInfo ''Use ktuctl instead of tuctl''] else [])"])
      (simp add: run_command_def execute_command_def Let_def sr_emit_def)
qed

lemma process_packet_success:
  assumes "decrypt_packet (cf_crypto cfg) (cf_psk cfg) packet (cf_memlimit cfg) = Ok (pt, nonce, ts)"
    and "replay_check (cf_profile cfg) (current_unix_time (pi_time i)) ts nonce (sr_replay s) = Ok (True, rw)"
    and "pi_child i (command_line (pi_env i)) (remove_padding pt) = Output stdout stderr"
    and "encrypt_packet (cf_crypto cfg) (cf_psk cfg)
      (pad_response (take MAX_PT_SIZE (stdout @ stderr)) (pi_pad i)) (cf_memlimit cfg)
      (current_unix_time (pi_time2 i)) (pi_salt i) (pi_nonce i) = Ok (enc, nonce2, ts2)"
    and "pi_send_err i = None"
  shows "\<exists>logs logs'. list_all is_log logs \<and> list_all is_log logs' \<and>
      sr_trace (process_packet cfg i peer packet s) = sr_trace s @ [SAccept ts nonce] @ logs @
        [SExec ts nonce (command_line (pi_env i)) (remove_padding pt)] @ logs' @
        [SRecord ts2 nonce2, SSend enc peer]"
    and "sr_replay (process_packet cfg i peer packet s) = replay_add ts2 nonce2 (replay_add ts nonce rw)"
    and "fst (run_task 5 cfg i (TReceived peer packet) s) =
      [Offer (current_unix_time (pi_time i)) ts nonce, Record ts2 nonce2]"
proof -
  let ?s1 = "sr_emit [SAccept ts nonce] (s\<lparr>sr_replay := replay_add ts nonce rw\<rparr>)"
  let ?resp = "take MAX_PT_SIZE (stdout @ stderr)"
  have a: "admit cfg (pi_time i) peer packet s = (Some (pt, nonce, ts), ?s1)"
    using assms(1,2) by (simp add: admit_def)
  obtain logs where logs: "list_all is_log logs"
    and c: "run_command (pi_env i) (pi_child i) peer nonce ts pt ?s1 = (Some ?resp,
       sr_emit (logs @ [SExec ts nonce (command_line (pi_env i)) (remove_padding pt)]) ?s1)"
    using run_command_output [of "pi_child i" "pi_env i" pt stdout stderr peer nonce ts ?s1, OF assms(3)] by blast
  let ?s2 = "sr_emit (logs @ [SExec ts nonce (command_line (pi_env i)) (remove_padding pt)]) ?s1"
  let ?log = "SInfo (''response: '' @ show_nat (length (pad_response ?resp (pi_pad i))) @ '' bytes'')"
  have e: "seal_response cfg (pi_pad i) (pi_time2 i) (pi_salt i) (pi_nonce i) ?resp ?s2 =
      (Some (enc, nonce2, ts2), sr_emit [?log] ?s2)"
    using assms(4) by (simp add: seal_response_def Let_def)
  have p: "process_packet cfg i peer packet s = send_response None enc peer (record_response nonce2 ts2 (sr_emit [?log] ?s2))"
    by (simp only: process_packet_def a c e assms(5) prod.case option.case)
  show "\<exists>logs logs'. list_all is_log logs \<and> list_all is_log logs' \<and>
      sr_trace (process_packet cfg i peer packet s) = sr_trace s @ [SAccept ts nonce] @ logs @
        [SExec ts nonce (command_line (pi_env i)) (remove_padding pt)] @ logs' @
        [SRecord ts2 nonce2, SSend enc peer]"
    by (intro exI [of _ logs] exI [of _ "[?log]"]) (simp add: p logs send_response_def record_response_def)
  show "sr_replay (process_packet cfg i peer packet s) = replay_add ts2 nonce2 (replay_add ts nonce rw)"
    by (simp add: p send_response_def record_response_def)
  have five: "5 = Suc (Suc (Suc (Suc (Suc 0))))" by simp
  show "fst (run_task 5 cfg i (TReceived peer packet) s) =
      [Offer (current_unix_time (pi_time i)) ts nonce, Record ts2 nonce2]"
    unfolding five
    by (simp only: run_task.simps task_step.simps a c e prod.case option.case res.case assms(1) task_op.simps
        append.simps fst_conv)
qed

section \<open>A run to look at\<close>

text \<open>A client's command \<open>load\<close> arrives, is run and answered, with the sample cipher.\<close>

definition sample_cfg :: srv_config where
  "sample_cfg = \<lparr>cf_crypto = sample_crypto, cf_psk = ''password'', cf_memlimit = 1024, cf_profile = Release\<rparr>"

definition sample_packet :: bytes where
  "sample_packet = replicate 16 1 @ to_be 8 (100 :: i64) @ replicate 24 2 @ as_bytes ''load##'' @
     sample_tag (take 32 (as_bytes ''password'' @ replicate 16 1 @ replicate 32 0))"

definition sample_inputs :: packet_inputs where
  "sample_inputs =
     \<lparr>pi_time = 101, pi_env = \<lparr>env_var = (\<lambda>_. None), module_exists = True\<rparr>,
      pi_child = (\<lambda>_ _. Output (as_bytes ''ok'') []), pi_pad = 0, pi_time2 = 102,
      pi_salt = replicate 16 3, pi_nonce = replicate 24 4, pi_send_err = None\<rparr>"

definition sample_response :: bytes where
  "sample_response = replicate 16 3 @ to_be 8 (102 :: i64) @ replicate 24 4 @ as_bytes ''ok'' @
     sample_tag (take 32 (as_bytes ''password'' @ replicate 16 3 @ replicate 32 0))"

definition sample_peer :: SocketAddr where
  "sample_peer = SockV4 [192, 168, 1, 2] 40000"

lemma sample_remove: "remove_padding (as_bytes ''load##'') = as_bytes ''load''"
  by code_simp

lemma sample_facts:
  "decrypt_packet (cf_crypto sample_cfg) (cf_psk sample_cfg) sample_packet (cf_memlimit sample_cfg) =
     Ok (as_bytes ''load##'', replicate 24 2, 100)"
  "decrypt_packet (cf_crypto sample_cfg) (cf_psk sample_cfg) sample_response (cf_memlimit sample_cfg) =
     Ok (as_bytes ''ok'', replicate 24 4, 102)"
  "replay_check (cf_profile sample_cfg) (current_unix_time (pi_time sample_inputs)) 100 (replicate 24 2)
     (replay_new 30 8) = Ok (True, replay_new 30 8)"
  "pi_child sample_inputs (command_line (pi_env sample_inputs)) (remove_padding (as_bytes ''load##'')) =
     Output (as_bytes ''ok'') []"
  "encrypt_packet (cf_crypto sample_cfg) (cf_psk sample_cfg)
     (pad_response (take MAX_PT_SIZE (as_bytes ''ok'' @ [])) (pi_pad sample_inputs)) (cf_memlimit sample_cfg)
     (current_unix_time (pi_time2 sample_inputs)) (pi_salt sample_inputs) (pi_nonce sample_inputs) =
     Ok (sample_response, replicate 24 4, 102)"
  "pi_send_err sample_inputs = None" "valid_inputs sample_inputs" "length sample_packet \<le> MAX_CT_SIZE"
  "sr_replay (sys_srv (initial 30 8 [])) = replay_new 30 8" "crypto_ok (cf_crypto sample_cfg)"
proof -
  have 1: "pad_response (take MAX_PT_SIZE (as_bytes ''ok'' @ [])) (pi_pad sample_inputs) = as_bytes ''ok''"
    by (simp add: pad_response_def Let_def MAX_PT_SIZE_def sample_inputs_def)
  have 2: "current_unix_time 101 = 101" "current_unix_time 102 = 102"
    by (simp_all add: current_unix_time_def)
  have 3: "replay_check Release 101 100 (replicate 24 2) (replay_new 30 8) = Ok (True, replay_new 30 8)"
    by (simp add: replay_new_def, code_simp)
  have 4: "encrypt_packet sample_crypto ''password'' (as_bytes ''ok'') 1024 102 (replicate 16 3) (replicate 24 4) =
     Ok (sample_response, replicate 24 4, 102)"
    by code_simp
  have 5: "decrypt_packet sample_crypto ''password'' sample_packet 1024 = Ok (as_bytes ''load##'', replicate 24 2, 100)"
    "decrypt_packet sample_crypto ''password'' sample_response 1024 = Ok (as_bytes ''ok'', replicate 24 4, 102)"
    by code_simp+
  show "encrypt_packet (cf_crypto sample_cfg) (cf_psk sample_cfg)
     (pad_response (take MAX_PT_SIZE (as_bytes ''ok'' @ [])) (pi_pad sample_inputs)) (cf_memlimit sample_cfg)
     (current_unix_time (pi_time2 sample_inputs)) (pi_salt sample_inputs) (pi_nonce sample_inputs) =
     Ok (sample_response, replicate 24 4, 102)"
    unfolding 1 by (simp only: sample_cfg_def sample_inputs_def 2 4 srv_config.select_convs packet_inputs.select_convs)
  show "decrypt_packet (cf_crypto sample_cfg) (cf_psk sample_cfg) sample_packet (cf_memlimit sample_cfg) =
     Ok (as_bytes ''load##'', replicate 24 2, 100)"
    "decrypt_packet (cf_crypto sample_cfg) (cf_psk sample_cfg) sample_response (cf_memlimit sample_cfg) =
     Ok (as_bytes ''ok'', replicate 24 4, 102)"
    by (simp_all only: sample_cfg_def 5 srv_config.select_convs)
  show "replay_check (cf_profile sample_cfg) (current_unix_time (pi_time sample_inputs)) 100 (replicate 24 2)
     (replay_new 30 8) = Ok (True, replay_new 30 8)"
    by (simp only: sample_cfg_def sample_inputs_def 2 3 srv_config.select_convs packet_inputs.select_convs)
  show "length sample_packet \<le> MAX_CT_SIZE"
    by (simp add: sample_packet_def MAX_CT_SIZE_def MAX_PT_SIZE_def sample_tag_def)
qed (simp_all add: sample_cfg_def sample_inputs_def valid_inputs_def initial_def sample_crypto_ok)

lemma sample_run:
  "\<exists>y xs. reachable sample_cfg 30 8 y \<and> sys_received y = [sample_packet] \<and>
     sys_ops y = [Offer 101 100 (replicate 24 2), Record 102 (replicate 24 4)] \<and>
     executed (sr_trace (sys_srv y)) = [(100, replicate 24 2, as_bytes ''load'')] \<and>
     sr_trace (sys_srv y) = xs @ [SSend sample_response sample_peer]"
proof -
  let ?y = "initial 30 8 []"
  let ?s = "sys_srv ?y\<lparr>sr_limiter := snd (allow 0 sample_peer (sr_limiter (sys_srv ?y)))\<rparr>"
  have r: "reachable sample_cfg 30 8 ?y"
    by (rule reach_init) simp
  have a: "fst (allow 0 sample_peer (sr_limiter (sys_srv ?y)))"
    by (simp add: initial_def allow_new)
  have w: "sr_replay ?s = replay_new 30 8"
    by (simp add: initial_def)
  note p = process_packet_success [where cfg = sample_cfg and i = sample_inputs and s = ?s and peer = sample_peer,
      OF sample_facts(1) sample_facts(3) [folded w] sample_facts(4-6)]
  obtain logs logs' where l: "list_all is_log logs" "list_all is_log logs'" and
    tr: "sr_trace (process_packet sample_cfg sample_inputs sample_peer sample_packet ?s) =
      sr_trace ?s @ [SAccept 100 (replicate 24 2)] @ logs @
        [SExec 100 (replicate 24 2) (command_line (pi_env sample_inputs)) (remove_padding (as_bytes ''load##''))] @
        logs' @ [SRecord 102 (replicate 24 4), SSend sample_response sample_peer]"
    using p(1) by blast
  have ops: "fst (run_task 5 sample_cfg sample_inputs (TReceived sample_peer sample_packet) ?s) =
      [Offer 101 100 (replicate 24 2), Record 102 (replicate 24 4)]"
    using p(3) by (simp add: sample_inputs_def current_unix_time_def)
  have "executed logs = []" "executed logs' = []"
    using logs_only l by blast+
  then have ex: "executed (sr_trace (process_packet sample_cfg sample_inputs sample_peer sample_packet ?s)) =
      [(100, replicate 24 2, as_bytes ''load'')]"
    unfolding tr by (simp add: sample_remove) (simp add: initial_def)
  obtain y' where "reachable sample_cfg 30 8 y'"
    "sys_srv y' = process_packet sample_cfg sample_inputs sample_peer sample_packet ?s"
    "sys_ops y' = [Offer 101 100 (replicate 24 2), Record 102 (replicate 24 4)]" "sys_received y' = [sample_packet]"
    using reachable_process [OF r _ sample_facts(7) a sample_facts(8)]
    unfolding ops by (auto simp: initial_def)
  with ex tr show ?thesis
    by (intro exI [of _ y']) auto
qed

lemma sample_times:
  "timely 0 [Offer 101 100 (replicate 24 2), Record 102 (replicate 24 4)]"
  "fits (replay_check Release) replay_add (\<lambda>rw. length (rw_entries rw) < unat (rw_max_size rw))
     [Offer 101 100 (replicate 24 2), Record 102 (replicate 24 4)] (replay_new 30 8)"
proof -
  show "timely 0 [Offer 101 100 (replicate 24 2), Record 102 (replicate 24 4)]"
    by (simp add: is_date_def)
  have "replay_check Release 101 100 (replicate 24 2) (replay_new 30 8) = Ok (True, replay_new 30 8)"
    by (simp add: replay_new_def, code_simp)
  then show "fits (replay_check Release) replay_add (\<lambda>rw. length (rw_entries rw) < unat (rw_max_size rw))
     [Offer 101 100 (replicate 24 2), Record 102 (replicate 24 4)] (replay_new 30 8)"
    by (simp add: replay_new_def replay_add_def Let_def)
qed

lemma distinct_submset:
  assumes "distinct xs" and "mset ys \<subseteq># mset xs"
  shows "distinct ys"
proof -
  have "count (mset ys) a = (if a \<in> set ys then 1 else 0)" for a
  proof (cases "a \<in> set ys")
    case True
    have "count (mset ys) a \<le> count (mset xs) a"
      by (rule mset_subset_eq_count [OF assms(2)])
    also have "\<dots> \<le> 1"
      using assms(1) [unfolded distinct_count_atmost_1, rule_format, of a] by simp
    finally have "count (mset ys) a \<le> 1" .
    moreover have "1 \<le> count (mset ys) a"
      using True by (subst count_greater_eq_one_iff) simp
    ultimately have "count (mset ys) a = 1"
      by (rule le_antisym)
    with True show ?thesis by simp
  next
    case False
    then have "a \<notin># mset ys" by simp
    then have "count (mset ys) a = 0" by (subst (asm) not_in_iff)
    with False show ?thesis by simp
  qed
  then show ?thesis
    by (simp add: distinct_count_atmost_1)
qed

text \<open>The log of a reachable state has no replay.\<close>

lemma reachable_no_replay:
  assumes "reachable cfg window max_size y" and "timely m (sys_ops y)"
    and "fits (replay_check (cf_profile cfg)) replay_add
      (\<lambda>rw. length (rw_entries rw) < unat (rw_max_size rw)) (sys_ops y) (replay_new window max_size)"
  shows "no_replay {} (window_log (sr_trace (sys_srv y)))"
proof -
  have "rw_pairs (replay_new window max_size) = []"
    by (simp add: rw_pairs_def replay_new_def)
  from server_cache.run_ops_no_replay_empty [OF this assms(2), of "cf_profile cfg", unfolded room_eq, OF assms(3)]
  obtain l where "run_ops (replay_check (cf_profile cfg)) replay_add (sys_ops y) (replay_new window max_size) = Ok l"
    and nr: "no_replay {} l" by blast
  then obtain rw where "window_exec (cf_profile cfg) (sys_ops y) (replay_new window max_size) = Ok (l, rw)"
    by (auto simp: run_ops_exec_ops res_bind_Ok_iff)
  with reachable_window [OF assms(1)] nr show ?thesis
    by (auto simp: window_inv_def)
qed

section \<open>Properties\<close>

text \<open>
  C1. Authenticity: in every reachable state of the server, whatever datagrams arrived and however
  the tasks interleaved, every command that was offered to a child process is the padding-free
  content of a received packet that was sealed under the server's secret with the recorded
  timestamp and nonce.
\<close>

theorem executed_commands_are_authentic:
  assumes "crypto_ok (cf_crypto cfg)" and "reachable cfg window max_size y"
    and "(ts, nonce, cmd) \<in> set (executed (sr_trace (sys_srv y)))"
  shows "\<exists>packet \<in> set (sys_received y). \<exists>salt pt.
    encrypt_packet (cf_crypto cfg) (cf_psk cfg) pt (cf_memlimit cfg) ts salt nonce = Ok (packet, nonce, ts) \<and>
    cmd = remove_padding pt"
proof -
  obtain pt packet where "packet \<in> set (sys_received y)" "cmd = remove_padding pt"
    and d: "decrypt_packet (cf_crypto cfg) (cf_psk cfg) packet (cf_memlimit cfg) = Ok (pt, nonce, ts)"
    using reachable_exec [OF assms(2)] assms(3) by (fastforce simp: exec_inv_def opened_from_def)
  moreover have "\<exists>salt. encrypt_packet (cf_crypto cfg) (cf_psk cfg) pt (cf_memlimit cfg) ts salt nonce = Ok (packet, nonce, ts)"
    using server_codec.seal_open [OF assms(1), of "cf_psk cfg" "cf_memlimit cfg" packet pt nonce ts] d
    by (auto simp: server_open_def dest: server_seal_encrypt)
  ultimately show ?thesis by blast
qed

theorem executed_commands_are_authentic_witness:
  "\<exists>salt pt. encrypt_packet sample_crypto ''password'' pt 1024 100 salt (replicate 24 2) =
     Ok (sample_packet, replicate 24 2, 100) \<and> as_bytes ''load'' = remove_padding pt"
proof -
  obtain y where r: "reachable sample_cfg 30 8 y" and p: "sys_received y = [sample_packet]"
    and e: "executed (sr_trace (sys_srv y)) = [(100, replicate 24 2, as_bytes ''load'')]"
    using sample_run by blast
  have "(100, replicate 24 2, as_bytes ''load'') \<in> set (executed (sr_trace (sys_srv y)))"
    by (simp add: e)
  from executed_commands_are_authentic [OF sample_facts(10) r this] show ?thesis
    by (simp add: p sample_cfg_def)
qed

text \<open>
  C2. At most once: as long as clock readings are dates that do not go back and offered timestamps are
  less than 2^63 seconds away (\<open>timely\<close>), and the window is never full when a pair is recorded
  (\<open>fits\<close>), no two commands run on behalf of the same timestamp and nonce, so no captured packet
  runs its command again. The tasks may interleave in any way. Without the second condition the
  window accepts an evicted packet again (\<open>evicted_packet_is_accepted_again\<close>).
\<close>

theorem no_command_runs_twice:
  assumes "reachable cfg window max_size y" and "timely m (sys_ops y)"
    and "fits (replay_check (cf_profile cfg)) replay_add
      (\<lambda>rw. length (rw_entries rw) < unat (rw_max_size rw)) (sys_ops y) (replay_new window max_size)"
  shows "distinct (map (\<lambda>(ts, nonce, cmd). (ts, nonce)) (executed (sr_trace (sys_srv y))))"
proof -
  have "distinct (accepted (sr_trace (sys_srv y)))"
    using no_replay_distinct [OF reachable_no_replay [OF assms]] by (simp add: accepted_def)
  moreover have "exec_pairs (sr_trace (sys_srv y)) \<subseteq># mset (accepted (sr_trace (sys_srv y)))"
    using reachable_exec [OF assms(1)] by (auto simp: exec_inv_def intro: subset_mset.trans [OF mset_subset_eq_add_left])
  ultimately show ?thesis
    unfolding exec_pairs_def by (rule distinct_submset)
qed

theorem no_command_runs_twice_witness:
  "\<exists>y. reachable sample_cfg 30 8 y \<and> executed (sr_trace (sys_srv y)) = [(100, replicate 24 2, as_bytes ''load'')] \<and>
     distinct (map (\<lambda>(ts, nonce, cmd). (ts, nonce)) (executed (sr_trace (sys_srv y))))"
proof -
  obtain y where r: "reachable sample_cfg 30 8 y"
    and o: "sys_ops y = [Offer 101 100 (replicate 24 2), Record 102 (replicate 24 4)]"
    and e: "executed (sr_trace (sys_srv y)) = [(100, replicate 24 2, as_bytes ''load'')]"
    using sample_run by blast
  have p: "cf_profile sample_cfg = Release"
    by (simp add: sample_cfg_def)
  from no_command_runs_twice [OF r, of 0] sample_times r e show ?thesis
    unfolding o p by blast
qed

text \<open>
  C7. No reflection: every response was sealed under a pair that the server had recorded in its
  window before it sent the response; so as long as the clock readings are dates that do not go back
  (\<open>timely\<close>) and the window is never full when a pair is recorded (\<open>fits\<close>), a response that is sent
  back to the server is not accepted as a command afterwards.
\<close>

theorem reflected_response_is_not_accepted:
  assumes "crypto_ok (cf_crypto cfg)" and "reachable cfg window max_size y" and "timely m (sys_ops y)"
    and "fits (replay_check (cf_profile cfg)) replay_add
      (\<lambda>rw. length (rw_entries rw) < unat (rw_max_size rw)) (sys_ops y) (replay_new window max_size)"
    and "sr_trace (sys_srv y) = xs @ SSend enc peer # ys"
    and "decrypt_packet (cf_crypto cfg) (cf_psk cfg) enc (cf_memlimit cfg) = Ok (pt, nonce, ts)"
  shows "SRecord ts nonce \<in> set xs \<and> SAccept ts nonce \<notin> set ys"
proof -
  have "sends_ok cfg (xs @ SSend enc peer # ys)"
    using reachable_sends [OF assms(2)] unfolding assms(5) by (rule conjunct1)
  then obtain ts' nonce' where rec: "SRecord ts' nonce' \<in> set xs" and "sealed_as cfg enc ts' nonce'"
    unfolding sends_ok_def by blast
  then obtain salt resp where
    "server_seal (cf_crypto cfg) (cf_psk cfg) (cf_memlimit cfg) ts' salt nonce' resp = Ok enc"
    "length nonce' = NONCE_LEN"
    unfolding sealed_as_def by (blast dest: server_seal_of_encrypt)
  from server_codec.open_seal [OF assms(1) this] assms(6)
  have eq: "ts' = ts" "nonce' = nonce"
    by (auto simp: server_open_def)
  have "no_replay {} (window_log xs @ window_log ys)"
    using reachable_no_replay [OF assms(2-4)] by (simp add: assms(5))
  from no_replay_append [OF this] have nr: "no_replay (snd ` set (window_log xs)) (window_log ys)"
    by (simp only: Un_empty_left)
  have "(False, ts, nonce) \<in> set (window_log xs)"
    using rec eq by (simp add: set_window_log)
  then have "snd (False, ts, nonce) \<in> snd ` set (window_log xs)"
    by (rule imageI)
  then have "(True, ts, nonce) \<notin> set (window_log ys)"
    using no_replay_fresh [OF nr, of "(ts, nonce)"] by auto
  then have "SAccept ts nonce \<notin> set ys"
    by (simp add: set_window_log)
  with rec eq show ?thesis by simp
qed

theorem reflected_response_is_not_accepted_witness:
  "\<exists>y xs. reachable sample_cfg 30 8 y \<and> sr_trace (sys_srv y) = xs @ [SSend sample_response sample_peer] \<and>
     SRecord 102 (replicate 24 4) \<in> set xs"
proof -
  obtain y xs where r: "reachable sample_cfg 30 8 y"
    and o: "sys_ops y = [Offer 101 100 (replicate 24 2), Record 102 (replicate 24 4)]"
    and t: "sr_trace (sys_srv y) = xs @ SSend sample_response sample_peer # []"
    using sample_run by auto
  have p: "cf_profile sample_cfg = Release"
    by (simp add: sample_cfg_def)
  from reflected_response_is_not_accepted [OF sample_facts(10) r _ _ t sample_facts(2), of 0] sample_times
  have "SRecord 102 (replicate 24 4) \<in> set xs"
    unfolding o p by blast
  with r t show ?thesis by auto
qed

text \<open>
  C6. A fresh authentic command is handled in full: recorded, run once with its padding removed,
  and its output, cut to the plaintext limit and padded, is sealed, recorded and sent to the
  sender, in this order, with nothing but log lines between.
\<close>

theorem fresh_command_is_run_and_answered:
  assumes "decrypt_packet (cf_crypto cfg) (cf_psk cfg) packet (cf_memlimit cfg) = Ok (pt, nonce, ts)"
    and "replay_check (cf_profile cfg) (current_unix_time (pi_time i)) ts nonce (sr_replay s) = Ok (True, rw)"
    and "pi_child i (command_line (pi_env i)) (remove_padding pt) = Output stdout stderr"
    and "encrypt_packet (cf_crypto cfg) (cf_psk cfg)
      (pad_response (take MAX_PT_SIZE (stdout @ stderr)) (pi_pad i)) (cf_memlimit cfg)
      (current_unix_time (pi_time2 i)) (pi_salt i) (pi_nonce i) = Ok (enc, nonce2, ts2)"
    and "pi_send_err i = None"
  shows "\<exists>logs logs'. list_all is_log logs \<and> list_all is_log logs' \<and>
      sr_trace (process_packet cfg i peer packet s) = sr_trace s @ [SAccept ts nonce] @ logs @
        [SExec ts nonce (command_line (pi_env i)) (remove_padding pt)] @ logs' @
        [SRecord ts2 nonce2, SSend enc peer] \<and>
      sr_replay (process_packet cfg i peer packet s) = replay_add ts2 nonce2 (replay_add ts nonce rw)"
  using process_packet_success(1,2) [OF assms, of peer] by blast

theorem fresh_command_is_run_and_answered_witness:
  "\<exists>logs. sr_trace (process_packet sample_cfg sample_inputs sample_peer sample_packet (sys_srv (initial 30 8 []))) =
     logs @ [SRecord 102 (replicate 24 4), SSend sample_response sample_peer]"
  using fresh_command_is_run_and_answered [where s = "sys_srv (initial 30 8 [])" and peer = sample_peer,
      OF sample_facts(1) sample_facts(3) [folded sample_facts(9)] sample_facts(4-6)]
  by (metis append_assoc)

text \<open>
  C25. A packet that is too short or does not authenticate has no effect but one log line. Neither has
  an authentic one whose timestamp is outside the window or whose pair is recorded, where nothing
  overflows: nothing is run, recorded or sent, and the window is left as it is when the timestamp is
  outside, or loses exactly its expired entries when it is inside.
\<close>

theorem refused_packet_does_nothing:
  "let now = current_unix_time (pi_time i); rw = sr_replay s; w = int (unat (rw_window rw)) in
   case decrypt_packet (cf_crypto cfg) (cf_psk cfg) packet (cf_memlimit cfg) of
     Err e \<Rightarrow> process_packet cfg i peer packet s =
       sr_emit [SError (''drop: '' @ error_display e @ '' from '' @ addr_to_str peer)] s
   | Ok (pt, nonce, ts) \<Rightarrow>
       \<bar>sint now - sint ts\<bar> < 2 ^ 63 \<and> (\<forall>e \<in> set (rw_entries rw). in_i64 (sint (re_ts e) + w)) \<and>
       (w < \<bar>sint now - sint ts\<bar> \<or> (\<exists>e \<in> set (rw_entries rw). re_ts e = ts \<and> re_nonce e = nonce)) \<longrightarrow>
       process_packet cfg i peer packet s =
         sr_emit [SError (''drop: replay/window from '' @ addr_to_str peer)]
           (s\<lparr>sr_replay := rw\<lparr>rw_entries := (if w < \<bar>sint now - sint ts\<bar> then rw_entries rw
              else filter (\<lambda>e. sint now \<le> sint (re_ts e) + w) (rw_entries rw))\<rparr>\<rparr>)
   | _ \<Rightarrow> True"
proof -
  let ?now = "current_unix_time (pi_time i)" and ?w = "int (unat (rw_window (sr_replay s)))"
  have same: "sr_replay s\<lparr>rw_entries := rw_entries (sr_replay s)\<rparr> = sr_replay s"
    by simp
  have "replay_check (cf_profile cfg) ?now ts nonce (sr_replay s) =
      Ok (False, sr_replay s\<lparr>rw_entries := (if ?w < \<bar>sint ?now - sint ts\<bar> then rw_entries (sr_replay s)
              else filter (\<lambda>e. sint ?now \<le> sint (re_ts e) + ?w) (rw_entries (sr_replay s)))\<rparr>)"
    if "\<bar>sint ?now - sint ts\<bar> < 2 ^ 63" "\<forall>e \<in> set (rw_entries (sr_replay s)). in_i64 (sint (re_ts e) + ?w)"
      "?w < \<bar>sint ?now - sint ts\<bar> \<or> (\<exists>e \<in> set (rw_entries (sr_replay s)). re_ts e = ts \<and> re_nonce e = nonce)" for ts nonce
    using that(3) by (subst replay_check_eq [OF that(1,2)]) (auto simp: not_less same)
  then show ?thesis
    unfolding Let_def by (cases "decrypt_packet (cf_crypto cfg) (cf_psk cfg) packet (cf_memlimit cfg)")
      (auto simp: process_packet_def admit_def split: prod.split)
qed

text \<open>At second 101, a window of 30 seconds with the sample's pair and an entry of second 60.\<close>

theorem refused_packet_does_nothing_witness:
  "let s = sys_srv (initial 30 8 []);
       known = \<lparr>re_ts = 100, re_nonce = replicate 24 2\<rparr>; old = \<lparr>re_ts = 60, re_nonce = replicate 24 9\<rparr>
   in process_packet sample_cfg sample_inputs sample_peer [1, 2, 3] s =
        sr_emit [SError (''drop: short packet from '' @ addr_to_str sample_peer)] s \<and>
      process_packet sample_cfg sample_inputs sample_peer sample_packet
          (s\<lparr>sr_replay := replay_new 30 8\<lparr>rw_entries := [old, known]\<rparr>\<rparr>) =
        sr_emit [SError (''drop: replay/window from '' @ addr_to_str sample_peer)]
          (s\<lparr>sr_replay := replay_new 30 8\<lparr>rw_entries := [known]\<rparr>\<rparr>)"
proof -
  let ?s = "sys_srv (initial 30 8 [])"
  let ?known = "\<lparr>re_ts = 100, re_nonce = replicate 24 2\<rparr> :: ReplayEntry"
  let ?old = "\<lparr>re_ts = 60, re_nonce = replicate 24 9\<rparr> :: ReplayEntry"
  let ?t = "?s\<lparr>sr_replay := replay_new 30 8\<lparr>rw_entries := [?old, ?known]\<rparr>\<rparr>"
  have "decrypt_packet (cf_crypto sample_cfg) (cf_psk sample_cfg) [1, 2, 3] (cf_memlimit sample_cfg) =
      Err (Msg ''short packet'')"
    by (simp add: decrypt_packet_def MIN_LEN_def)
  then have short: "process_packet sample_cfg sample_inputs sample_peer [1, 2, 3] ?s =
     sr_emit [SError (''drop: short packet from '' @ addr_to_str sample_peer)] ?s"
    using refused_packet_does_nothing [where i = sample_inputs and s = ?s and cfg = sample_cfg
        and packet = "[1, 2, 3]" and peer = sample_peer] by simp
  have t: "current_unix_time (pi_time sample_inputs) = 101"
    by (simp add: sample_inputs_def current_unix_time_def)
  have "process_packet sample_cfg sample_inputs sample_peer sample_packet ?t =
     sr_emit [SError (''drop: replay/window from '' @ addr_to_str sample_peer)]
          (?s\<lparr>sr_replay := replay_new 30 8\<lparr>rw_entries := [?known]\<rparr>\<rparr>)"
    using refused_packet_does_nothing [where i = sample_inputs and s = ?t and cfg = sample_cfg
        and packet = sample_packet and peer = sample_peer]
    unfolding sample_facts(1) t Let_def by (simp add: replay_new_def in_i64_def)
  with short show ?thesis
    unfolding Let_def by blast
qed

end
