(* ===== verification/Client.thy ===== *)
theory Client
  imports Packet_Channel
begin

text \<open>
  \<open>tuctl-client/src/main.rs\<close>: the argument language, the choice of the server address, the loop
  that sends a command and waits for its response, and \<open>main\<close>. What the outside decides in one
  turn of the loop is the record \<open>attempt\<close>.
\<close>

section \<open>Arguments\<close>

datatype Family = Unspec | Inet4 | Inet6

record client_args =
  ca_script :: string
  ca_psk :: string
  ca_server :: string
  ca_server_port :: u16
  ca_family :: Family
  ca_window :: u32
  ca_max_retries :: u16

definition matches :: "string \<Rightarrow> string \<Rightarrow> bool" where
  "matches tok kw \<longleftrightarrow> tok = kw"

definition is_help_kw :: "string \<Rightarrow> bool" where
  "is_help_kw tok \<longleftrightarrow> tok = ''-h'' \<or> tok = ''--help'' \<or> tok = ''help''"

definition client_parse_u16 :: "string \<Rightarrow> string + u16" where
  "client_parse_u16 s =
     (case parse_u16 s of
        Inr v \<Rightarrow> Inr v
      | Inl e \<Rightarrow> Inl (''invalid u16 '' @ [CHR 0x27] @ s @ [CHR 0x27] @ '': '' @ int_error_display e))"

definition client_parse_u32 :: "string \<Rightarrow> string + u32" where
  "client_parse_u32 s =
     (case parse_u32 s of
        Inr v \<Rightarrow> Inr v
      | Inl e \<Rightarrow> Inl (''invalid u32 '' @ [CHR 0x27] @ s @ [CHR 0x27] @ '': '' @ int_error_display e))"

definition parse_port :: "string \<Rightarrow> string + u16" where
  "parse_port s =
     (case client_parse_u16 s of
        Inl e \<Rightarrow> Inl e
      | Inr p \<Rightarrow> if p = 0 then Inl ''port must be non-zero'' else Inr p)"

definition parse_window :: "string \<Rightarrow> string + u32" where
  "parse_window s =
     (case client_parse_u32 s of
        Inl e \<Rightarrow> Inl e
      | Inr w \<Rightarrow> if w = 0 then Inl ''window must be > 0'' else Inr w)"

text \<open>\<open>read\<close> reads standard input (\<open>None\<close>) or a file to a string, or fails with a text.\<close>

definition read_script :: "(string option \<Rightarrow> string + string) \<Rightarrow> string \<Rightarrow> string + string" where
  "read_script read path =
     (if path = ''-'' then
        (case read None of Inr s \<Rightarrow> Inr s | Inl e \<Rightarrow> Inl (''read stdin failed: '' @ e))
      else (case read (Some path) of
              Inr s \<Rightarrow> Inr s
            | Inl e \<Rightarrow> Inl (''read_script '' @ [CHR 0x27] @ path @ [CHR 0x27] @ '' failed: '' @ e)))"

text \<open>The local variables of \<open>parse_dsl_args\<close>.\<close>

record dsl =
  d_psk :: "string option"
  d_server :: string
  d_server_port :: u16
  d_script :: string
  d_family :: Family
  d_max_retries :: u16
  d_window :: u32

definition dsl_init :: dsl where
  "dsl_init =
     \<lparr>d_psk = None, d_server = DEFAULT_SERVER, d_server_port = DEFAULT_SERVER_PORT, d_script = ''-'',
      d_family = Unspec, d_max_retries = 3, d_window = DEFAULT_WINDOW\<rparr>"

text \<open>
  The loop over the arguments after the program name \<open>argv0\<close>: what it prints, and the code it
  returns or the variables it ends with.
\<close>

fun dsl_loop :: "string \<Rightarrow> dsl \<Rightarrow> string list \<Rightarrow> client_event list \<times> (int + dsl)" where
  "dsl_loop argv0 d [] = ([], Inr d)"
| "dsl_loop argv0 d (tok # rest) =
     (if matches tok ''server-port'' then
        (case rest of
           [] \<Rightarrow> ([CUsage argv0], Inl (- 22))
         | v # rest \<Rightarrow>
             (case parse_port v of
                Inr p \<Rightarrow> dsl_loop argv0 (d\<lparr>d_server_port := p\<rparr>) rest
              | Inl e \<Rightarrow> ([CError e, CUsage argv0], Inl (- 22))))
      else if matches tok ''script'' then
        (case rest of
           [] \<Rightarrow> ([CUsage argv0], Inl (- 22))
         | v # rest \<Rightarrow> dsl_loop argv0 (d\<lparr>d_script := v\<rparr>) rest)
      else if matches tok ''psk'' then
        (case rest of
           [] \<Rightarrow> ([CUsage argv0], Inl (- 22))
         | v # rest \<Rightarrow> dsl_loop argv0 (d\<lparr>d_psk := Some v\<rparr>) rest)
      else if matches tok ''server'' then
        (case rest of
           [] \<Rightarrow> ([CUsage argv0], Inl (- 22))
         | v # rest \<Rightarrow> dsl_loop argv0 (d\<lparr>d_server := v\<rparr>) rest)
      else if matches tok ''window'' then
        (case rest of
           [] \<Rightarrow> ([CUsage argv0], Inl (- 22))
         | v # rest \<Rightarrow>
             (case parse_window v of
                Inr w \<Rightarrow> dsl_loop argv0 (d\<lparr>d_window := w\<rparr>) rest
              | Inl e \<Rightarrow> ([CError e, CUsage argv0], Inl (- 22))))
      else if matches tok ''max-retries'' then
        (case rest of
           [] \<Rightarrow> ([CUsage argv0], Inl (- 22))
         | v # rest \<Rightarrow>
             (case client_parse_u16 v of
                Inr n \<Rightarrow> dsl_loop argv0 (d\<lparr>d_max_retries := n\<rparr>) rest
              | Inl e \<Rightarrow> ([CError e, CUsage argv0], Inl (- 22))))
      else if matches tok ''-4'' then dsl_loop argv0 (d\<lparr>d_family := Inet4\<rparr>) rest
      else if matches tok ''-6'' then dsl_loop argv0 (d\<lparr>d_family := Inet6\<rparr>) rest
      else if is_help_kw tok then ([CUsage argv0], Inl (- 22))
      else ([CError (''unknown keyword '' @ [CHR 0x22] @ tok @ [CHR 0x22]), CUsage argv0], Inl (- 22)))"

text \<open>The usage message indexes \<open>argv[0]\<close>, which panics when there is no argument at all.\<close>

definition parse_dsl_args ::
  "(string option \<Rightarrow> string + string) \<Rightarrow> string list \<Rightarrow> client_event list \<times> (int + client_args) res" where
  "parse_dsl_args read argv =
     (case argv of
        [] \<Rightarrow> ([CError ''psk must be specified''], Panic)
      | argv0 # rest \<Rightarrow>
          (case dsl_loop argv0 dsl_init rest of
             (es, Inl code) \<Rightarrow> (es, Ok (Inl code))
           | (es, Inr d) \<Rightarrow>
               (case d_psk d of
                  None \<Rightarrow> (es @ [CError ''psk must be specified'', CUsage argv0], Ok (Inl (- 22)))
                | Some psk \<Rightarrow>
                    if length psk < 8 then
                      (es @ [CError ''PSK must be at least 8 characters long'', CUsage argv0], Ok (Inl (- 22)))
                    else (case read_script read (d_script d) of
                            Inl e \<Rightarrow> (es @ [CError e], Ok (Inl (- 1)))
                          | Inr content \<Rightarrow>
                              (es, Ok (Inr \<lparr>ca_script = content, ca_psk = psk, ca_server = d_server d,
                                 ca_server_port = d_server_port d, ca_family = d_family d,
                                 ca_window = d_window d, ca_max_retries = d_max_retries d\<rparr>))))))"

section \<open>The server's address\<close>

text \<open>
  \<open>lookup\<close> is the resolver behind \<open>to_socket_addrs\<close>: an error text or the addresses in order.
\<close>

fun pick_addr :: "Family \<Rightarrow> IpAddr list \<Rightarrow> IpAddr option" where
  "pick_addr family [] = None"
| "pick_addr family (ip # ips) =
     (case (family, ip) of
        (Inet4, V4 v4) \<Rightarrow> Some (V4 v4)
      | (Inet6, V6 v6) \<Rightarrow> Some (V6 v6)
      | (Unspec, ip) \<Rightarrow> Some ip
      | _ \<Rightarrow> pick_addr family ips)"

definition resolve_ip_addr ::
  "(string \<Rightarrow> string + IpAddr list) \<Rightarrow> Family \<Rightarrow> string \<Rightarrow> string + IpAddr" where
  "resolve_ip_addr lookup family server =
     (case ip_from_str server of
        Some ip \<Rightarrow>
          (case (family, ip) of
             (Inet4, V4 _) \<Rightarrow> Inr ip
           | (Inet6, V6 _) \<Rightarrow> Inr ip
           | (Unspec, _) \<Rightarrow> Inr ip
           | _ \<Rightarrow> Inl (''address family mismatch: '' @ server))
      | None \<Rightarrow>
          (case lookup server of
             Inl e \<Rightarrow> Inl (''resolve_ip_addr failed for '' @ [CHR 0x27] @ server @ [CHR 0x27] @ '': '' @ e)
           | Inr addrs \<Rightarrow>
               (case pick_addr family addrs of
                  Some ip \<Rightarrow> Inr ip
                | None \<Rightarrow> Inl (''no suitable address found for '' @ [CHR 0x27] @ server @ [CHR 0x27]))))"

section \<open>The loop\<close>

datatype received = Timeout | RecvError string | Datagram bytes SocketAddr

record attempt =
  at_pad :: u8
  at_bind :: "string option"
  at_lookup :: "string \<Rightarrow> string + IpAddr list"
  at_time :: int
  at_salt :: bytes
  at_nonce :: bytes
  at_sendto :: "string option"
  at_timeout :: "string option"
  at_recv :: received
  at_time2 :: int

definition create_dualstack_udp_socket :: "string option \<Rightarrow> unit res" where
  "create_dualstack_udp_socket bind =
     (case bind of Some e \<Rightarrow> Err (Msg (''socket bind failed: '' @ e)) | None \<Rightarrow> Ok ())"

definition set_sock_timeout :: "string option \<Rightarrow> unit res" where
  "set_sock_timeout result =
     (case result of Some e \<Rightarrow> Err (Msg (''set_read_timeout: '' @ e)) | None \<Rightarrow> Ok ())"

text \<open>What one turn decides: return a code or success, or go round again.\<close>

datatype turn = Return "int + unit" | Again

text \<open>From the response on.\<close>

definition handle_response ::
  "crypto \<Rightarrow> profile \<Rightarrow> client_args \<Rightarrow> nat \<Rightarrow> int \<Rightarrow> bytes \<Rightarrow> SocketAddr \<Rightarrow> (cstate, turn) comp" where
  "handle_response C p a memlimit t datagram cli st =
     (let buf = take MAX_CT_SIZE datagram in
      if length buf < MIN_LEN then
        (Ok (Return (Inl (- 22))), cs_emit (CError (''drop: short packet from '' @ client_addr_to_str cli)) st)
      else (case decrypt_and_validate_packet C p buf (ca_psk a) cli memlimit (client_current_unix_time t) st of
              (Ok pt, st) \<Rightarrow>
                (let pt = client_remove_padding pt
                 in (Ok (Return (Inr ())),
                     cs_emit (CInfo (''response from '' @ client_addr_to_str cli @ '': '' @ from_utf8_lossy pt)) st))
            | (Err e, st) \<Rightarrow> (Ok (Return (Inl (- 1))), cs_emit (CError (error_display e)) st)
            | (Panic, st) \<Rightarrow> (Panic, st)
            | (Blocked, st) \<Rightarrow> (Blocked, st)))"

definition run_turn ::
  "crypto \<Rightarrow> profile \<Rightarrow> client_args \<Rightarrow> nat \<Rightarrow> attempt \<Rightarrow> u16 \<Rightarrow> (cstate, turn) comp" where
  "run_turn C p a memlimit i retries st =
     (let cmd = build_padded_cmd (ca_script a) (at_pad i) in
      case create_dualstack_udp_socket (at_bind i) of
        Err e \<Rightarrow> (Ok (Return (Inl (- 1))), cs_emit (CError (error_display e)) st)
      | _ \<Rightarrow>
     (case resolve_ip_addr (at_lookup i) (ca_family a) (ca_server a) of
        Inl e \<Rightarrow> (Ok (Return (Inl (- 1))), cs_emit (CError e) st)
      | Inr ip \<Rightarrow>
     (let dst = sock_new ip (ca_server_port a) in
      case encrypt_and_send_packet C (ca_psk a) cmd memlimit (client_current_unix_time (at_time i))
             (at_salt i) (at_nonce i) (at_sendto i) dst st of
        (Err e, st) \<Rightarrow> (Ok (Return (Inl (- 1))), cs_emit (CError (error_display e)) st)
      | (Panic, st) \<Rightarrow> (Panic, st)
      | (Blocked, st) \<Rightarrow> (Blocked, st)
      | (Ok packet_len, st) \<Rightarrow>
     (let st = cs_emit (CInfo (''sent '' @ show_nat packet_len @ '' bytes to '' @ ca_server a @ '':'' @
                 show_word (ca_server_port a))) st in
      case set_sock_timeout (at_timeout i) of
        Err e \<Rightarrow> (Ok (Return (Inl (- 1))), cs_emit (CError (error_display e)) st)
      | _ \<Rightarrow>
     (case at_recv i of
        Timeout \<Rightarrow>
          (let st = cs_emit (CError ''recvfrom timeout'') st in
           if retries < ca_max_retries a then
             (Ok Again, cs_emit (CInfo (''performing retries: '' @ show_word (retries + 1) @ '' / '' @
                 show_word (ca_max_retries a))) (cs_emit (CSleep 100) st))
           else (Ok (Return (Inl (- 1))), st))
      | RecvError e \<Rightarrow> (Ok (Return (Inl (- 1))), cs_emit (CError (''recvfrom error: '' @ e)) st)
      | Datagram d cli \<Rightarrow> handle_response C p a memlimit (at_time2 i) d cli st)))))"

text \<open>A turn goes round again only while retries are left.\<close>

lemma run_turn_Again:
  "run_turn C p a memlimit i retries st = (Ok Again, st') \<Longrightarrow> retries < ca_max_retries a"
  by (auto simp: run_turn_def handle_response_def Let_def split: res.splits sum.splits prod.splits
      received.splits if_splits)

lemma unat_next_retry:
  assumes "retries < (m :: u16)"
  shows "unat (retries + 1) = Suc (unat retries)"
proof -
  have "unat retries < unat m" "unat m < 65536"
    using assms unsigned_less [of m, where 'a = nat] by (simp_all add: word_less_nat_alt)
  then show ?thesis
    by (simp add: unat_word_ariths)
qed

text \<open>\<open>'retry: loop\<close>, turn \<open>k\<close>.\<close>

function run_loop ::
  "crypto \<Rightarrow> profile \<Rightarrow> client_args \<Rightarrow> nat \<Rightarrow> (nat \<Rightarrow> attempt) \<Rightarrow> nat \<Rightarrow> u16 \<Rightarrow> (cstate, int + unit) comp" where
  "run_loop C p a memlimit attempts k retries st =
     (case run_turn C p a memlimit (attempts k) retries st of
        (Ok (Return r), st) \<Rightarrow> (Ok r, st)
      | (Ok Again, st) \<Rightarrow> run_loop C p a memlimit attempts (k + 1) (retries + 1) st
      | (Err e, st) \<Rightarrow> (Err e, st)
      | (Panic, st) \<Rightarrow> (Panic, st)
      | (Blocked, st) \<Rightarrow> (Blocked, st))"
  by pat_completeness auto
termination
proof (relation "measure (\<lambda>(C, p, a, memlimit, attempts, k, retries, st). unat (ca_max_retries a) - unat retries)")
  fix C p a memlimit and attempts :: "nat \<Rightarrow> attempt" and k retries st r st' t
  assume "(r, st') = run_turn C p a memlimit (attempts k) retries st" "r = Ok t" "t = Again"
  then have "retries < ca_max_retries a"
    using run_turn_Again [of C p a memlimit "attempts k" retries st st'] by simp
  then have "unat retries < unat (ca_max_retries a)" "unat (retries + 1) = Suc (unat retries)"
    by (simp_all add: word_less_nat_alt unat_next_retry)
  then show "((C, p, a, memlimit, attempts, k + 1, retries + 1, st'), C, p, a, memlimit, attempts, k, retries, st)
      \<in> measure (\<lambda>(C, p, a, memlimit, attempts, k, retries, st). unat (ca_max_retries a) - unat retries)"
    by simp
qed simp

declare run_loop.simps [simp del]

section \<open>\<open>run\<close> and \<open>main\<close>\<close>

definition client_memlimit_log :: "string + string \<Rightarrow> client_event" where
  "client_memlimit_log l = (case l of Inl e \<Rightarrow> CError e | Inr i \<Rightarrow> CInfo i)"

definition client_run ::
  "crypto \<Rightarrow> profile \<Rightarrow> string list \<Rightarrow> string option \<Rightarrow> (string option \<Rightarrow> string + string) \<Rightarrow>
     (nat \<Rightarrow> attempt) \<Rightarrow> (int + unit) res \<times> client_event list" where
  "client_run C p argv var read attempts =
     (let (memlimit, logs) = client_setup_pwhash_memlimit var;
          logs = map client_memlimit_log logs
      in case parse_dsl_args read argv of
           (es, Ok (Inl code)) \<Rightarrow> (Ok (Inl code), logs @ es)
         | (es, Ok (Inr a)) \<Rightarrow>
             (case run_loop C p a memlimit attempts 0 0
                     \<lparr>cs_win = client_replay_init (ca_window a) DEFAULT_REPLAY_MAX, cs_trace = logs @ es\<rparr> of
                (r, st) \<Rightarrow> (r, cs_trace st))
         | (es, Err e) \<Rightarrow> (Err e, logs @ es)
         | (es, Panic) \<Rightarrow> (Panic, logs @ es)
         | (es, Blocked) \<Rightarrow> (Blocked, logs @ es))"

text \<open>The exit code; \<open>code as u8\<close> takes the low byte.\<close>

definition client_exit_code :: "int + unit \<Rightarrow> u8" where
  "client_exit_code r = (case r of Inr () \<Rightarrow> 0 | Inl code \<Rightarrow> if code < 0 then 1 else word_of_int code)"

section \<open>Facts\<close>

text \<open>The datagrams a trace sent.\<close>

fun csent :: "client_event list \<Rightarrow> (bytes \<times> SocketAddr) list" where
  "csent [] = []"
| "csent (CSend pkt dst # es) = (pkt, dst) # csent es"
| "csent (e # es) = csent es"

lemma csent_append [simp]: "csent (es @ fs) = csent es @ csent fs"
  by (induction es rule: csent.induct) simp_all

lemma cs_emit_simps [simp]:
  "cs_trace (cs_emit e st) = cs_trace st @ [e]" "cs_win (cs_emit e st) = cs_win st"
  by (simp_all add: cs_emit_def)

lemma decrypt_and_validate_sends:
  "csent (cs_trace (snd (decrypt_and_validate_packet C p pkt psk cli m now st))) = csent (cs_trace st)"
  by (auto simp: decrypt_and_validate_packet_def Let_def client_replay_add_def split: res.split option.split prod.split)

lemma handle_response_sends:
  "csent (cs_trace (snd (handle_response C p a m t d cli st))) = csent (cs_trace st)"
  using decrypt_and_validate_sends [of C p "take MAX_CT_SIZE d" "ca_psk a" cli m "client_current_unix_time t" st]
  by (auto simp: handle_response_def Let_def split: res.split prod.split)

lemma encrypt_and_send_sends:
  "length (csent (cs_trace (snd (encrypt_and_send_packet C psk payload m ts salt nonce sendto cli st))))
     \<le> Suc (length (csent (cs_trace st)))"
  by (auto simp: encrypt_and_send_packet_def Let_def client_replay_add_def split: res.split option.split sum.split)

lemma run_turn_sends:
  "length (csent (cs_trace (snd (run_turn C p a m i retries st)))) \<le> Suc (length (csent (cs_trace st)))"
proof -
  have "length (csent (cs_trace st')) \<le> Suc (length (csent (cs_trace st)))"
    if "encrypt_and_send_packet C (ca_psk a) (build_padded_cmd (ca_script a) (at_pad i)) m
          (client_current_unix_time (at_time i)) (at_salt i) (at_nonce i) (at_sendto i) dst st = (r, st')" for dst r st'
    using encrypt_and_send_sends [of C "ca_psk a" "build_padded_cmd (ca_script a) (at_pad i)" m
        "client_current_unix_time (at_time i)" "at_salt i" "at_nonce i" "at_sendto i" dst st] that
    by simp
  then show ?thesis
    by (auto simp: run_turn_def Let_def handle_response_sends split: res.split sum.split prod.split received.split)
qed

lemma run_loop_sends:
  "retries \<le> ca_max_retries a \<Longrightarrow>
     length (csent (cs_trace (snd (run_loop C p a m attempts k retries st)))) + unat retries
       \<le> length (csent (cs_trace st)) + unat (ca_max_retries a) + 1"
proof (induction C p a m attempts k retries st rule: run_loop.induct)
  case (1 C p a m attempts k retries st)
  obtain r st' where t: "run_turn C p a m (attempts k) retries st = (r, st')" by fastforce
  have s: "length (csent (cs_trace st')) \<le> Suc (length (csent (cs_trace st)))"
    using run_turn_sends [of C p a m "attempts k" retries st] by (simp add: t)
  have le: "unat retries \<le> unat (ca_max_retries a)"
    using "1.prems" by (simp add: word_le_nat_alt)
  show ?case
  proof (cases "r = Ok Again")
    case True
    have lt: "retries < ca_max_retries a"
      using run_turn_Again t True by blast
    then have u: "unat (retries + 1) = Suc (unat retries)"
      by (rule unat_next_retry)
    have "retries + 1 \<le> ca_max_retries a"
      using lt u by (simp add: word_le_nat_alt word_less_nat_alt)
    from "1.IH" [OF t [symmetric] True refl this] s u show ?thesis
      by (subst run_loop.simps) (simp add: t True)
  next
    case False
    then show ?thesis
      using s le by (subst run_loop.simps) (auto simp: t split: res.split turn.split)
  qed
qed

text \<open>The turn that returns success.\<close>

lemma decrypt_and_validate_Ok:
  assumes "decrypt_and_validate_packet C p pkt psk cli m now st = (Ok pt, st')"
  shows "\<exists>nonce ts. client_open C psk m pkt = Ok (pt, nonce, ts)"
proof (cases "length pkt < MIN_LEN")
  case True
  with assms show ?thesis by (simp add: decrypt_and_validate_packet_def)
next
  case False
  define ts :: i64 where "ts = from_be (field 16 8 pkt)"
  obtain fresh win where w: "client_replay_check p now ts (field 24 24 pkt) (cs_win st) = Ok (fresh, win)"
    using assms False by (auto simp: decrypt_and_validate_packet_def Let_def ts_def split: res.splits)
  have fresh
    using assms False by (cases fresh) (simp_all add: decrypt_and_validate_packet_def Let_def w flip: ts_def)
  then obtain key where k: "client_psk2key C psk (field 0 16 pkt) m = Ok key"
    using assms False by (auto simp: decrypt_and_validate_packet_def Let_def w simp flip: ts_def split: res.splits)
  have "aead_decrypt C key (field 24 24 pkt) (drop 48 pkt) (field 0 16 pkt @ field 16 8 pkt) = Some pt"
    using assms False \<open>fresh\<close>
    by (auto simp: decrypt_and_validate_packet_def Let_def w k client_replay_add_def simp flip: ts_def split: option.splits)
  with False k show ?thesis
    by (simp add: client_open_def)
qed

lemma handle_response_success:
  assumes "handle_response C p a m t d cli st = (Ok (Return (Inr ())), st')"
  shows "\<exists>pt nonce ts. client_open C (ca_psk a) m (take MAX_CT_SIZE d) = Ok (pt, nonce, ts) \<and>
    (\<exists>es. cs_trace st' = es @
      [CInfo (''response from '' @ client_addr_to_str cli @ '': '' @ from_utf8_lossy (client_remove_padding pt))])"
  using assms
  by (auto simp: handle_response_def Let_def split: if_splits res.splits prod.splits dest!: decrypt_and_validate_Ok)

lemma run_turn_success:
  assumes "run_turn C p a m i retries st = (Ok (Return (Inr ())), st')"
  shows "\<exists>d cli st0. at_recv i = Datagram d cli \<and>
    handle_response C p a m (at_time2 i) d cli st0 = (Ok (Return (Inr ())), st')"
  using assms by (auto simp: run_turn_def Let_def split: if_splits res.splits sum.splits prod.splits received.splits)

lemma run_loop_success:
  "run_loop C p a m attempts k retries st = (Ok (Inr ()), st') \<Longrightarrow>
     \<exists>j d cli st0. at_recv (attempts j) = Datagram d cli \<and>
       handle_response C p a m (at_time2 (attempts j)) d cli st0 = (Ok (Return (Inr ())), st')"
proof (induction C p a m attempts k retries st rule: run_loop.induct)
  case (1 C p a m attempts k retries st)
  obtain r st1 where t: "run_turn C p a m (attempts k) retries st = (r, st1)" by fastforce
  show ?case
  proof (cases "r = Ok Again")
    case True
    with "1.prems" t have "run_loop C p a m attempts (k + 1) (retries + 1) st1 = (Ok (Inr ()), st')"
      by (subst (asm) run_loop.simps) simp
    from "1.IH" [OF t [symmetric] True refl this] show ?thesis .
  next
    case False
    with "1.prems" t have "run_turn C p a m (attempts k) retries st = (Ok (Return (Inr ())), st')"
      by (subst (asm) run_loop.simps) (auto split: res.splits turn.splits)
    from run_turn_success [OF this] show ?thesis by blast
  qed
qed

end
