(* ===== verification/Client_Session.thy ===== *)
theory Client_Session
  imports Client
begin

text \<open>
  The properties of \<open>tuctl-client\<close>: what its argument language means, which address it picks,
  what it sends and how often, and which responses it takes for an answer.
\<close>

section \<open>The argument language\<close>

text \<open>The arguments a user means, with their tokens and their effect.\<close>

datatype client_arg =
    ArgPsk string | ArgServer string | ArgPort u16 | ArgScript string | ArgWindow u32 | ArgRetries u16
  | ArgOnly4 | ArgOnly6

fun arg_tokens :: "client_arg \<Rightarrow> string list" where
  "arg_tokens (ArgPsk s) = [''psk'', s]"
| "arg_tokens (ArgServer s) = [''server'', s]"
| "arg_tokens (ArgPort p) = [''server-port'', show_word p]"
| "arg_tokens (ArgScript s) = [''script'', s]"
| "arg_tokens (ArgWindow w) = [''window'', show_word w]"
| "arg_tokens (ArgRetries n) = [''max-retries'', show_word n]"
| "arg_tokens ArgOnly4 = [''-4'']"
| "arg_tokens ArgOnly6 = [''-6'']"

fun apply_arg :: "client_arg \<Rightarrow> dsl \<Rightarrow> dsl" where
  "apply_arg (ArgPsk s) d = d\<lparr>d_psk := Some s\<rparr>"
| "apply_arg (ArgServer s) d = d\<lparr>d_server := s\<rparr>"
| "apply_arg (ArgPort p) d = d\<lparr>d_server_port := p\<rparr>"
| "apply_arg (ArgScript s) d = d\<lparr>d_script := s\<rparr>"
| "apply_arg (ArgWindow w) d = d\<lparr>d_window := w\<rparr>"
| "apply_arg (ArgRetries n) d = d\<lparr>d_max_retries := n\<rparr>"
| "apply_arg ArgOnly4 d = d\<lparr>d_family := Inet4\<rparr>"
| "apply_arg ArgOnly6 d = d\<lparr>d_family := Inet6\<rparr>"

fun arg_ok :: "client_arg \<Rightarrow> bool" where
  "arg_ok (ArgPort p) \<longleftrightarrow> p \<noteq> 0"
| "arg_ok (ArgWindow w) \<longleftrightarrow> w \<noteq> 0"
| "arg_ok _ \<longleftrightarrow> True"

lemma dsl_loop_arg:
  "arg_ok a \<Longrightarrow> dsl_loop argv0 d (arg_tokens a @ rest) = dsl_loop argv0 (apply_arg a d) rest"
  by (cases a) (simp_all add: matches_def parse_port_def parse_window_def client_parse_u16_def client_parse_u32_def)

lemma dsl_loop_args:
  "list_all arg_ok args \<Longrightarrow>
     dsl_loop argv0 d (concat (map arg_tokens args)) = ([], Inr (fold apply_arg args d))"
  by (induction args arbitrary: d) (simp_all add: dsl_loop_arg)

section \<open>The address\<close>

fun family_ok :: "Family \<Rightarrow> IpAddr \<Rightarrow> bool" where
  "family_ok Unspec ip \<longleftrightarrow> True"
| "family_ok Inet4 ip \<longleftrightarrow> is_ipv4 ip"
| "family_ok Inet6 ip \<longleftrightarrow> is_ipv6 ip"

lemma pick_addr_find: "pick_addr family ips = List.find (family_ok family) ips"
proof (induction ips)
  case (Cons ip ips)
  then show ?case
    by (cases family; cases ip) simp_all
qed simp

lemma find_family: "List.find P xs = Some x \<Longrightarrow> P x"
  by (auto simp: find_Some_iff)

lemma resolve_ip_addr_family: "resolve_ip_addr lookup family server = Inr ip \<Longrightarrow> family_ok family ip"
  by (auto simp: resolve_ip_addr_def pick_addr_find find_Some_iff
      split: option.splits sum.splits Family.splits IpAddr.splits)

section \<open>What is sent\<close>

lemma sock_new_ip: "sock_ip (sock_new ip port) = ip"
  by (cases ip) simp_all

text \<open>A datagram of the client: its script, padded and sealed, to a suitable address.\<close>

definition is_command :: "crypto \<Rightarrow> client_args \<Rightarrow> nat \<Rightarrow> bytes \<times> SocketAddr \<Rightarrow> bool" where
  "is_command C a m d \<longleftrightarrow>
     (\<exists>r nonce ts. decrypt_packet C (ca_psk a) (fst d) m = Ok (build_padded_cmd (ca_script a) r, nonce, ts)) \<and>
     (\<exists>ip. family_ok (ca_family a) ip \<and> snd d = sock_new ip (ca_server_port a))"

lemma encrypt_and_send_command:
  assumes "crypto_ok C" and "length nonce = NONCE_LEN" and "family_ok (ca_family a) ip"
    and "encrypt_and_send_packet C (ca_psk a) (build_padded_cmd (ca_script a) r) m ts salt nonce sendto
      (sock_new ip (ca_server_port a)) st = (res, st')"
  shows "\<exists>ds. csent (cs_trace st') = csent (cs_trace st) @ ds \<and> list_all (is_command C a m) ds"
proof (cases "client_seal C (ca_psk a) m ts salt nonce (build_padded_cmd (ca_script a) r)")
  case (Ok pkt)
  have "decrypt_packet C (ca_psk a) pkt m = Ok (build_padded_cmd (ca_script a) r, nonce, ts)"
    using command_codec.open_seal [OF assms(1) Ok assms(2)] by (simp add: server_open_def)
  then have "is_command C a m (pkt, sock_new ip (ca_server_port a))"
    using assms(3) by (auto simp: is_command_def)
  with assms(4) Ok show ?thesis
    by (auto simp: encrypt_and_send_eq split: option.splits)
qed (use assms(4) in \<open>auto simp: encrypt_and_send_eq\<close>)

lemma run_turn_csent:
  assumes "resolve_ip_addr (at_lookup i) (ca_family a) (ca_server a) = Inr ip" and "at_bind i = None"
    and "encrypt_and_send_packet C (ca_psk a) (build_padded_cmd (ca_script a) (at_pad i)) m
      (client_current_unix_time (at_time i)) (at_salt i) (at_nonce i) (at_sendto i)
      (sock_new ip (ca_server_port a)) st = (r1, st1)"
  shows "csent (cs_trace (snd (run_turn C p a m i retries st))) = csent (cs_trace st1)"
  using assms
  by (simp add: run_turn_def Let_def create_dualstack_udp_socket_def set_sock_timeout_def handle_response_sends
      split: res.split received.split option.split)

lemma run_turn_command:
  assumes "crypto_ok C" and "length (at_nonce i) = NONCE_LEN"
    and "run_turn C p a m i retries st = (res, st')"
  shows "\<exists>ds. csent (cs_trace st') = csent (cs_trace st) @ ds \<and> list_all (is_command C a m) ds"
proof (cases "at_bind i")
  case (Some e)
  with assms(3) have "csent (cs_trace st') = csent (cs_trace st)"
    by (auto simp: run_turn_def Let_def create_dualstack_udp_socket_def)
  then show ?thesis by auto
next
  case None
  show ?thesis
  proof (cases "resolve_ip_addr (at_lookup i) (ca_family a) (ca_server a)")
    case (Inl e)
    with assms(3) None have "csent (cs_trace st') = csent (cs_trace st)"
      by (auto simp: run_turn_def Let_def create_dualstack_udp_socket_def)
    then show ?thesis by auto
  next
    case (Inr ip)
    obtain r1 st1 where e: "encrypt_and_send_packet C (ca_psk a) (build_padded_cmd (ca_script a) (at_pad i)) m
        (client_current_unix_time (at_time i)) (at_salt i) (at_nonce i) (at_sendto i)
        (sock_new ip (ca_server_port a)) st = (r1, st1)" by fastforce
    from encrypt_and_send_command [OF assms(1,2) resolve_ip_addr_family [OF Inr] e]
      run_turn_csent [OF Inr None e, of p retries] assms(3)
    show ?thesis by simp
  qed
qed

lemma run_loop_command:
  assumes "crypto_ok C" and "\<And>j. length (at_nonce (attempts j)) = NONCE_LEN"
  shows "run_loop C p a m attempts k retries st = (res, st') \<Longrightarrow>
     \<exists>ds. csent (cs_trace st') = csent (cs_trace st) @ ds \<and> list_all (is_command C a m) ds"
  using assms
proof (induction C p a m attempts k retries st rule: run_loop.induct)
  case (1 C p a m attempts k retries st)
  obtain r st1 where t: "run_turn C p a m (attempts k) retries st = (r, st1)" by fastforce
  obtain ds where ds: "csent (cs_trace st1) = csent (cs_trace st) @ ds" "list_all (is_command C a m) ds"
    using run_turn_command [OF "1.prems"(2,3) t] by blast
  show ?case
  proof (cases "r = Ok Again")
    case True
    with "1.prems"(1) t have "run_loop C p a m attempts (k + 1) (retries + 1) st1 = (res, st')"
      by (subst (asm) run_loop.simps) simp
    from "1.IH" [OF t [symmetric] True refl this "1.prems"(2,3)] ds show ?thesis by auto
  next
    case False
    with "1.prems"(1) t have "st' = st1"
      by (subst (asm) run_loop.simps) (auto split: res.splits turn.splits)
    with ds show ?thesis by blast
  qed
qed

section \<open>The packet of a turn\<close>

text \<open>A turn that goes round again or succeeds has sealed, sent and recorded one packet.\<close>

definition turn_seal :: "crypto \<Rightarrow> client_args \<Rightarrow> nat \<Rightarrow> attempt \<Rightarrow> bytes res" where
  "turn_seal C a m i =
     client_seal C (ca_psk a) m (client_current_unix_time (at_time i)) (at_salt i) (at_nonce i)
       (build_padded_cmd (ca_script a) (at_pad i))"

definition turn_record :: "attempt \<Rightarrow> ClientReplayWindow \<Rightarrow> ClientReplayWindow" where
  "turn_record i = client_add_state (client_current_unix_time (at_time i)) (at_nonce i)"

text \<open>How a turn goes on after its packet was sent.\<close>

definition turn_sent :: "crypto \<Rightarrow> client_args \<Rightarrow> nat \<Rightarrow> attempt \<Rightarrow> cstate \<Rightarrow> cstate \<Rightarrow> bool" where
  "turn_sent C a m i st st' \<longleftrightarrow>
     (\<exists>pkt dst. turn_seal C a m i = Ok pkt \<and> csent (cs_trace st') = csent (cs_trace st) @ [(pkt, dst)] \<and>
        cs_win st' = turn_record i (cs_win st))"

lemma encrypt_and_send_turn:
  assumes "encrypt_and_send_packet C (ca_psk a) (build_padded_cmd (ca_script a) (at_pad i)) m
      (client_current_unix_time (at_time i)) (at_salt i) (at_nonce i) sendto dst st = (Ok n, st')"
  shows "turn_sent C a m i st st'"
  using assms
  by (auto simp: encrypt_and_send_eq turn_sent_def turn_seal_def turn_record_def cs_emit_def
      split: res.splits option.splits)

lemma turn_sent_emit [simp]:
  "csent [e] = [] \<Longrightarrow> turn_sent C a m i st (cs_emit e st') \<longleftrightarrow> turn_sent C a m i st st'"
  by (simp add: turn_sent_def)

lemma run_turn_Again_sent:
  assumes "run_turn C p a m i retries st = (Ok Again, st')"
  shows "turn_sent C a m i st st'"
  using assms
  by (auto simp: run_turn_def handle_response_def Let_def dest!: encrypt_and_send_turn
      split: res.splits sum.splits prod.splits received.splits if_splits)

lemma run_turn_success_sent:
  assumes "run_turn C p a m i retries st = (Ok (Return (Inr ())), st')"
  shows "\<exists>d cli st0. at_recv i = Datagram d cli \<and> turn_sent C a m i st st0 \<and>
    handle_response C p a m (at_time2 i) d cli st0 = (Ok (Return (Inr ())), st')"
  using assms
  by (auto simp: run_turn_def Let_def dest!: encrypt_and_send_turn
      split: res.splits sum.splits prod.splits received.splits if_splits)
    (rule exI, rule conjI [rotated], assumption, simp)+

section \<open>The client's window knows the client's packets\<close>

context replay_cache
begin

text \<open>A pair in the cache is refused, however the check goes.\<close>

lemma known_pair_refused:
  assumes "sane s" and "(ts, nonce) \<in> set (pairs s)" and "\<bar>sint now - sint ts\<bar> < 2 ^ 63"
  shows "\<exists>s'. check now ts nonce s = Ok (False, s')"
proof (cases "\<bar>sint now - sint ts\<bar> \<le> int (window s)")
  case True
  from check_near [OF True] assms(1) obtain s' where s':
    "check now ts nonce s = Ok ((ts, nonce) \<notin> set (pairs s'), s')"
    "pairs s' = filter (\<lambda>(t, n). sint now \<le> sint t + int (window s)) (pairs s)"
    unfolding sane_def by blast
  moreover have "(ts, nonce) \<in> set (pairs s')"
    using assms(2) True by (auto simp: s'(2))
  ultimately show ?thesis by auto
next
  case False
  then show ?thesis
    using check_far [OF assms(3)] by auto
qed

end

definition packet_pair :: "bytes \<Rightarrow> i64 \<times> bytes" where
  "packet_pair pkt = (from_be (field SALT_LEN TS_LEN pkt), field (SALT_LEN + TS_LEN) NONCE_LEN pkt)"

text \<open>Every packet sent so far, at most \<open>n\<close> of them, is in the window.\<close>

definition knows_own :: "nat \<Rightarrow> cstate \<Rightarrow> bool" where
  "knows_own n st \<longleftrightarrow>
     length (crw_pairs (cs_win st)) \<le> n \<and> unat (crw_max_size (cs_win st)) = 1024 \<and>
     (\<forall>(t, k) \<in> set (crw_pairs (cs_win st)). is_date t) \<and>
     (\<forall>(pkt, dst) \<in> set (csent (cs_trace st)). packet_pair pkt \<in> set (crw_pairs (cs_win st)))"

lemma turn_seal_pair:
  assumes "turn_seal C a m i = Ok pkt" and "length (at_nonce i) = NONCE_LEN"
  shows "packet_pair pkt = (client_current_unix_time (at_time i), at_nonce i)"
proof -
  from command_codec.seal_header assms(1) obtain ct where
    "pkt = at_salt i @ to_be 8 (client_current_unix_time (at_time i)) @ at_nonce i @ ct" "length (at_salt i) = SALT_LEN"
    unfolding turn_seal_def by blast
  with assms(2) show ?thesis
    by (simp add: packet_pair_def codec_simps)
qed

lemma knows_own_sent:
  assumes "knows_own n st" and "turn_sent C a m i st st'" and "n < 1024"
    and "length (at_nonce i) = NONCE_LEN" and "is_date (client_current_unix_time (at_time i))"
  shows "knows_own (Suc n) st'"
proof -
  obtain pkt dst where s: "turn_seal C a m i = Ok pkt" "csent (cs_trace st') = csent (cs_trace st) @ [(pkt, dst)]"
    "cs_win st' = turn_record i (cs_win st)"
    using assms(2) by (auto simp: turn_sent_def)
  have room: "length (crw_pairs (cs_win st)) < unat (crw_max_size (cs_win st))"
    using assms(1,3) by (simp add: knows_own_def)
  have "crw_pairs (cs_win st') = crw_pairs (cs_win st) @ [packet_pair pkt]"
    unfolding s(3) turn_record_def turn_seal_pair [OF s(1) assms(4)] by (rule client_cache.pairs_add_room [OF room])
  moreover have "crw_max_size (cs_win st') = crw_max_size (cs_win st)"
    by (simp add: s(3) turn_record_def client_add_state_def client_replay_add_def Let_def)
  ultimately show ?thesis
    using assms(1,5) by (auto simp: knows_own_def s(2) turn_seal_pair [OF s(1) assms(4)])
qed

lemma own_packet_refused:
  assumes "knows_own n st" and "take MAX_CT_SIZE d \<in> fst ` set (csent (cs_trace st))"
    and "is_date (client_current_unix_time t)"
  shows "fst (handle_response C p a m t d cli st) \<noteq> Ok (Return (Inr ()))"
proof -
  let ?now = "client_current_unix_time t" and ?d = "take MAX_CT_SIZE d" and ?w = "cs_win st"
  obtain ts nonce where pair: "packet_pair ?d = (ts, nonce)" by fastforce
  have in_win: "(ts, nonce) \<in> set (crw_pairs ?w)" and dates: "\<forall>(t, k) \<in> set (crw_pairs ?w). is_date t"
    using assms(1,2) pair by (auto simp: knows_own_def)
  then have "is_date ts" by blast
  then have near: "\<bar>sint ?now - sint ts\<bar> < 2 ^ 63"
    using assms(3) by (auto simp: is_date_def abs_less_iff)
  have "in_i64 (sint t + int (unat (crw_window ?w)))" if "is_date t" for t
    using client_cache.date_plus_window [of t t ?w] that by simp
  then have sane: "client_cache.sane ?w"
    using dates unfolding client_cache.sane_def by blast
  obtain win where "client_replay_check p ?now ts nonce ?w = Ok (False, win)"
    using client_cache.known_pair_refused [OF sane in_win near] by blast
  with pair show ?thesis
    by (simp add: handle_response_def decrypt_and_validate_packet_def packet_pair_def Let_def)
qed

lemma run_loop_success_knows:
  assumes "\<And>j. length (at_nonce (attempts j)) = NONCE_LEN"
    and "\<And>j. is_date (client_current_unix_time (at_time (attempts j)))"
    and "unat (ca_max_retries a) < 1024"
  shows "run_loop C p a m attempts k retries st = (Ok (Inr ()), st') \<Longrightarrow> retries \<le> ca_max_retries a \<Longrightarrow>
     knows_own (unat retries) st \<Longrightarrow>
     \<exists>j d cli st0 n. at_recv (attempts j) = Datagram d cli \<and> knows_own n st0 \<and>
       handle_response C p a m (at_time2 (attempts j)) d cli st0 = (Ok (Return (Inr ())), st')"
  using assms
proof (induction C p a m attempts k retries st rule: run_loop.induct)
  case (1 C p a m attempts k retries st)
  obtain r st1 where t: "run_turn C p a m (attempts k) retries st = (r, st1)" by fastforce
  have lt: "unat retries < 1024"
    using "1.prems"(2,6) by (simp add: word_le_nat_alt)
  show ?case
  proof (cases "r = Ok Again")
    case True
    have "retries < ca_max_retries a"
      using run_turn_Again t True by blast
    then have n: "unat (retries + 1) = Suc (unat retries)" "retries + 1 \<le> ca_max_retries a"
      using unat_next_retry [of retries] by (simp_all add: word_le_nat_alt word_less_nat_alt)
    have "turn_sent C a m (attempts k) st st1"
      using run_turn_Again_sent t True by blast
    then have "knows_own (unat (retries + 1)) st1"
      unfolding n(1) by (rule knows_own_sent [OF "1.prems"(3) _ lt "1.prems"(4,5)])
    moreover have "run_loop C p a m attempts (k + 1) (retries + 1) st1 = (Ok (Inr ()), st')"
      using "1.prems"(1) t True by (subst (asm) run_loop.simps) simp
    ultimately show ?thesis
      using "1.IH" [OF t [symmetric] True refl _ n(2) _ "1.prems"(4-6)] by blast
  next
    case False
    with "1.prems"(1) t have "run_turn C p a m (attempts k) retries st = (Ok (Return (Inr ())), st')"
      by (subst (asm) run_loop.simps) (auto split: res.splits turn.splits)
    from run_turn_success_sent [OF this] knows_own_sent [OF "1.prems"(3) _ lt "1.prems"(4,5)]
    show ?thesis by blast
  qed
qed

section \<open>A silent server\<close>

text \<open>A turn in which everything works but no datagram arrives.\<close>

definition silent_turn :: "crypto \<Rightarrow> client_args \<Rightarrow> nat \<Rightarrow> attempt \<Rightarrow> bool" where
  "silent_turn C a m i \<longleftrightarrow>
     at_bind i = None \<and> (\<exists>ip. resolve_ip_addr (at_lookup i) (ca_family a) (ca_server a) = Inr ip) \<and>
     (\<exists>pkt. turn_seal C a m i = Ok pkt) \<and> at_sendto i = None \<and> at_timeout i = None \<and> at_recv i = Timeout"

fun sleeps :: "client_event list \<Rightarrow> nat list" where
  "sleeps [] = []"
| "sleeps (CSleep n # es) = n # sleeps es"
| "sleeps (e # es) = sleeps es"

lemma sleeps_append [simp]: "sleeps (es @ fs) = sleeps es @ sleeps fs"
  by (induction es rule: sleeps.induct) simp_all

lemma run_turn_silent:
  assumes "silent_turn C a m i"
  shows "\<exists>st'. run_turn C p a m i retries st =
      (Ok (if retries < ca_max_retries a then Again else Return (Inl (- 1))), st') \<and>
    length (csent (cs_trace st')) = Suc (length (csent (cs_trace st))) \<and>
    sleeps (cs_trace st') = sleeps (cs_trace st) @ (if retries < ca_max_retries a then [100] else [])"
  using assms
  by (auto simp: silent_turn_def run_turn_def turn_seal_def encrypt_and_send_eq Let_def cs_emit_def
      create_dualstack_udp_socket_def set_sock_timeout_def)

lemma run_loop_silent:
  "\<forall>j. silent_turn C a m (attempts j) \<Longrightarrow> retries \<le> ca_max_retries a \<Longrightarrow>
     \<exists>st'. run_loop C p a m attempts k retries st = (Ok (Inl (- 1)), st') \<and>
       length (csent (cs_trace st')) + unat retries = length (csent (cs_trace st)) + unat (ca_max_retries a) + 1 \<and>
       (\<exists>n. sleeps (cs_trace st') = sleeps (cs_trace st) @ replicate n 100 \<and> n + unat retries = unat (ca_max_retries a))"
proof (induction C p a m attempts k retries st rule: run_loop.induct)
  case (1 C p a m attempts k retries st)
  obtain st1 where t: "run_turn C p a m (attempts k) retries st =
      (Ok (if retries < ca_max_retries a then Again else Return (Inl (- 1))), st1)"
    and s: "length (csent (cs_trace st1)) = Suc (length (csent (cs_trace st)))"
      "sleeps (cs_trace st1) = sleeps (cs_trace st) @ (if retries < ca_max_retries a then [100] else [])"
    using run_turn_silent "1.prems"(1) by blast
  show ?case
  proof (cases "retries < ca_max_retries a")
    case True
    then have n: "unat (retries + 1) = Suc (unat retries)" "retries + 1 \<le> ca_max_retries a"
      using unat_next_retry [of retries] by (simp_all add: word_le_nat_alt word_less_nat_alt)
    from t True have t': "run_turn C p a m (attempts k) retries st = (Ok Again, st1)" by simp
    from "1.IH" [OF t' [symmetric] refl refl "1.prems"(1) n(2)] obtain st' i where
      "run_loop C p a m attempts (k + 1) (retries + 1) st1 = (Ok (Inl (- 1)), st')"
      "length (csent (cs_trace st')) + Suc (unat retries) = length (csent (cs_trace st1)) + unat (ca_max_retries a) + 1"
      "sleeps (cs_trace st') = sleeps (cs_trace st1) @ replicate i 100" "i + Suc (unat retries) = unat (ca_max_retries a)"
      unfolding n(1) by blast
    then show ?thesis
      using True s by (subst run_loop.simps) (auto simp: t' intro!: exI [of _ "Suc i"])
  next
    case False
    then have "retries = ca_max_retries a"
      using "1.prems"(2) by simp
    then show ?thesis
      using False s t by (subst run_loop.simps) (auto intro!: exI [of _ 0])
  qed
qed

section \<open>An answered turn\<close>

text \<open>The state the loop starts in.\<close>

abbreviation client_start :: "client_args \<Rightarrow> client_event list \<Rightarrow> cstate" where
  "client_start a es \<equiv> \<lparr>cs_win = client_replay_init (ca_window a) DEFAULT_REPLAY_MAX, cs_trace = es\<rparr>"

text \<open>The first turn is answered by a packet that opens, is fresh, and is not the one just sent.\<close>

definition answered_turn ::
  "crypto \<Rightarrow> client_args \<Rightarrow> nat \<Rightarrow> attempt \<Rightarrow> bytes \<Rightarrow> IpAddr \<Rightarrow> bytes \<Rightarrow> SocketAddr \<Rightarrow> bytes \<Rightarrow> bool" where
  "answered_turn C a m i pkt ip d cli pt \<longleftrightarrow>
     at_bind i = None \<and> resolve_ip_addr (at_lookup i) (ca_family a) (ca_server a) = Inr ip \<and>
     turn_seal C a m i = Ok pkt \<and> at_sendto i = None \<and> at_timeout i = None \<and>
     at_recv i = Datagram d cli \<and> length d \<le> MAX_CT_SIZE \<and>
     is_date (client_current_unix_time (at_time i)) \<and>
     (\<exists>nonce ts. client_open C (ca_psk a) m d = Ok (pt, nonce, ts) \<and>
        (nonce, ts) \<noteq> (at_nonce i, client_current_unix_time (at_time i)) \<and>
        \<bar>sint (client_current_unix_time (at_time2 i)) - sint ts\<bar> \<le> int (unat (ca_window a)))"

lemma first_check_accepts:
  assumes "is_date t" and "(ts, nonce) \<noteq> (t, k)" and "\<bar>sint now - sint ts\<bar> \<le> int (unat w)"
  shows "\<exists>win. client_replay_check p now ts nonce (client_add_state t k (client_replay_init w 1024)) = Ok (True, win)"
proof -
  let ?s = "client_replay_init w 1024"
  have ps: "crw_pairs (client_add_state t k ?s) = [(t, k)]"
    by (subst client_cache.pairs_add_room) (simp_all add: crw_pairs_def client_replay_init_def)
  have win: "crw_window (client_add_state t k ?s) = w"
    by (simp add: client_add_state_def client_replay_add_def client_replay_init_def Let_def)
  have "in_i64 (sint t + int (unat w))"
    using client_cache.date_plus_window [of t t ?s] assms(1) by (simp add: client_replay_init_def)
  then have "\<exists>win. client_replay_check p now ts nonce (client_add_state t k ?s) =
      Ok ((ts, nonce) \<notin> set (crw_pairs win), win) \<and> set (crw_pairs win) \<subseteq> {(t, k)}"
    using client_cache.check_near [of now ts "client_add_state t k ?s" p nonce] assms(3)
    by (auto simp: ps win)
  then show ?thesis
    using assms(2) by auto
qed

lemma run_turn_answered:
  assumes "answered_turn C a m i pkt ip d cli pt"
  shows "\<exists>st'. run_turn C p a m i retries (client_start a es) = (Ok (Return (Inr ())), st') \<and>
    csent (cs_trace st') = csent es @ [(pkt, sock_new ip (ca_server_port a))] \<and>
    last (cs_trace st') = CInfo (''response from '' @ client_addr_to_str cli @ '': '' @
      from_utf8_lossy (client_remove_padding pt))"
proof -
  obtain nonce ts where o: "client_open C (ca_psk a) m d = Ok (pt, nonce, ts)"
    and n: "(ts, nonce) \<noteq> (client_current_unix_time (at_time i), at_nonce i)"
    and near: "\<bar>sint (client_current_unix_time (at_time2 i)) - sint ts\<bar> \<le> int (unat (ca_window a))"
    using assms by (auto simp: answered_turn_def)
  obtain win where w: "client_replay_check p (client_current_unix_time (at_time2 i)) ts nonce
      (turn_record i (client_replay_init (ca_window a) DEFAULT_REPLAY_MAX)) = Ok (True, win)"
    using first_check_accepts [OF _ n near] assms
    unfolding turn_record_def DEFAULT_REPLAY_MAX_def answered_turn_def by blast
  have "\<not> length d < MIN_LEN"
    using o by (auto simp: client_open_def)
  then have h: "handle_response C p a m (at_time2 i) d cli st =
      (Ok (Return (Inr ())), cs_emit (CInfo (''response from '' @ client_addr_to_str cli @ '': '' @
        from_utf8_lossy (client_remove_padding pt))) (st\<lparr>cs_win := client_add_state ts nonce win\<rparr>))"
    if "cs_win st = turn_record i (client_replay_init (ca_window a) DEFAULT_REPLAY_MAX)" for st
    using decrypt_and_validate_eq [OF o, of p "client_current_unix_time (at_time2 i)" st win cli] w that assms
    by (simp add: handle_response_def Let_def answered_turn_def)
  define st1 where "st1 = cs_emit (CSend pkt (sock_new ip (ca_server_port a)))
    (client_start a es)\<lparr>cs_win := turn_record i (client_replay_init (ca_window a) DEFAULT_REPLAY_MAX)\<rparr>"
  have "\<exists>n. encrypt_and_send_packet C (ca_psk a) (build_padded_cmd (ca_script a) (at_pad i)) m
      (client_current_unix_time (at_time i)) (at_salt i) (at_nonce i) None (sock_new ip (ca_server_port a))
      (client_start a es) = (Ok n, st1)"
    using assms by (simp add: answered_turn_def turn_seal_def encrypt_and_send_eq st1_def turn_record_def)
  then obtain n where e: "encrypt_and_send_packet C (ca_psk a) (build_padded_cmd (ca_script a) (at_pad i)) m
      (client_current_unix_time (at_time i)) (at_salt i) (at_nonce i) None (sock_new ip (ca_server_port a))
      (client_start a es) = (Ok n, st1)" ..
  have st1: "cs_win st1 = turn_record i (client_replay_init (ca_window a) DEFAULT_REPLAY_MAX)"
    "csent (cs_trace st1) = csent es @ [(pkt, sock_new ip (ca_server_port a))]"
    by (simp_all add: st1_def)
  show ?thesis
    using assms
    by (simp add: answered_turn_def run_turn_def e Let_def create_dualstack_udp_socket_def set_sock_timeout_def h st1)
qed

section \<open>The whole run\<close>

lemma dsl_loop_csent: "csent (fst (dsl_loop argv0 d toks)) = [] \<and> sleeps (fst (dsl_loop argv0 d toks)) = []"
  by (induction argv0 d toks rule: dsl_loop.induct) (auto split: list.split sum.split)

lemma parse_dsl_args_csent:
  assumes "parse_dsl_args read argv = (es, r)"
  shows "csent es = []" and "sleeps es = []"
  using assms dsl_loop_csent [of "hd argv" dsl_init "tl argv"]
  by (auto simp: parse_dsl_args_def split: list.splits prod.splits sum.splits option.splits if_splits)

lemma memlimit_log_csent:
  "csent (map client_memlimit_log ls) = []" "sleeps (map client_memlimit_log ls) = []"
  by (induction ls) (auto simp: client_memlimit_log_def split: sum.split)

abbreviation memlimit_of :: "string option \<Rightarrow> nat" where
  "memlimit_of var \<equiv> fst (client_setup_pwhash_memlimit var)"

lemma client_run_loop:
  assumes "parse_dsl_args read argv = (es0, Ok (Inr a))"
  obtains es where "csent es = []" "sleeps es = []"
    and "client_run C p argv var read attempts =
      apsnd cs_trace (run_loop C p a (memlimit_of var) attempts 0 0 (client_start a es))"
proof
  let ?es = "map client_memlimit_log (snd (client_setup_pwhash_memlimit var)) @ es0"
  show "csent ?es = []" "sleeps ?es = []"
    by (simp_all add: memlimit_log_csent parse_dsl_args_csent [OF assms])
  show "client_run C p argv var read attempts =
      apsnd cs_trace (run_loop C p a (memlimit_of var) attempts 0 0 (client_start a ?es))"
    by (simp add: client_run_def assms split: prod.split)
qed

lemma client_run_success:
  assumes "client_run C p argv var read attempts = (Ok (Inr ()), es)"
  obtains a es0 where "parse_dsl_args read argv = (es0, Ok (Inr a))"
  using assms by (auto simp: client_run_def Let_def split: prod.splits res.splits sum.splits)

lemma client_run_answered:
  assumes "parse_dsl_args read argv = (es0, Ok (Inr a))"
    and "answered_turn C a (memlimit_of var) (attempts 0) pkt ip d cli pt"
  shows "\<exists>es. client_run C p argv var read attempts = (Ok (Inr ()), es) \<and>
    csent es = [(pkt, sock_new ip (ca_server_port a))] \<and>
    last es = CInfo (''response from '' @ client_addr_to_str cli @ '': '' @
      from_utf8_lossy (client_remove_padding pt))"
proof -
  obtain es where es: "csent es = []" and run: "client_run C p argv var read attempts =
      apsnd cs_trace (run_loop C p a (memlimit_of var) attempts 0 0 (client_start a es))"
    by (rule client_run_loop [OF assms(1)])
  from run_turn_answered [OF assms(2), of p 0 es] es run show ?thesis
    by (subst (asm) run_loop.simps) auto
qed

text \<open>The first packet of a run whose first turn can send.\<close>

lemma client_run_sends_first:
  assumes "crypto_ok C" and "\<And>j. length (at_nonce (attempts j)) = NONCE_LEN"
    and "parse_dsl_args read argv = (es0, Ok (Inr a))" and "turn_seal C a (memlimit_of var) (attempts 0) = Ok pkt"
    and "at_bind (attempts 0) = None" and "at_sendto (attempts 0) = None"
    and "resolve_ip_addr (at_lookup (attempts 0)) (ca_family a) (ca_server a) = Inr ip"
  shows "pkt \<in> fst ` set (csent (snd (client_run C p argv var read attempts)))"
proof -
  obtain es where es: "csent es = []" and run: "client_run C p argv var read attempts =
      apsnd cs_trace (run_loop C p a (memlimit_of var) attempts 0 0 (client_start a es))"
    by (rule client_run_loop [OF assms(3)])
  obtain r1 st1 where t: "run_turn C p a (memlimit_of var) (attempts 0) 0 (client_start a es) = (r1, st1)" by fastforce
  have "encrypt_and_send_packet C (ca_psk a) (build_padded_cmd (ca_script a) (at_pad (attempts 0))) (memlimit_of var)
      (client_current_unix_time (at_time (attempts 0))) (at_salt (attempts 0)) (at_nonce (attempts 0))
      (at_sendto (attempts 0)) (sock_new ip (ca_server_port a)) st = (r, st') \<Longrightarrow>
      csent (cs_trace st') = csent (cs_trace st) @ [(pkt, sock_new ip (ca_server_port a))]" for st r st'
    using assms(4,6) by (auto simp: turn_seal_def encrypt_and_send_eq)
  then have s: "csent (cs_trace st1) = [(pkt, sock_new ip (ca_server_port a))]"
    using run_turn_csent [OF assms(7,5), of C "memlimit_of var" "client_start a es" _ _ p 0] es t
    by (metis append_Nil cstate.select_convs(2) prod.exhaust_sel snd_conv)
  obtain r st' where l: "run_loop C p a (memlimit_of var) attempts 0 0 (client_start a es) = (r, st')" by fastforce
  have "set (csent (cs_trace st1)) \<subseteq> set (csent (cs_trace st'))"
  proof (cases "r1 = Ok Again")
    case True
    then have "run_loop C p a (memlimit_of var) attempts (0 + 1) (0 + 1) st1 = (r, st')"
      using l t by (subst (asm) run_loop.simps) simp
    from run_loop_command [OF assms(1,2) this] show ?thesis by auto
  next
    case False
    then have "st' = st1"
      using l t by (subst (asm) run_loop.simps) (auto split: res.splits turn.splits)
    then show ?thesis by simp
  qed
  then show ?thesis
    by (auto simp: run l s image_iff intro: bexI [of _ "(pkt, sock_new ip (ca_server_port a))"])
qed

section \<open>Samples to evaluate on\<close>

definition sample_attempt :: "received \<Rightarrow> attempt" where
  "sample_attempt r =
     \<lparr>at_pad = 0, at_bind = None, at_lookup = (\<lambda>_. Inl ''no resolver''), at_time = 100,
      at_salt = replicate 16 5, at_nonce = replicate 24 6, at_sendto = None, at_timeout = None, at_recv = r,
      at_time2 = 101\<rparr>"

definition sample_args :: client_args where
  "sample_args =
     \<lparr>ca_script = ''status'', ca_psk = ''password'', ca_server = DEFAULT_SERVER, ca_server_port = DEFAULT_SERVER_PORT,
      ca_family = Unspec, ca_window = DEFAULT_WINDOW, ca_max_retries = 3\<rparr>"

abbreviation sample_argv :: "string list" where
  "sample_argv \<equiv> [''tuctl-client'', ''psk'', ''password'']"

lemma sample_parse: "parse_dsl_args (\<lambda>_. Inr ''status'') sample_argv = ([], Ok (Inr sample_args))"
  by (simp add: parse_dsl_args_def dsl_init_def sample_args_def read_script_def matches_def)

lemma sample_resolves: "resolve_ip_addr (\<lambda>_. Inl ''no resolver'') Unspec DEFAULT_SERVER = Inr (V4 [127, 0, 0, 1])"
  by code_simp

definition sealed_sample :: "u8 \<Rightarrow> u8 \<Rightarrow> string \<Rightarrow> bytes" where
  "sealed_sample salt nonce msg =
     replicate 16 salt @ to_be 8 (100 :: i64) @ replicate 24 nonce @ as_bytes msg @
       sample_tag (as_bytes ''password'' @ replicate 16 salt @ replicate 8 0)"

lemma length_sealed_sample [simp]: "length msg \<le> 4096 \<Longrightarrow> length (sealed_sample salt nonce msg) \<le> MAX_CT_SIZE"
  by (simp add: sealed_sample_def sample_tag_def MAX_CT_SIZE_def MAX_PT_SIZE_def)

lemma sample_attempt_simps [simp]:
  "at_recv (sample_attempt r) = r" "at_bind (sample_attempt r) = None" "at_sendto (sample_attempt r) = None"
  "at_timeout (sample_attempt r) = None" "at_lookup (sample_attempt r) = (\<lambda>_. Inl ''no resolver'')"
  "ca_family sample_args = Unspec" "ca_server sample_args = DEFAULT_SERVER" "ca_psk sample_args = ''password''"
  "length (at_nonce (sample_attempt r)) = 24"
  by (simp_all add: sample_attempt_def sample_args_def)

lemma sample_seal: "turn_seal sample_crypto sample_args m (sample_attempt r) = Ok (sealed_sample 5 6 ''status'')"
  by (simp add: turn_seal_def client_seal_def client_psk2key_def sample_crypto_def sample_args_def sample_attempt_def
      build_padded_cmd_def Let_def client_current_unix_time_def MAX_PT_SIZE_def sealed_sample_def)

lemma sample_open:
  "client_open sample_crypto ''password'' m (sealed_sample 1 2 ''ok'') = Ok (as_bytes ''ok'', replicate 24 2, 100)"
  by (simp add: client_open_def sealed_sample_def client_psk2key_def sample_crypto_def Let_def MIN_LEN_def
      codec_simps sample_tag_def)

lemma sample_answered:
  "answered_turn sample_crypto sample_args m (sample_attempt (Datagram (sealed_sample 1 2 ''ok'') (SockV4 [127, 0, 0, 1] 7000)))
     (sealed_sample 5 6 ''status'') (V4 [127, 0, 0, 1]) (sealed_sample 1 2 ''ok'') (SockV4 [127, 0, 0, 1] 7000)
     (as_bytes ''ok'')"
proof -
  show ?thesis
    by (simp add: answered_turn_def sample_seal sample_open sample_resolves)
      (simp add: sample_attempt_def sample_args_def sealed_sample_def sample_tag_def client_current_unix_time_def is_date_def
        DEFAULT_WINDOW_def MAX_CT_SIZE_def MAX_PT_SIZE_def)
qed

section \<open>Properties\<close>

text \<open>
  C29. The argument language: any list of well-formed options, in any order and with repetitions, is
  read as their effects in that order on the defaults; the run starts when there is a secret of at
  least 8 bytes and the script can be read, and without such a secret it ends with the usage message.
\<close>

theorem client_arguments_are_understood:
  assumes "list_all arg_ok args"
  shows "let d = fold apply_arg args dsl_init;
      r = parse_dsl_args read (argv0 # concat (map arg_tokens args))
    in case d_psk d of
         None \<Rightarrow> r = ([CError ''psk must be specified'', CUsage argv0], Ok (Inl (- 22)))
       | Some psk \<Rightarrow>
           if length psk < 8 then
             r = ([CError ''PSK must be at least 8 characters long'', CUsage argv0], Ok (Inl (- 22)))
           else (case read_script read (d_script d) of
               Inl e \<Rightarrow> r = ([CError e], Ok (Inl (- 1)))
             | Inr content \<Rightarrow>
                 r = ([], Ok (Inr \<lparr>ca_script = content, ca_psk = psk, ca_server = d_server d,
                   ca_server_port = d_server_port d, ca_family = d_family d, ca_window = d_window d,
                   ca_max_retries = d_max_retries d\<rparr>)))"
  by (simp add: parse_dsl_args_def dsl_loop_args [OF assms] Let_def split: option.split sum.split)

theorem client_arguments_are_understood_witness:
  "parse_dsl_args (\<lambda>_. Inr ''status'')
     [''tuctl-client'', ''psk'', ''password'', ''-6'', ''server-port'', show_word (7001 :: u16), ''-4''] =
     ([], Ok (Inr \<lparr>ca_script = ''status'', ca_psk = ''password'', ca_server = DEFAULT_SERVER,
       ca_server_port = 7001, ca_family = Inet4, ca_window = DEFAULT_WINDOW, ca_max_retries = 3\<rparr>))"
proof -
  have "list_all arg_ok [ArgPsk ''password'', ArgOnly6, ArgPort 7001, ArgOnly4]"
    by simp
  from client_arguments_are_understood [OF this, of "\<lambda>_. Inr ''status''" "''tuctl-client''"] show ?thesis
    by (simp add: Let_def dsl_init_def read_script_def)
qed

text \<open>
  The address: the server's address is of the family the user asked for, and is the literal
  itself or the first suitable one of the resolver's list; in every other case there is an error.
\<close>

theorem client_address_respects_the_family:
  "resolve_ip_addr lookup family server = Inr ip \<longleftrightarrow>
     family_ok family ip \<and>
     (case ip_from_str server of
        Some literal \<Rightarrow> ip = literal
      | None \<Rightarrow> \<exists>ips. lookup server = Inr ips \<and> List.find (family_ok family) ips = Some ip)"
  by (cases family)
    (auto simp: resolve_ip_addr_def pick_addr_find dest: find_family split: option.splits sum.splits IpAddr.splits)

text \<open>
  C8. What the client sends: at most one datagram for the first try and one for each retry, each of
  them its script, padded and sealed under its secret so that the server opens it, to an address of
  the asked family at the server's port; without valid arguments nothing at all.
\<close>

theorem client_sends_only_its_command:
  assumes "crypto_ok C" and "\<And>j. length (at_nonce (attempts j)) = NONCE_LEN"
  shows "let ds = csent (snd (client_run C p argv var read attempts))
    in case snd (parse_dsl_args read argv) of
         Ok (Inr a) \<Rightarrow>
           length ds \<le> unat (ca_max_retries a) + 1 \<and>
           list_all (is_command C a (fst (client_setup_pwhash_memlimit var))) ds
       | _ \<Rightarrow> ds = []"
proof (cases "\<exists>a. snd (parse_dsl_args read argv) = Ok (Inr a)")
  case True
  then obtain a es0 where a: "parse_dsl_args read argv = (es0, Ok (Inr a))"
    by (cases "parse_dsl_args read argv") auto
  obtain es where es: "csent es = []" and run: "client_run C p argv var read attempts =
      apsnd cs_trace (run_loop C p a (memlimit_of var) attempts 0 0 (client_start a es))"
    by (rule client_run_loop [OF a])
  obtain r st' where l: "run_loop C p a (memlimit_of var) attempts 0 0 (client_start a es) = (r, st')" by fastforce
  have "length (csent (cs_trace st')) \<le> unat (ca_max_retries a) + 1"
    using run_loop_sends [of 0 a C p "memlimit_of var" attempts 0 "client_start a es"] by (simp add: l es)
  moreover have "list_all (is_command C a (memlimit_of var)) (csent (cs_trace st'))"
    using run_loop_command [OF assms l] es by auto
  ultimately show ?thesis
    by (simp add: a run l)
next
  case False
  then have "csent (snd (client_run C p argv var read attempts)) = []"
    using parse_dsl_args_csent(1) [of read argv]
    by (auto simp: client_run_def Let_def memlimit_log_csent split: prod.split res.split sum.split)
  with False show ?thesis
    by (auto split: res.split sum.split)
qed

theorem client_sends_only_its_command_witness:
  "list_all (is_command sample_crypto sample_args (64 * 1024 * 1024))
     (csent (snd (client_run sample_crypto Release sample_argv None (\<lambda>_. Inr ''status'')
       (\<lambda>_. sample_attempt Timeout))))"
proof -
  have "length (at_nonce (sample_attempt Timeout)) = NONCE_LEN"
    by (simp add: sample_attempt_def)
  from client_sends_only_its_command [OF sample_crypto_ok this, of Release sample_argv None "\<lambda>_. Inr ''status''"]
  show ?thesis
    by (simp add: sample_parse client_setup_pwhash_memlimit_def Let_def)
qed

text \<open>
  C5. Success is authentic: the client ends with success only after a received datagram, cut to the
  receive buffer, that the server's \<open>encrypt_packet\<close> makes under the client's secret, and it reports
  the message of that packet without its padding.
\<close>

theorem success_is_authentic:
  assumes "crypto_ok C" and "client_run C p argv var read attempts = (Ok (Inr ()), es)"
  shows "\<exists>a es0 j d cli pt salt nonce ts.
    parse_dsl_args read argv = (es0, Ok (Inr a)) \<and> at_recv (attempts j) = Datagram d cli \<and>
    encrypt_packet C (ca_psk a) pt (fst (client_setup_pwhash_memlimit var)) ts salt nonce =
      Ok (take MAX_CT_SIZE d, nonce, ts) \<and>
    last es = CInfo (''response from '' @ client_addr_to_str cli @ '': '' @
      from_utf8_lossy (client_remove_padding pt))"
proof -
  obtain a es0 where a: "parse_dsl_args read argv = (es0, Ok (Inr a))"
    by (rule client_run_success [OF assms(2)])
  obtain es1 where "client_run C p argv var read attempts =
      apsnd cs_trace (run_loop C p a (memlimit_of var) attempts 0 0 (client_start a es1))"
    by (rule client_run_loop [OF a])
  with assms(2) obtain st' where l: "run_loop C p a (memlimit_of var) attempts 0 0 (client_start a es1) = (Ok (Inr ()), st')"
    and es: "es = cs_trace st'"
    by (cases "run_loop C p a (memlimit_of var) attempts 0 0 (client_start a es1)") auto
  obtain j d cli st0 where j: "at_recv (attempts j) = Datagram d cli"
    "handle_response C p a (memlimit_of var) (at_time2 (attempts j)) d cli st0 = (Ok (Return (Inr ())), st')"
    using run_loop_success [OF l] by blast
  obtain pt nonce ts es2 where o: "client_open C (ca_psk a) (memlimit_of var) (take MAX_CT_SIZE d) = Ok (pt, nonce, ts)"
    and e: "cs_trace st' = es2 @ [CInfo (''response from '' @ client_addr_to_str cli @ '': '' @
      from_utf8_lossy (client_remove_padding pt))]"
    using handle_response_success [OF j(2)] by blast
  obtain salt where "server_seal C (ca_psk a) (memlimit_of var) ts salt nonce pt = Ok (take MAX_CT_SIZE d)"
    using response_codec.seal_open [OF assms(1) o] by blast
  from a j(1) server_seal_encrypt [OF this] show ?thesis
    unfolding es e last_snoc by blast
qed

theorem success_is_authentic_witness:
  "\<exists>pt salt nonce ts. encrypt_packet sample_crypto ''password'' pt (64 * 1024 * 1024) ts salt nonce =
     Ok (sealed_sample 1 2 ''ok'', nonce, ts)"
proof -
  let ?i = "sample_attempt (Datagram (sealed_sample 1 2 ''ok'') (SockV4 [127, 0, 0, 1] 7000))"
  obtain es where "client_run sample_crypto Release sample_argv None (\<lambda>_. Inr ''status'') (\<lambda>_. ?i) = (Ok (Inr ()), es)"
    using client_run_answered [OF sample_parse sample_answered] by blast
  from success_is_authentic [OF sample_crypto_ok this] obtain a es0 d cli pt salt nonce ts where r:
    "parse_dsl_args (\<lambda>_. Inr ''status'') sample_argv = (es0, Ok (Inr a))" "at_recv ?i = Datagram d cli"
    "encrypt_packet sample_crypto (ca_psk a) pt (memlimit_of None) ts salt nonce = Ok (take MAX_CT_SIZE d, nonce, ts)"
    by blast
  have "a = sample_args"
    using r(1) by (simp add: sample_parse)
  then have "ca_psk a = ''password''" "take MAX_CT_SIZE d = sealed_sample 1 2 ''ok''"
    using r(2) by simp_all auto
  then show ?thesis
    using r(3) unfolding client_setup_pwhash_memlimit_def Let_def option.case fst_conv by metis
qed

text \<open>
  C18. No echo: when every datagram the client receives is one of the packets it sent itself, it does
  not end with success. (Its window holds all of them as long as there are fewer than 1024 retries.)
\<close>

theorem own_packets_are_no_response:
  assumes "\<And>j. length (at_nonce (attempts j)) = NONCE_LEN"
    and "\<And>j. is_date (client_current_unix_time (at_time (attempts j)))"
    and "\<And>j. is_date (client_current_unix_time (at_time2 (attempts j)))"
    and "client_run C p argv var read attempts = (r, es)"
    and "\<And>j d cli. at_recv (attempts j) = Datagram d cli \<Longrightarrow> take MAX_CT_SIZE d \<in> fst ` set (csent es)"
    and "parse_dsl_args read argv = (es0, Ok (Inr a))" and "unat (ca_max_retries a) < 1024"
  shows "r \<noteq> Ok (Inr ())"
proof
  assume r: "r = Ok (Inr ())"
  obtain es1 where es1: "csent es1 = []" and run: "client_run C p argv var read attempts =
      apsnd cs_trace (run_loop C p a (memlimit_of var) attempts 0 0 (client_start a es1))"
    by (rule client_run_loop [OF assms(6)])
  from run assms(4) r obtain st' where
    l: "run_loop C p a (memlimit_of var) attempts 0 0 (client_start a es1) = (Ok (Inr ()), st')"
    and es: "es = cs_trace st'"
    by (cases "run_loop C p a (memlimit_of var) attempts 0 0 (client_start a es1)") auto
  have "knows_own (unat (0 :: u16)) (client_start a es1)"
    by (simp add: knows_own_def es1 crw_pairs_def client_replay_init_def DEFAULT_REPLAY_MAX_def)
  from run_loop_success_knows [OF assms(1,2,7) l _ this] obtain j d cli st0 n where
    j: "at_recv (attempts j) = Datagram d cli" "knows_own n st0"
      "handle_response C p a (memlimit_of var) (at_time2 (attempts j)) d cli st0 = (Ok (Return (Inr ())), st')"
    by auto
  have "csent (cs_trace st') = csent (cs_trace st0)"
    using handle_response_sends [of C p a "memlimit_of var" "at_time2 (attempts j)" d cli st0] by (simp add: j(3))
  then have "take MAX_CT_SIZE d \<in> fst ` set (csent (cs_trace st0))"
    using assms(5) [OF j(1)] es by simp
  from own_packet_refused [where cli = cli and C = C and p = p and a = a and m = "memlimit_of var",
      OF j(2) this assms(3) [of j]] j(3) show False by simp
qed

theorem own_packets_are_no_response_witness:
  "fst (client_run sample_crypto Release sample_argv None (\<lambda>_. Inr ''status'')
     (\<lambda>_. sample_attempt (Datagram (sealed_sample 5 6 ''status'') (SockV4 [127, 0, 0, 1] 7000)))) \<noteq> Ok (Inr ())"
proof -
  let ?i = "sample_attempt (Datagram (sealed_sample 5 6 ''status'') (SockV4 [127, 0, 0, 1] 7000))"
  let ?run = "client_run sample_crypto Release sample_argv None (\<lambda>_. Inr ''status'') (\<lambda>_. ?i)"
  have i: "length (at_nonce ?i) = NONCE_LEN" "is_date (client_current_unix_time (at_time ?i))"
    "is_date (client_current_unix_time (at_time2 ?i))" "unat (ca_max_retries sample_args) < 1024"
    by (simp_all add: sample_attempt_def sample_args_def client_current_unix_time_def is_date_def)
  have "take MAX_CT_SIZE d \<in> fst ` set (csent (snd ?run))" if "at_recv ?i = Datagram d cli" for d cli
  proof -
    have "sealed_sample 5 6 ''status'' \<in> fst ` set (csent (snd ?run))"
      by (rule client_run_sends_first [OF sample_crypto_ok _ sample_parse sample_seal]) (simp_all add: sample_resolves)
    moreover have "take MAX_CT_SIZE d = sealed_sample 5 6 ''status''"
      using that by auto
    ultimately show ?thesis by simp
  qed
  from own_packets_are_no_response [OF i(1-3) _ this sample_parse i(4), of sample_crypto Release None "fst ?run"]
  show ?thesis by simp
qed

text \<open>
  C19. A silent server: when every turn sends its packet and no datagram arrives, the client sends
  exactly one packet more than the retries allowed, waits 100 milliseconds before each retry, and
  then ends with the failure code.
\<close>

theorem silent_server_is_given_up:
  assumes "parse_dsl_args read argv = (es0, Ok (Inr a))"
    and "\<forall>j. silent_turn C a (fst (client_setup_pwhash_memlimit var)) (attempts j)"
  shows "let (r, es) = client_run C p argv var read attempts
    in r = Ok (Inl (- 1)) \<and> length (csent es) = unat (ca_max_retries a) + 1 \<and>
       sleeps es = replicate (unat (ca_max_retries a)) 100"
proof -
  obtain es where es: "csent es = []" "sleeps es = []" and run: "client_run C p argv var read attempts =
      apsnd cs_trace (run_loop C p a (memlimit_of var) attempts 0 0 (client_start a es))"
    by (rule client_run_loop [OF assms(1)])
  from run_loop_silent [OF assms(2), of 0 p 0 "client_start a es"] es run show ?thesis
    by auto
qed

theorem silent_server_is_given_up_witness:
  "let (r, es) = client_run sample_crypto Release sample_argv None (\<lambda>_. Inr ''status'') (\<lambda>_. sample_attempt Timeout)
   in r = Ok (Inl (- 1)) \<and> length (csent es) = 4 \<and> sleeps es = [100, 100, 100]"
proof -
  have "\<forall>j :: nat. silent_turn sample_crypto sample_args (memlimit_of None) (sample_attempt Timeout)"
    by (simp add: silent_turn_def sample_resolves sample_seal)
  from silent_server_is_given_up [OF sample_parse this, of Release]
  moreover have "unat (ca_max_retries sample_args) = 3"
    by (simp add: sample_args_def)
  ultimately show ?thesis
    by (simp add: case_prod_beta eval_nat_numeral)
qed

end
