(* ===== verification/End_To_End.thy ===== *)
theory End_To_End
  imports Server_System Client_Session
begin

text \<open>
  The client and the server together: a command of \<open>tuctl-client\<close> is run by \<open>tuctl-server\<close> and its
  output is what the client reports.
\<close>

section \<open>From the client's packet to its report\<close>

lemma turn_seal_opens:
  assumes "crypto_ok C" and "turn_seal C a m i = Ok pkt" and "length (at_nonce i) = NONCE_LEN"
  shows "decrypt_packet C (ca_psk a) pkt m =
      Ok (build_padded_cmd (ca_script a) (at_pad i), at_nonce i, client_current_unix_time (at_time i))"
    and "length pkt = MIN_LEN + length (build_padded_cmd (ca_script a) (at_pad i))"
proof -
  have s: "client_seal C (ca_psk a) m (client_current_unix_time (at_time i)) (at_salt i) (at_nonce i)
      (build_padded_cmd (ca_script a) (at_pad i)) = Ok pkt"
    using assms(2) by (simp add: turn_seal_def)
  show "decrypt_packet C (ca_psk a) pkt m =
      Ok (build_padded_cmd (ca_script a) (at_pad i), at_nonce i, client_current_unix_time (at_time i))"
    using command_codec.open_seal [OF assms(1) s assms(3)] by (simp add: server_open_def)
  show "length pkt = MIN_LEN + length (build_padded_cmd (ca_script a) (at_pad i))"
    by (rule command_codec.seal_length [OF assms(1) s assms(3)])
qed

lemma command_unpadded:
  assumes "script = [] \<or> last script \<noteq> CHR ''#''"
  shows "remove_padding (build_padded_cmd script r) = as_bytes script"
proof -
  have "as_bytes script = [] \<or> last (as_bytes script) \<noteq> hash_byte"
    using assms by (cases "script = []") (auto simp: as_bytes_def last_map)
  then show ?thesis
    by (simp add: build_padded_cmd_def Let_def remove_padding_append remove_padding_id)
qed

lemma response_unpadded: "client_remove_padding (pad_response resp r) = remove_padding resp"
  using pad_response_eq [of resp r] by (auto simp: client_remove_padding_eq remove_padding_append)

lemma response_fits:
  assumes "crypto_ok C"
    and "encrypt_packet C psk (pad_response (take MAX_PT_SIZE resp) r) m ts salt nonce = Ok (enc, nonce', ts')"
    and "length nonce = NONCE_LEN"
  shows "client_open C psk m enc = Ok (pad_response (take MAX_PT_SIZE resp) r, nonce, ts)"
    and "length enc \<le> MAX_CT_SIZE"
proof -
  note s = server_seal_of_encrypt [OF assms(2)]
  show "client_open C psk m enc = Ok (pad_response (take MAX_PT_SIZE resp) r, nonce, ts)"
    by (rule response_codec.open_seal [OF assms(1) s assms(3)])
  show "length enc \<le> MAX_CT_SIZE"
    using response_codec.seal_length [OF assms(1) s assms(3)] length_pad_response [of "take MAX_PT_SIZE resp" r]
    by (simp add: MIN_LEN_def MAX_CT_SIZE_def MAX_PT_SIZE_def)
qed

section \<open>A round trip to evaluate on\<close>

definition server_cfg :: srv_config where
  "server_cfg =
     \<lparr>cf_crypto = sample_crypto, cf_psk = ''password'', cf_memlimit = 64 * 1024 * 1024, cf_profile = Release\<rparr>"

definition server_inputs :: packet_inputs where
  "server_inputs =
     \<lparr>pi_time = 101, pi_env = \<lparr>env_var = (\<lambda>_. None), module_exists = True\<rparr>,
      pi_child = (\<lambda>argv cmd. Output (as_bytes ''ok'') []), pi_pad = 0, pi_time2 = 100,
      pi_salt = replicate 16 1, pi_nonce = replicate 24 2, pi_send_err = None\<rparr>"

definition answered :: "nat \<Rightarrow> attempt" where
  "answered n = sample_attempt (Datagram (sealed_sample 1 2 ''ok'') (SockV4 [127, 0, 0, 1] 7000))"

lemma answered_facts:
  "crypto_ok (cf_crypto server_cfg)"
  "cf_psk server_cfg = ca_psk sample_args" "cf_memlimit server_cfg = memlimit_of None"
  "length (ca_script sample_args) < MAX_PT_SIZE" "ca_script sample_args = [] \<or> last (ca_script sample_args) \<noteq> CHR ''#''"
  "at_bind (answered 0) = None" "at_sendto (answered 0) = None" "at_timeout (answered 0) = None"
  "resolve_ip_addr (at_lookup (answered 0)) (ca_family sample_args) (ca_server sample_args) = Inr (V4 [127, 0, 0, 1])"
  "turn_seal (cf_crypto server_cfg) sample_args (memlimit_of None) (answered 0) = Ok (sealed_sample 5 6 ''status'')"
  "length (at_nonce (answered 0)) = NONCE_LEN" "is_date (client_current_unix_time (at_time (answered 0)))"
  "replay_check (cf_profile server_cfg) (current_unix_time (pi_time server_inputs))
     (client_current_unix_time (at_time (answered 0))) (at_nonce (answered 0)) (sr_replay (sys_srv (initial 30 8 []))) =
     Ok (True, replay_new 30 8)"
  "pi_child server_inputs (command_line (pi_env server_inputs)) (as_bytes (ca_script sample_args)) =
     Output (as_bytes ''ok'') []"
  "encrypt_packet (cf_crypto server_cfg) (cf_psk server_cfg)
     (pad_response (take MAX_PT_SIZE (as_bytes ''ok'' @ [])) (pi_pad server_inputs)) (cf_memlimit server_cfg)
     (current_unix_time (pi_time2 server_inputs)) (pi_salt server_inputs) (pi_nonce server_inputs) =
     Ok (sealed_sample 1 2 ''ok'', replicate 24 2, 100)"
  "pi_send_err server_inputs = None" "length (pi_nonce server_inputs) = NONCE_LEN"
  "pi_nonce server_inputs \<noteq> at_nonce (answered 0)"
  "at_recv (answered 0) = Datagram (sealed_sample 1 2 ''ok'') (SockV4 [127, 0, 0, 1] 7000)"
  "\<bar>sint (client_current_unix_time (at_time2 (answered 0))) - sint (current_unix_time (pi_time2 server_inputs))\<bar> \<le>
     int (unat (ca_window sample_args))"
  "client_current_unix_time (at_time (answered 0)) = 100" "at_nonce (answered 0) = replicate 24 6"
proof -
  have w: "replay_check Release 101 100 (replicate 24 6) (replay_new 30 8) = Ok (True, replay_new 30 8)"
    by (simp add: replay_new_def, code_simp)
  have t: "client_current_unix_time (at_time (answered 0)) = 100" "at_nonce (answered 0) = replicate 24 6"
    "client_current_unix_time (at_time2 (answered 0)) = 101" "current_unix_time (pi_time server_inputs) = 101"
    "current_unix_time (pi_time2 server_inputs) = 100"
    by (simp_all add: answered_def server_inputs_def sample_attempt_def client_current_unix_time_def current_unix_time_def)
  have r: "pad_response (take MAX_PT_SIZE (as_bytes ''ok'' @ [])) 0 = as_bytes ''ok''"
    by (simp add: pad_response_def Let_def MAX_PT_SIZE_def)
  have e: "encrypt_packet sample_crypto ''password'' (as_bytes ''ok'') mem 100 (replicate 16 1) (replicate 24 2) =
      Ok (sealed_sample 1 2 ''ok'', replicate 24 2, 100)" for mem
    by (simp add: encrypt_packet_def psk2key_def sample_crypto_def Let_def sealed_sample_def)
  show "replay_check (cf_profile server_cfg) (current_unix_time (pi_time server_inputs))
     (client_current_unix_time (at_time (answered 0))) (at_nonce (answered 0)) (sr_replay (sys_srv (initial 30 8 []))) =
     Ok (True, replay_new 30 8)"
    unfolding t using w by (simp add: server_cfg_def initial_def)
  show "encrypt_packet (cf_crypto server_cfg) (cf_psk server_cfg)
     (pad_response (take MAX_PT_SIZE (as_bytes ''ok'' @ [])) (pi_pad server_inputs)) (cf_memlimit server_cfg)
     (current_unix_time (pi_time2 server_inputs)) (pi_salt server_inputs) (pi_nonce server_inputs) =
     Ok (sealed_sample 1 2 ''ok'', replicate 24 2, 100)"
    unfolding t using r e by (simp add: server_cfg_def server_inputs_def)
  show "client_current_unix_time (at_time (answered 0)) = 100" "at_nonce (answered 0) = replicate 24 6"
    by (fact t)+
  show "pi_nonce server_inputs \<noteq> at_nonce (answered 0)"
    unfolding t by (simp add: server_inputs_def)
  show "is_date (client_current_unix_time (at_time (answered 0)))"
    "\<bar>sint (client_current_unix_time (at_time2 (answered 0))) - sint (current_unix_time (pi_time2 server_inputs))\<bar> \<le>
     int (unat (ca_window sample_args))"
    unfolding t by (simp_all add: is_date_def sample_args_def DEFAULT_WINDOW_def)
  show "length (ca_script sample_args) < MAX_PT_SIZE"
    by (simp add: sample_args_def MAX_PT_SIZE_def)
qed (simp_all add: server_cfg_def server_inputs_def answered_def sample_crypto_ok sample_resolves sample_seal
      client_setup_pwhash_memlimit_def, simp_all add: sample_args_def)

section \<open>Properties\<close>

text \<open>
  C3. A command makes the round trip: when client and server share the secret and the memory limit,
  the script fits a packet and does not end with a hash sign, the server's window takes the packet
  and the answer arrives within the client's window, then the server runs the script (once, without
  its padding), and the client ends with success and reports the output, cut to the plaintext limit
  and without trailing hash signs.
\<close>

theorem command_is_run_and_reported:
  assumes "crypto_ok (cf_crypto cfg)" and "parse_dsl_args read argv = (es0, Ok (Inr a))"
    and "cf_psk cfg = ca_psk a" and "cf_memlimit cfg = fst (client_setup_pwhash_memlimit var)"
    and "length (ca_script a) < MAX_PT_SIZE" and "ca_script a = [] \<or> last (ca_script a) \<noteq> CHR ''#''"
    and "at_bind (attempts 0) = None" and "at_sendto (attempts 0) = None" and "at_timeout (attempts 0) = None"
    and "resolve_ip_addr (at_lookup (attempts 0)) (ca_family a) (ca_server a) = Inr ip"
    and "turn_seal (cf_crypto cfg) a (fst (client_setup_pwhash_memlimit var)) (attempts 0) = Ok pkt"
    and "length (at_nonce (attempts 0)) = NONCE_LEN" and "is_date (client_current_unix_time (at_time (attempts 0)))"
    and "replay_check (cf_profile cfg) (current_unix_time (pi_time i)) (client_current_unix_time (at_time (attempts 0)))
      (at_nonce (attempts 0)) (sr_replay s) = Ok (True, rw)"
    and "pi_child i (command_line (pi_env i)) (as_bytes (ca_script a)) = Output stdout stderr"
    and "encrypt_packet (cf_crypto cfg) (cf_psk cfg) (pad_response (take MAX_PT_SIZE (stdout @ stderr)) (pi_pad i))
      (cf_memlimit cfg) (current_unix_time (pi_time2 i)) (pi_salt i) (pi_nonce i) = Ok (enc, nonce2, ts2)"
    and "pi_send_err i = None" and "length (pi_nonce i) = NONCE_LEN" and "pi_nonce i \<noteq> at_nonce (attempts 0)"
    and "at_recv (attempts 0) = Datagram enc srv_addr"
    and "\<bar>sint (client_current_unix_time (at_time2 (attempts 0))) - sint (current_unix_time (pi_time2 i))\<bar> \<le>
      int (unat (ca_window a))"
  shows "\<exists>es. client_run (cf_crypto cfg) p argv var read attempts = (Ok (Inr ()), es) \<and>
    csent es = [(pkt, sock_new ip (ca_server_port a))] \<and>
    last es = CInfo (''response from '' @ client_addr_to_str srv_addr @ '': '' @
      from_utf8_lossy (remove_padding (take MAX_PT_SIZE (stdout @ stderr)))) \<and>
    (let s' = process_packet cfg i peer (take MAX_CT_SIZE pkt) s
     in executed (sr_trace s') = executed (sr_trace s) @
          [(client_current_unix_time (at_time (attempts 0)), at_nonce (attempts 0), as_bytes (ca_script a))] \<and>
        last (sr_trace s') = SSend enc peer)"
proof -
  let ?i = "attempts 0" and ?m = "memlimit_of var"
  let ?ts = "client_current_unix_time (at_time ?i)"
  let ?pt = "pad_response (take MAX_PT_SIZE (stdout @ stderr)) (pi_pad i)"
  note d = turn_seal_opens [OF assms(1,11,12)]
  have "length (build_padded_cmd (ca_script a) (at_pad ?i)) \<le> MAX_PT_SIZE"
    using assms(5) by (auto simp: length_build_padded_cmd MAX_PT_SIZE_def)
  then have pkt: "take MAX_CT_SIZE pkt = pkt"
    using d(2) by (simp add: MIN_LEN_def MAX_CT_SIZE_def)
  have child: "pi_child i (command_line (pi_env i)) (remove_padding (build_padded_cmd (ca_script a) (at_pad ?i))) =
      Output stdout stderr"
    unfolding command_unpadded [OF assms(6)] by (rule assms(15))
  obtain logs logs' where logs: "list_all is_log logs" "list_all is_log logs'"
    and tr: "sr_trace (process_packet cfg i peer pkt s) = sr_trace s @ [SAccept ?ts (at_nonce ?i)] @ logs @
      [SExec ?ts (at_nonce ?i) (command_line (pi_env i)) (as_bytes (ca_script a))] @ logs' @
      [SRecord ts2 nonce2, SSend enc peer]"
    using process_packet_success(1) [OF d(1) [folded assms(3,4)] assms(14) child assms(16,17), of peer]
    unfolding command_unpadded [OF assms(6)] by blast
  have "executed logs = []" "executed logs' = []"
    using logs_only [OF logs(1)] logs_only [OF logs(2)] by simp_all
  then have srv: "executed (sr_trace (process_packet cfg i peer pkt s)) =
      executed (sr_trace s) @ [(?ts, at_nonce ?i, as_bytes (ca_script a))]"
    "last (sr_trace (process_packet cfg i peer pkt s)) = SSend enc peer"
    unfolding tr by simp_all
  note r = response_fits [OF assms(1,16,18)]
  have "answered_turn (cf_crypto cfg) a ?m ?i pkt ip enc srv_addr ?pt"
    using assms(7-13,19-21) r unfolding answered_turn_def assms(3,4) by auto
  from client_run_answered [where attempts = attempts and var = var and p = p, OF assms(2) this] srv show ?thesis
    by (simp add: pkt response_unpadded Let_def)
qed

theorem command_is_run_and_reported_witness:
  "(\<exists>es. client_run sample_crypto Release sample_argv None (\<lambda>_. Inr ''status'') answered = (Ok (Inr ()), es)) \<and>
   executed (sr_trace (process_packet server_cfg server_inputs sample_peer
     (take MAX_CT_SIZE (sealed_sample 5 6 ''status'')) (sys_srv (initial 30 8 [])))) =
     [(100, replicate 24 6, as_bytes ''status'')]"
proof -
  note f = answered_facts
  from command_is_run_and_reported [where s = "sys_srv (initial 30 8 [])" and p = Release and peer = sample_peer
      and attempts = answered and cfg = server_cfg and i = server_inputs and var = None and stdout = "as_bytes ''ok''"
      and stderr = "[]",
      OF f(1) sample_parse f(2-20)]
  show ?thesis
    by (simp add: f(21,22) server_cfg_def initial_def sample_args_def Let_def) blast
qed

end
