(* ===== verification/Spec2Isabelle.thy ===== *)
theory Spec2Isabelle
  imports Dump_Script End_To_End
begin

text \<open>
  Verification of \<open>ktuctl-rs\<close>: the control program \<open>ktuctl\<close> of an ICMP tunnel whose peers a kernel
  module keeps, and the pair \<open>tuctl-server\<close> and \<open>tuctl-client\<close> that runs its scripts from remote.

  \<^bold>\<open>The program.\<close> \<open>ktuctl\<close> (\<open>src/ktuctl-rs/src\<close>) turns commands into generic netlink requests: it asks the
  kernel for the family id, sends one request per connection, and reads acknowledgements, single
  answers or listings. \<open>dump\<close> prints the state as a script, \<open>script\<close> runs one. \<open>tuctl-client\<close>
  (\<open>src/tuctl-client/src/main.rs\<close>) seals a script into one UDP packet with a key derived from a shared
  secret; \<open>tuctl-server\<close> (\<open>src/tuctl-server/src/main.rs\<close>) limits the rate per address, opens the packet,
  refuses replays, pipes the script to \<open>ktuctl script -\<close> (\<open>execute_command\<close>) and seals the output
  into the response. Each side records the packets it sends as well, so neither takes an echo for a message.

  \<^bold>\<open>Theories, from the bottom.\<close>
  \<^item> \<open>Prelude\<close>, \<open>Bytes\<close>, \<open>Rust_Std\<close>, \<open>F64\<close>, \<open>Text_Facts\<close>: the language. A computation that can fail yields
    \<open>Ok\<close>, \<open>Err\<close>, \<open>Panic\<close> or \<open>Blocked\<close> (a read that never returns); an effectful one is a function on its
    state (\<open>comp\<close>, sequenced by \<open>then_do\<close>). Machine integers are words; the \<open>i64\<close> arithmetic of the replay
    windows and the counters exist in the \<open>Debug\<close> profile, where overflow panics, and in \<open>Release\<close>, where it
    wraps. Strings are their UTF-8 bytes; \<open>Rust_Std\<close> has the decoder, \<open>trim\<close>, \<open>split\<close>, \<open>lines\<close> and integer
    parsing. \<open>F64\<close> is rounding to double precision for the token buckets.
  \<^item> \<open>Config\<close>, \<open>Layout\<close> (\<open>config.rs\<close>): the constants and \<open>repr(C)\<close> structures, their bytes, and that the layout
    rules leave no padding. Contract \<open>wire_struct\<close>, interpreted for every structure.
  \<^item> \<open>Netlink_Codec\<close>, \<open>World\<close>, \<open>Netlink\<close>, \<open>Netlink_Refine\<close>, \<open>Netlink_Requests\<close> (\<open>netlink.rs\<close>): the builder and
    parsers; what a run sees and does (\<open>world\<close>: a kernel that answers each connection by any list of
    datagrams, and a trace of events); the six functions on bytes. \<open>Netlink_Refine\<close> gives the answer as
    messages (the view) and the contract \<open>reply_handler\<close> under which the loops on bytes do what the
    view says, interpreted for the four handlers; \<open>Netlink_Requests\<close> says what each request returns.
  \<^item> \<open>Uid_Map\<close>, \<open>Helper\<close> (\<open>uid_map.rs\<close>, \<open>helper.rs\<close>): the names file, names, addresses, comments and xor keys.
    \<open>Addr_Text\<close>: the printed text of an address and what the parser of \<open>std::net\<close> reads from it.
  \<^item> \<open>Commands\<close>, \<open>Commands_Server\<close>, \<open>Ctl_Main\<close> (\<open>commands.rs\<close>, \<open>main.rs\<close>, \<open>cli.rs\<close>): every command, the script
    interpreter and \<open>main\<close>. A command reads the record \<open>ctl\<close> (the two globals, the resolver, the word
    splitter, standard input, files, the time) and acts on the \<open>world\<close>.
  \<^item> \<open>Dump_Restore\<close>, \<open>Ctl_Runs\<close>, \<open>Script_Text\<close>, \<open>Dump_Script\<close>: whole runs of commands against a kernel given by
    what each connection answers (\<open>conn_config\<close>, \<open>conn_acks\<close>, \<open>conn_dumps\<close>), the text of a script as rows of
    commands, and the round trip from \<open>dump\<close> to \<open>script\<close> under the contract \<open>peer_lines\<close>.
  \<^item> \<open>Replay_Cache\<close>, \<open>Replay_Window\<close>: the contract \<open>replay_cache\<close> and the two copies of the replay window, both
    interpretations of it.
  \<^item> \<open>Net_Addr\<close>, \<open>Packet\<close>, \<open>Packet_Channel\<close>: addresses as text; keys, sealing, opening, padding; the contract
    \<open>packet_codec\<close> between the program that seals and the one that opens, interpreted for commands, for
    responses and for the server alone.
  \<^item> \<open>Rate_Limiter\<close>: the token buckets in double precision.
  \<^item> \<open>Server\<close>, \<open>Server_System\<close>: \<open>process_packet\<close> in the segments between its locks and awaits, and the
    system of the receive loop and all its tasks as a step relation (\<open>srv_step\<close>, \<open>reachable\<close>).
  \<^item> \<open>Client\<close>, \<open>Client_Session\<close>: the argument language, the choice of the address, the retry loop.
  \<^item> \<open>End_To_End\<close>: client and server together.

  \<^bold>\<open>What is shown.\<close> For the server: whatever packets arrive and however tasks interleave, the commands it
  runs are the contents of received packets sealed under the secret, no two for the same pair of
  timestamp and nonce, and responses sent back to it are not accepted; the rate of each address is bounded,
  with the rounding error of the buckets included. For the client: what it sends, how often, that success means a
  sealed packet and never its own, and that a silent server is given up. For both: a command makes
  the round trip. For \<open>ktuctl\<close>: requests and answers on bytes do what the messages say; which requests
  \<open>client-add\<close> and \<open>client-del\<close> make in which order and when they stop; that the text of a script
  runs its commands; that a printed address is read back, and what it becomes when it is not; and that
  a dumped configuration is restored bit for bit, on servers and on clients, when comments are plain
  words, names are not shared and addresses are not IPv4-compatible. Errors are part of the
  statements: wrong mode, refused packets, every text of a xor key, answers the reader panics on.

  \<^bold>\<open>Bounds.\<close> No definition uses fuel: the loops end by measures (received datagrams left, bytes left,
  retries left, arguments left). The theorems on replays assume that clock readings are dates (below
  2^62 seconds), do not run backwards, that offered timestamps are less than 2^63 seconds away, and
  that the window is not full when a pair is recorded; \<open>release_window_wraps\<close> and
  \<open>evicted_packet_is_accepted_again\<close> show what happens otherwise.

  \<^bold>\<open>Parameters.\<close> The record \<open>crypto\<close> stands for the crates of the password hash and the cipher; \<open>crypto_ok\<close> states
  that opening inverts sealing and only sealed texts open. The resolver (\<open>reads_numeric\<close>: the text of a
  numeric address is that address), \<open>shlex::split\<close> (\<open>splits_plain\<close>: plain words are split at spaces), the
  bytes of a structure (\<open>enc_T\<close>, \<open>dec_T\<close>: its C layout, as \<open>zerocopy\<close> derives them), the order of a hash map (\<open>lists_keys\<close>), the child process, clocks
  and random bytes are arguments. Each theorem that relies on one has a witness with a concrete function.

  \<^bold>\<open>Not modelled.\<close> The parsers that \<open>clap\<close> derives (their records are inputs), the runtime and the sockets
  (their results are inputs), logging filters, the text of \<open>print_client_usage\<close>, errors while reading a
  script or a names file after it was opened, and a crash of one \<open>tokio\<close> task, which ends that task only.
  The two locks of the globals in \<open>helper.rs\<close> are written before any command runs in a program of one
  thread, so their poisoning is left out.
\<close>

end
